(* ===== verification/Ptraf_Prelude.thy ===== *)
theory Ptraf_Prelude
  imports Main "HOL-Library.Word" "HOL-Library.Multiset"
begin

text \<open>
  Shared vocabulary of the development: machine integers, the result of a
  computation that may panic, endianness, and the generic lemmas on lists,
  results and words that the component theories use.

  A Rust panic is a value: a fallible computation has type \<open>'a exec\<close>, with
  \<^term>\<open>Inl\<close> for the panic. The flag \<open>oc\<close> taken by arithmetic is the build's
  \<^verbatim>\<open>overflow-checks\<close> setting: set (debug builds), an overflowing \<open>+\<close>, \<open>-\<close>,
  \<open>*\<close> or unary minus panics; clear (release builds), it wraps.
\<close>

unbundle bit_operations_syntax

named_theorems exec_simps \<open>unfolding of the panic monad\<close>
named_theorems model_defs \<open>definitions of plain accessors and constructors of the model\<close>
named_theorems inv_intros \<open>preservation of component invariants\<close>

type_synonym u8 = "8 word"
type_synonym u16 = "16 word"
type_synonym u32 = "32 word"
type_synonym u64 = "64 word"
type_synonym i32 = "32 word"

datatype panic = ArithOverflow | DivideByZero | UnwrapNone | IndexOutOfBounds | ExplicitPanic

type_synonym 'a exec = "panic + 'a"

section \<open>The panic monad\<close>

definition rbind :: "'e + 'a \<Rightarrow> ('a \<Rightarrow> 'e + 'b) \<Rightarrow> 'e + 'b" where
  "rbind m f = (case m of Inl e \<Rightarrow> Inl e | Inr x \<Rightarrow> f x)"

definition rmap :: "('a \<Rightarrow> 'b) \<Rightarrow> 'e + 'a \<Rightarrow> 'e + 'b" where
  "rmap f m = (case m of Inl e \<Rightarrow> Inl e | Inr x \<Rightarrow> Inr (f x))"

fun rfold :: "('a \<Rightarrow> 's \<Rightarrow> 'e + 's) \<Rightarrow> 'a list \<Rightarrow> 's \<Rightarrow> 'e + 's" where
  "rfold f [] s = Inr s"
| "rfold f (x # xs) s = (case f x s of Inl e \<Rightarrow> Inl e | Inr s' \<Rightarrow> rfold f xs s')"

lemma rbind_Inr [simp]: "rbind (Inr x) f = f x"
  and rbind_Inl [simp]: "rbind (Inl e) f = Inl e"
  by (simp_all add: rbind_def)

lemma rmap_Inr [simp]: "rmap f (Inr x) = Inr (f x)"
  and rmap_Inl [simp]: "rmap f (Inl e) = Inl e"
  by (simp_all add: rmap_def)

lemma rbind_eq_Inr_iff: "rbind m f = Inr y \<longleftrightarrow> (\<exists>x. m = Inr x \<and> f x = Inr y)"
  by (cases m) auto

lemma rmap_eq_Inr_iff: "rmap f m = Inr y \<longleftrightarrow> (\<exists>x. m = Inr x \<and> y = f x)"
  by (cases m) auto

lemmas exec_elims = rbind_eq_Inr_iff rmap_eq_Inr_iff

lemma rfold_append:
  "rfold f (xs @ ys) s = rbind (rfold f xs s) (rfold f ys)"
  by (induction xs arbitrary: s) (auto split: sum.splits)

lemma rfold_total:
  assumes "\<And>x s. x \<in> set xs \<Longrightarrow> f x s = Inr (g x s)"
  shows "rfold f xs s = Inr (fold g xs s)"
  using assms by (induction xs arbitrary: s) auto

lemma rfold_invariant:
  assumes "rfold f xs s = Inr s'" "P s"
    and "\<And>x s t. x \<in> set xs \<Longrightarrow> P s \<Longrightarrow> f x s = Inr t \<Longrightarrow> P t"
  shows "P s'"
  using assms
proof (induction xs arbitrary: s)
  case (Cons x xs)
  then obtain t where "f x s = Inr t" "rfold f xs t = Inr s'"
    by (auto split: sum.splits)
  with Cons show ?case by (metis list.set_intros)
qed simp

section \<open>Lists kept within a capacity\<close>

text \<open>The last \<open>n\<close> elements of a list: what a bounded queue retains.\<close>

definition lastn :: "nat \<Rightarrow> 'a list \<Rightarrow> 'a list" where
  "lastn n xs = drop (length xs - n) xs"

lemma length_lastn [simp]: "length (lastn n xs) = min n (length xs)"
  by (simp add: lastn_def)

lemma lastn_all [simp]: "length xs \<le> n \<Longrightarrow> lastn n xs = xs"
  by (simp add: lastn_def)

lemma set_lastn_subset: "set (lastn n xs) \<subseteq> set xs"
  by (simp add: lastn_def set_drop_subset)

lemma lastn_append_lastn: "lastn n (lastn n xs @ ys) = lastn n (xs @ ys)"
proof (cases "length xs \<le> n")
  case False
  then show ?thesis
    by (simp add: lastn_def add.commute)
qed simp

lemma last_lastn [simp]: "0 < n \<Longrightarrow> xs \<noteq> [] \<Longrightarrow> last (lastn n xs) = last xs"
  by (simp add: lastn_def)

lemma lastn_eq_Nil [simp]: "lastn n xs = [] \<longleftrightarrow> n = 0 \<or> xs = []"
  by (cases xs) (auto simp: lastn_def)

lemma last_append_ne: "ys \<noteq> [] \<Longrightarrow> last (xs @ ys) = last ys"
  by simp

section \<open>Sums over keyed lists\<close>

lemma sum_list_absent: "a \<notin> g ` set xs \<Longrightarrow> sum_list (map (\<lambda>x. if g x = a then w else 0) xs) = 0"
  for w :: "'v::comm_monoid_add"
  by (induction xs) auto

lemma sum_list_mset_cong: "mset xs = mset ys \<Longrightarrow> sum_list (map f xs) = sum_list (map f ys)"
  for f :: "'a \<Rightarrow> 'b::comm_monoid_add"
  by (metis mset_map sum_mset_sum_list)

lemma sum_list_key:
  "distinct (map g xs) \<Longrightarrow> a \<in> g ` set xs \<Longrightarrow> sum_list (map (\<lambda>x. if g x = a then w else 0) xs) = w"
  for w :: "'v::comm_monoid_add"
proof (induction xs)
  case (Cons x xs)
  then show ?case using sum_list_absent [of a g xs w] by auto
qed simp

lemma sum_list_swap:
  "sum_list (map (\<lambda>x. sum_list (map (f x) ys)) xs) = sum_list (map (\<lambda>y. sum_list (map (\<lambda>x. f x y) xs)) ys)"
  for f :: "'a \<Rightarrow> 'b \<Rightarrow> 'v::comm_monoid_add"
  by (induction xs) (simp_all add: sum_list_addf)

text \<open>Sums grouped by a key.\<close>

lemma sum_list_by_key:
  fixes W :: "'b \<Rightarrow> 'v::comm_monoid_add"
  assumes "distinct (map g qs)"
  shows "sum_list (map (\<lambda>s. sum_list (map (\<lambda>b. if t b = g s then W b else 0) bs)) qs)
    = sum_list (map (\<lambda>b. if t b \<in> g ` set qs then W b else 0) bs)"
proof (induction bs)
  case (Cons b bs)
  have "sum_list (map (\<lambda>s. if g s = t b then W b else 0) qs) = (if t b \<in> g ` set qs then W b else 0)"
    using sum_list_key [OF assms, of "t b" "W b"] sum_list_absent [of "t b" g qs "W b"] by presburger
  then have "sum_list (map (\<lambda>s. if t b = g s then W b else 0) qs) = (if t b \<in> g ` set qs then W b else 0)"
    by (simp only: eq_commute)
  with Cons show ?case by (simp add: sum_list_addf)
qed simp

section \<open>Ranges of machine integers\<close>

lemma unat_u16: "unat x < 65536" for x :: u16
  using unsigned_less [where ?'a = nat, of x] by simp

lemma unat_u32: "unat x < 4294967296" for x :: u32
  using unsigned_less [where ?'a = nat, of x] by simp

lemma unat_u64: "unat x < 18446744073709551616" for x :: u64
  using unsigned_less [where ?'a = nat, of x] by simp

section \<open>Multiples of a window\<close>

lemma dvd_gap: "w dvd a \<Longrightarrow> w dvd b \<Longrightarrow> b < a \<Longrightarrow> b + w \<le> a" for w a b :: nat
  using dvd_diff_nat [of w a b] dvd_imp_le [of w "a - b"] by linarith

end
