(* ===== verification/Common_Types.thy ===== *)
theory Common_Types
  imports Ptraf_Prelude
begin

text \<open>
  \<^verbatim>\<open>ptraf-common/src/types.rs\<close>: the event the eBPF side writes into the perf
  buffers and the user side reads, with its address, channel and socket-type
  fields, and the conversions to \<^verbatim>\<open>std::net\<close> addresses.

  \<open>[u16; 8]\<close> is \<^verbatim>\<open>Arr8\<close>; \<^verbatim>\<open>std::net::Ipv4Addr\<close> is its 32-bit value
  (\<open>a.b.c.d\<close> is \<open>a * 2^24 + b * 2^16 + c * 2^8 + d\<close>), \<^verbatim>\<open>Ipv6Addr\<close> its eight
  segments.
\<close>

section \<open>Endianness\<close>

datatype endian = Little | Big

definition swap_bytes16 :: "u16 \<Rightarrow> u16" where
  "swap_bytes16 w = push_bit 8 w OR drop_bit 8 w"

definition swap_bytes32 :: "u32 \<Rightarrow> u32" where
  "swap_bytes32 w = push_bit 24 w OR push_bit 8 (w AND 0xFF00)
     OR drop_bit 8 (w AND 0xFF0000) OR drop_bit 24 w"

definition from_be16 :: "endian \<Rightarrow> u16 \<Rightarrow> u16" where
  "from_be16 en w = (case en of Big \<Rightarrow> w | Little \<Rightarrow> swap_bytes16 w)"

definition to_be16 :: "endian \<Rightarrow> u16 \<Rightarrow> u16" where
  "to_be16 en w = (case en of Big \<Rightarrow> w | Little \<Rightarrow> swap_bytes16 w)"

definition from_be32 :: "endian \<Rightarrow> u32 \<Rightarrow> u32" where
  "from_be32 en w = (case en of Big \<Rightarrow> w | Little \<Rightarrow> swap_bytes32 w)"

definition to_be32 :: "endian \<Rightarrow> u32 \<Rightarrow> u32" where
  "to_be32 en w = (case en of Big \<Rightarrow> w | Little \<Rightarrow> swap_bytes32 w)"

lemma bit_swap_bytes16:
  "bit (swap_bytes16 w) n \<longleftrightarrow> n < 16 \<and> bit w (if n < 8 then n + 8 else n - 8)"
  by (auto simp: swap_bytes16_def bit_simps add.commute dest: bit_imp_le_length)

lemma swap_bytes16_involutive [simp]: "swap_bytes16 (swap_bytes16 w) = w"
  by (rule bit_word_eqI) (auto simp: bit_swap_bytes16)

lemma from_be16_to_be16 [simp]: "from_be16 en (to_be16 en w) = w"
  by (cases en) (simp_all add: from_be16_def to_be16_def)

section \<open>Events\<close>

datatype Channel = Tx | Rx

fun channel_display :: "Channel \<Rightarrow> string" where
  "channel_display Tx = ''TX''"
| "channel_display Rx = ''RX''"

datatype IpVersion = V4_tag | V6_tag

datatype u16x8 = Arr8 u16 u16 u16 u16 u16 u16 u16 u16

fun arr8_map :: "(u16 \<Rightarrow> u16) \<Rightarrow> u16x8 \<Rightarrow> u16x8" where
  "arr8_map h (Arr8 a b c d e f g i) = Arr8 (h a) (h b) (h c) (h d) (h e) (h f) (h g) (h i)"

record IpAddr =
  addr :: u16x8
  version :: IpVersion

datatype SockType = Unknown | Stream | Dgram | Raw | Rdm | Seqpacket | Dccp | Packet

record SockMsgEvent =
  msg_sock_type :: SockType
  msg_local_addr :: IpAddr
  msg_remote_addr :: IpAddr
  msg_local_port :: u16
  msg_remote_port :: u16
  msg_ret :: i32
  msg_pid :: u32
  msg_channel :: Channel

section \<open>Addresses\<close>

text \<open>\<^verbatim>\<open>std::net::IpAddr\<close> and \<^verbatim>\<open>std::net::SocketAddr\<close>.\<close>

datatype StdIpAddr = V4 u32 | V6 u16x8

datatype SocketAddr = SocketAddr (ip: StdIpAddr) (port: u16)

definition is_ipv4 :: "SocketAddr \<Rightarrow> bool" where
  "is_ipv4 a = (case ip a of V4 _ \<Rightarrow> True | V6 _ \<Rightarrow> False)"

definition IpAddr_v4 :: "u32 \<Rightarrow> IpAddr" where
  "IpAddr_v4 a = \<lparr>addr = Arr8 0 0 0 0 0 0 (ucast (drop_bit 16 a)) (ucast a), version = V4_tag\<rparr>"

definition IpAddr_v6 :: "u16x8 \<Rightarrow> IpAddr" where
  "IpAddr_v6 a = \<lparr>addr = a, version = V6_tag\<rparr>"

definition IpAddr_from_u16x8 :: "u16x8 \<Rightarrow> IpAddr" where
  "IpAddr_from_u16x8 value = IpAddr_v6 value"

definition IpAddr_from_u8x4 :: "u8 \<Rightarrow> u8 \<Rightarrow> u8 \<Rightarrow> u8 \<Rightarrow> IpAddr" where
  "IpAddr_from_u8x4 v0 v1 v2 v3 =
     IpAddr_v4 (push_bit 24 (ucast v0) OR push_bit 16 (ucast v1) OR push_bit 8 (ucast v2) OR ucast v3)"

fun std_from_IpAddr :: "endian \<Rightarrow> IpAddr \<Rightarrow> StdIpAddr" where
  "std_from_IpAddr en \<lparr>addr = Arr8 a0 a1 a2 a3 a4 a5 a6 a7, version = V4_tag\<rparr> =
     V4 (from_be32 en (push_bit 16 (ucast a6) OR ucast a7))"
| "std_from_IpAddr en \<lparr>addr = Arr8 a0 a1 a2 a3 a4 a5 a6 a7, version = V6_tag\<rparr> =
     V6 (Arr8 (from_be16 en a0) (from_be16 en a1) (from_be16 en a2) (from_be16 en a3)
              (from_be16 en a4) (from_be16 en a5) (from_be16 en a6) (from_be16 en a7))"

section \<open>Operations of an event\<close>

text \<open>\<^verbatim>\<open>packet_size\<close>: \<open>Ok(size)\<close> is the inner \<^term>\<open>Inr\<close>, \<open>Err(errno)\<close> the inner
  \<^term>\<open>Inl\<close>. The negation of \<open>i32::MIN\<close> overflows.\<close>

definition neg_i32 :: "bool \<Rightarrow> i32 \<Rightarrow> i32 exec" where
  "neg_i32 oc x = (if oc \<and> sint x = - (2 ^ 31) then Inl ArithOverflow else Inr (- x))"

definition packet_size :: "bool \<Rightarrow> SockMsgEvent \<Rightarrow> (i32 + u32) exec" where
  "packet_size oc self =
     (if 0 \<le> sint (msg_ret self) then Inr (Inr (msg_ret self))
      else rmap Inl (neg_i32 oc (msg_ret self)))"

definition local_sock_addr :: "endian \<Rightarrow> SockMsgEvent \<Rightarrow> SocketAddr" where
  "local_sock_addr en self =
     SocketAddr (std_from_IpAddr en (msg_local_addr self)) (from_be16 en (msg_local_port self))"

definition remote_sock_addr :: "endian \<Rightarrow> SockMsgEvent \<Rightarrow> SocketAddr" where
  "remote_sock_addr en self =
     SocketAddr (std_from_IpAddr en (msg_remote_addr self)) (from_be16 en (msg_remote_port self))"

section \<open>Socket types\<close>

text \<open>The discriminants of the \<open>repr(u16)\<close> enum, the conversion from the kernel's
  value, and the label shown in the table.\<close>

fun SockType_repr :: "SockType \<Rightarrow> u16" where
  "SockType_repr Unknown = 0"
| "SockType_repr Stream = 1"
| "SockType_repr Dgram = 2"
| "SockType_repr Raw = 3"
| "SockType_repr Rdm = 4"
| "SockType_repr Seqpacket = 5"
| "SockType_repr Dccp = 6"
| "SockType_repr Packet = 10"

definition SockType_from_u16 :: "u16 \<Rightarrow> SockType" where
  "SockType_from_u16 val =
     (if val = 1 then Stream else if val = 2 then Dgram else if val = 3 then Raw
      else if val = 4 then Rdm else if val = 5 then Seqpacket else if val = 6 then Dccp
      else if val = 10 then Packet else Unknown)"

fun SockType_to_string :: "SockType \<Rightarrow> string" where
  "SockType_to_string Unknown = ''Unknown''"
| "SockType_to_string Stream = ''Stream''"
| "SockType_to_string Dgram = ''Datagram''"
| "SockType_to_string Raw = ''Raw''"
| "SockType_to_string Rdm = ''RDM''"
| "SockType_to_string Seqpacket = ''Seqpacket''"
| "SockType_to_string Dccp = ''DCCP''"
| "SockType_to_string Packet = ''Packet''"

lemma SockType_from_repr [simp]: "SockType_from_u16 (SockType_repr t) = t"
  by (cases t) (simp_all add: SockType_from_u16_def)

lemma SockType_repr_inject: "SockType_repr s = SockType_repr t \<longleftrightarrow> s = t"
  by (metis SockType_from_repr)

text \<open>The derived \<open>Ord\<close> compares discriminants.\<close>

instantiation SockType :: linorder
begin

definition less_eq_SockType :: "SockType \<Rightarrow> SockType \<Rightarrow> bool" where
  "less_eq_SockType a b \<longleftrightarrow> SockType_repr a \<le> SockType_repr b"

definition less_SockType :: "SockType \<Rightarrow> SockType \<Rightarrow> bool" where
  "less_SockType a b \<longleftrightarrow> SockType_repr a < SockType_repr b"

instance
proof
  fix x y :: SockType
  show "x \<le> y \<Longrightarrow> y \<le> x \<Longrightarrow> x = y"
    by (simp add: less_eq_SockType_def SockType_repr_inject flip: order_eq_iff)
qed (auto simp: less_eq_SockType_def less_SockType_def)

end

section \<open>Lemmas\<close>

lemma SockType_repr_from:
  "SockType_repr (SockType_from_u16 v) = (if v \<in> {1, 2, 3, 4, 5, 6, 10} then v else 0)"
  by (simp add: SockType_from_u16_def)

lemma packet_size_ok:
  "0 \<le> sint (msg_ret m) \<Longrightarrow> packet_size oc m = Inr (Inr (msg_ret m))"
  by (simp add: packet_size_def)

lemma packet_size_err:
  "sint (msg_ret m) < 0 \<Longrightarrow> \<not> oc \<or> sint (msg_ret m) \<noteq> - (2 ^ 31) \<Longrightarrow>
   packet_size oc m = Inr (Inl (- msg_ret m))"
  by (auto simp: packet_size_def neg_i32_def)

lemma uint_nonneg_i32: "0 \<le> sint x \<Longrightarrow> uint x = sint x" for x :: i32
  using uint_sint [of x] sint_less [of x] by (simp add: take_bit_int_eq_self)

lemma unat_nonneg_i32: "0 \<le> sint x \<Longrightarrow> unat x < 2 ^ 31" for x :: i32
  using uint_nonneg_i32 [of x] sint_less [of x] by (simp add: unat_eq_nat_uint nat_less_iff)

lemma std_from_v6: "std_from_IpAddr en (IpAddr_v6 a) = V6 (arr8_map (from_be16 en) a)"
  by (cases a) (simp add: IpAddr_v6_def)

lemma arr8_map_from_to_be [simp]:
  "arr8_map (from_be16 en) (arr8_map (to_be16 en) a) = a"
  by (cases a) simp

lemma v4_halves: "push_bit 16 (ucast (ucast (drop_bit 16 a) :: u16)) OR ucast (ucast a :: u16) = a"
  for a :: u32
  by (rule bit_word_eqI) (auto simp: bit_simps)

lemma std_from_v4: "std_from_IpAddr en (IpAddr_v4 a) = V4 (from_be32 en a)"
  by (simp add: IpAddr_v4_def v4_halves)

section \<open>Properties\<close>

lemma bit_swap_bytes32:
  "bit (swap_bytes32 w) n \<longleftrightarrow>
     n < 32 \<and> bit w (if n < 8 then n + 24 else if n < 16 then n + 8 else if n < 24 then n - 8 else n - 24)"
proof (cases "n < 32")
  case True
  have m: "bit (0xFF00 :: u32) k \<longleftrightarrow> 8 \<le> k \<and> k < 16" "bit (0xFF0000 :: u32) k \<longleftrightarrow> 16 \<le> k \<and> k < 24" for k
  proof -
    have "(0xFF00 :: u32) = push_bit 8 (mask 8)" "(0xFF0000 :: u32) = push_bit 16 (mask 8)" by (simp_all add: mask_numeral)
    then show "bit (0xFF00 :: u32) k \<longleftrightarrow> 8 \<le> k \<and> k < 16" "bit (0xFF0000 :: u32) k \<longleftrightarrow> 16 \<le> k \<and> k < 24"
      by (simp_all only: bit_push_bit_iff bit_mask_iff) auto
  qed
  from True consider "n < 8" | "8 \<le> n" "n < 16" | "16 \<le> n" "n < 24" | "24 \<le> n" "n < 32" by force
  then show ?thesis
    by cases (auto simp only: swap_bytes32_def bit_or_iff bit_and_iff bit_push_bit_iff bit_drop_bit_eq comp_apply m
        possible_bit_word len_of_numeral_defs, auto simp: add.commute dest: bit_imp_le_length)
qed (auto dest: bit_imp_le_length)

lemma from_be32_to_be32 [simp]: "from_be32 en (to_be32 en w) = w"
proof (cases en)
  case Little
  have "bit (swap_bytes32 (swap_bytes32 w)) n = bit w n" if "n < 32" for n
  proof -
    from that consider "n < 8" | "8 \<le> n" "n < 16" | "16 \<le> n" "n < 24" | "24 \<le> n" "n < 32" by force
    then show ?thesis by cases (auto simp: bit_swap_bytes32)
  qed
  then have "swap_bytes32 (swap_bytes32 w) = w" by (intro bit_word_eqI) simp
  then show ?thesis by (simp add: Little from_be32_def to_be32_def)
qed (simp add: from_be32_def to_be32_def)

text \<open>C25. An address the kernel stores in network order comes out in user space as that
  address, for both families and on hosts of either endianness.\<close>

theorem addr_network_order:
  "std_from_IpAddr en (IpAddr_v4 (to_be32 en a)) = V4 a
   \<and> std_from_IpAddr en (IpAddr_v6 (arr8_map (to_be16 en) b)) = V6 b"
  by (simp add: std_from_v4 std_from_v6)

end
