(* ===== verification/Filter_Lang.thy ===== *)
theory Filter_Lang
  imports Common_Types
begin

text \<open>
  The filter language: the abstract syntax of \<^verbatim>\<open>ptraf-filter/src/frontend.rs\<close>, the
  \<^verbatim>\<open>Filterable\<close> trait of \<^verbatim>\<open>ptraf-filter/src/lib.rs\<close> and the evaluator of
  \<^verbatim>\<open>ptraf-filter/src/interpretor.rs\<close>. The concrete syntax is in \<open>Filter_Parser\<close>.

  The trait is the record of its methods; an implementation of the trait is a value
  of that record.
\<close>

section \<open>Syntax\<close>

datatype Protocol = Tcp | Udp

datatype FilterIpVersion = IpV4 | IpV6

datatype Expr =
    E_Pid u32
  | E_Protocol Protocol
  | E_IpVersion FilterIpVersion
  | E_Addr StdIpAddr
  | E_LocalAddr StdIpAddr
  | E_RemoteAddr StdIpAddr
  | E_Port u16
  | E_LocalPort u16
  | E_RemotePort u16
  | E_And Expr Expr
  | E_Or Expr Expr
  | E_Not Expr

section \<open>Evaluation\<close>

record 'f Filterable =
  f_pid :: "'f \<Rightarrow> u32"
  f_protocol :: "'f \<Rightarrow> Protocol option"
  f_ip_version :: "'f \<Rightarrow> FilterIpVersion"
  f_local_address :: "'f \<Rightarrow> StdIpAddr"
  f_remote_address :: "'f \<Rightarrow> StdIpAddr"
  f_local_port :: "'f \<Rightarrow> u16"
  f_remote_port :: "'f \<Rightarrow> u16"

fun eval :: "'f Filterable \<Rightarrow> 'f \<Rightarrow> Expr \<Rightarrow> bool" where
  "eval F f (E_Pid pid) \<longleftrightarrow> f_pid F f = pid"
| "eval F f (E_Protocol p) \<longleftrightarrow> (case f_protocol F f of Some fp \<Rightarrow> fp = p | None \<Rightarrow> False)"
| "eval F f (E_IpVersion v) \<longleftrightarrow> f_ip_version F f = v"
| "eval F f (E_Addr a) \<longleftrightarrow> f_local_address F f = a \<or> f_remote_address F f = a"
| "eval F f (E_LocalAddr a) \<longleftrightarrow> f_local_address F f = a"
| "eval F f (E_RemoteAddr a) \<longleftrightarrow> f_remote_address F f = a"
| "eval F f (E_Port p) \<longleftrightarrow> f_local_port F f = p \<or> f_remote_port F f = p"
| "eval F f (E_LocalPort p) \<longleftrightarrow> f_local_port F f = p"
| "eval F f (E_RemotePort p) \<longleftrightarrow> f_remote_port F f = p"
| "eval F f (E_And a b) \<longleftrightarrow> eval F f a \<and> eval F f b"
| "eval F f (E_Or a b) \<longleftrightarrow> eval F f a \<or> eval F f b"
| "eval F f (E_Not a) \<longleftrightarrow> \<not> eval F f a"

record Interpretor =
  ast :: Expr

definition Interpretor_new :: "Expr \<Rightarrow> Interpretor" where
  "Interpretor_new e = \<lparr>ast = e\<rparr>"

definition interpretor_filter :: "Interpretor \<Rightarrow> 'f Filterable \<Rightarrow> 'f \<Rightarrow> bool" where
  "interpretor_filter self F f = eval F f (ast self)"

section \<open>The contract of an implementation of the trait\<close>

text \<open>
  What a filter expects of a \<^verbatim>\<open>Filterable\<close>: both ends speak one IP version, the one
  it reports. An item that breaks this would satisfy contradictory filters.
\<close>

definition ip_version_of :: "StdIpAddr \<Rightarrow> FilterIpVersion" where
  "ip_version_of a = (case a of V4 _ \<Rightarrow> IpV4 | V6 _ \<Rightarrow> IpV6)"

locale filterable_laws =
  fixes F :: "'f Filterable" and ok :: "'f \<Rightarrow> bool"
  assumes version_local: "ok f \<Longrightarrow> f_ip_version F f = ip_version_of (f_local_address F f)"
    and version_remote: "ok f \<Longrightarrow> f_ip_version F f = ip_version_of (f_remote_address F f)"
begin

lemma addr_determines_version:
  assumes "ok f" "eval F f (E_Addr a)"
  shows "eval F f (E_IpVersion (ip_version_of a))"
  using assms version_local version_remote by auto

lemma mixed_versions_never_match:
  assumes "ok f" "ip_version_of a \<noteq> ip_version_of b"
  shows "\<not> eval F f (E_And (E_LocalAddr a) (E_RemoteAddr b))"
  using assms version_local version_remote by auto

end

section \<open>Lemmas\<close>

text \<open>A filter sees an item only through the seven methods.\<close>

definition same_view :: "'f Filterable \<Rightarrow> 'f \<Rightarrow> 'g Filterable \<Rightarrow> 'g \<Rightarrow> bool" where
  "same_view F f G g \<longleftrightarrow>
     f_pid F f = f_pid G g \<and> f_protocol F f = f_protocol G g
   \<and> f_ip_version F f = f_ip_version G g \<and> f_local_address F f = f_local_address G g
   \<and> f_remote_address F f = f_remote_address G g \<and> f_local_port F f = f_local_port G g
   \<and> f_remote_port F f = f_remote_port G g"

lemma eval_same_view: "same_view F f G g \<Longrightarrow> eval F f e = eval G g e"
  by (induction e) (auto simp: same_view_def)

text \<open>Pushing negations to the leaves keeps the meaning of a filter.\<close>

fun nnf :: "bool \<Rightarrow> Expr \<Rightarrow> Expr" where
  "nnf pos (E_And a b) = (if pos then E_And (nnf pos a) (nnf pos b) else E_Or (nnf pos a) (nnf pos b))"
| "nnf pos (E_Or a b) = (if pos then E_Or (nnf pos a) (nnf pos b) else E_And (nnf pos a) (nnf pos b))"
| "nnf pos (E_Not a) = nnf (\<not> pos) a"
| "nnf pos e = (if pos then e else E_Not e)"

lemma eval_nnf: "eval F f (nnf pos e) = (if pos then eval F f e else \<not> eval F f e)"
  by (induction pos e rule: nnf.induct) auto

section \<open>Properties\<close>


end
