(* ===== verification/Store_Segment.thy ===== *)
theory Store_Segment
  imports Common_Types Filter_Lang
begin

text \<open>
  \<^verbatim>\<open>ptraf/src/store.rs\<close>, the data of one time segment: interests, traffic counters,
  statistics, sockets and the segment itself with its batch update and its readers.

  The counters are atomics updated by \<open>fetch_add\<close>, which wraps at 64 bits in every
  build; the \<open>+\<close> of \<^verbatim>\<open>Stat::merge\<close> panics on overflow when \<open>oc\<close> is set. The
  concurrent map of a segment is a map, its concurrent set the list of its elements: the
  set compares sockets with \<^verbatim>\<open>Socket::eq\<close> and keeps the element it has. The order in
  which the set is iterated is not specified: \<open>for_each_socket\<close> takes it as an argument.
\<close>

section \<open>Interests\<close>

datatype Interest =
    RemoteIp StdIpAddr
  | RemoteSocket SocketAddr
  | LocalSocket SocketAddr
  | Pid u32
  | All

definition interests_from_msg :: "endian \<Rightarrow> SockMsgEvent \<Rightarrow> Interest list" where
  "interests_from_msg en msg =
     [Pid (msg_pid msg),
      LocalSocket (local_sock_addr en msg),
      RemoteSocket (remote_sock_addr en msg),
      RemoteIp (std_from_IpAddr en (msg_remote_addr msg)),
      All]"

section \<open>Counters\<close>

record Traffic =
  tr_size :: u64
  tr_count :: u64

definition Traffic_default :: Traffic where
  "Traffic_default = \<lparr>tr_size = 0, tr_count = 0\<rparr>"

definition Traffic_increment :: "Traffic \<Rightarrow> u64 \<Rightarrow> u64 \<Rightarrow> Traffic" where
  "Traffic_increment self val cnt =
     self\<lparr>tr_size := tr_size self + val, tr_count := tr_count self + cnt\<rparr>"

datatype Stat = Stat (rx: u64) (rx_packet_count: u64) (tx: u64) (tx_packet_count: u64)

definition add_u64 :: "bool \<Rightarrow> u64 \<Rightarrow> u64 \<Rightarrow> u64 exec" where
  "add_u64 oc a b = (if oc \<and> 2 ^ 64 \<le> unat a + unat b then Inl ArithOverflow else Inr (a + b))"

definition Stat_default :: Stat where
  "Stat_default = Stat 0 0 0 0"

definition Stat_total :: "bool \<Rightarrow> Stat \<Rightarrow> u64 exec" where
  "Stat_total oc self = add_u64 oc (rx self) (tx self)"

definition Stat_merge :: "bool \<Rightarrow> Stat \<Rightarrow> Stat \<Rightarrow> Stat exec" where
  "Stat_merge oc self other =
     rbind (add_u64 oc (rx self) (rx other)) (\<lambda>r.
     rbind (add_u64 oc (rx_packet_count self) (rx_packet_count other)) (\<lambda>rc.
     rbind (add_u64 oc (tx self) (tx other)) (\<lambda>t.
     rmap (Stat r rc t) (add_u64 oc (tx_packet_count self) (tx_packet_count other)))))"

definition Stat_add_assign :: "bool \<Rightarrow> Stat \<Rightarrow> Stat \<Rightarrow> Stat exec" where
  "Stat_add_assign oc self rhs = Stat_merge oc self rhs"

record Metrics =
  m_rx :: Traffic
  m_tx :: Traffic

definition Metrics_default :: Metrics where
  "Metrics_default = \<lparr>m_rx = Traffic_default, m_tx = Traffic_default\<rparr>"

definition with_channel :: "Channel \<Rightarrow> (Traffic \<Rightarrow> Traffic) \<Rightarrow> Metrics \<Rightarrow> Metrics" where
  "with_channel channel upd self =
     (case channel of Rx \<Rightarrow> self\<lparr>m_rx := upd (m_rx self)\<rparr> | Tx \<Rightarrow> self\<lparr>m_tx := upd (m_tx self)\<rparr>)"

definition Metrics_increment :: "Metrics \<Rightarrow> Channel \<Rightarrow> u64 \<Rightarrow> u64 \<Rightarrow> Metrics" where
  "Metrics_increment self channel val cnt =
     with_channel channel (\<lambda>t. Traffic_increment t val cnt) self"

definition Stat_from_Metrics :: "Metrics \<Rightarrow> Stat" where
  "Stat_from_Metrics m =
     Stat (tr_size (m_rx m)) (tr_count (m_rx m)) (tr_size (m_tx m)) (tr_count (m_tx m))"

section \<open>Sockets\<close>

record Socket =
  sk_pid :: u32
  sk_local :: SocketAddr
  sk_remote :: SocketAddr
  sk_sock_type :: SockType

definition match_interest :: "Socket \<Rightarrow> Interest \<Rightarrow> bool" where
  "match_interest self interest =
     (case interest of
        RemoteIp a \<Rightarrow> a = ip (sk_remote self)
      | RemoteSocket sock \<Rightarrow> sock = sk_remote self
      | LocalSocket sock \<Rightarrow> sock = sk_remote self
      | Pid pid \<Rightarrow> pid = sk_pid self
      | All \<Rightarrow> True)"

definition Socket_from_msg :: "endian \<Rightarrow> SockMsgEvent \<Rightarrow> Socket" where
  "Socket_from_msg en msg =
     \<lparr>sk_pid = msg_pid msg, sk_local = local_sock_addr en msg,
      sk_remote = remote_sock_addr en msg, sk_sock_type = msg_sock_type msg\<rparr>"

definition Socket_eq :: "Socket \<Rightarrow> Socket \<Rightarrow> bool" where
  "Socket_eq self rhs \<longleftrightarrow> sk_local self = sk_local rhs"

definition socket_protocol :: "Socket \<Rightarrow> Protocol option" where
  "socket_protocol self =
     (case sk_sock_type self of Stream \<Rightarrow> Some Tcp | Dgram \<Rightarrow> Some Udp | _ \<Rightarrow> None)"

definition socket_ip_version :: "Socket \<Rightarrow> FilterIpVersion" where
  "socket_ip_version self = (if is_ipv4 (sk_local self) then IpV4 else IpV6)"

definition Socket_filterable :: "Socket Filterable" where
  "Socket_filterable =
     \<lparr>f_pid = sk_pid, f_protocol = socket_protocol, f_ip_version = socket_ip_version,
      f_local_address = (\<lambda>s. ip (sk_local s)), f_remote_address = (\<lambda>s. ip (sk_remote s)),
      f_local_port = (\<lambda>s. port (sk_local s)), f_remote_port = (\<lambda>s. port (sk_remote s))\<rparr>"

section \<open>Segments\<close>

record Segment =
  seg_index :: "Interest \<Rightarrow> Metrics option"
  seg_socks :: "Socket list"

definition Segment_default :: Segment where
  "Segment_default = \<lparr>seg_index = Map.empty, seg_socks = []\<rparr>"

definition socks_insert :: "Socket \<Rightarrow> Socket list \<Rightarrow> Socket list" where
  "socks_insert s socks = (if \<exists>t \<in> set socks. Socket_eq t s then socks else socks @ [s])"

text \<open>\<open>entry(interest).and_modify(..).or_insert_with(..)\<close>.\<close>

definition index_entry ::
  "Channel \<Rightarrow> u64 \<Rightarrow> Interest \<Rightarrow> (Interest \<Rightarrow> Metrics option) \<Rightarrow> (Interest \<Rightarrow> Metrics option)" where
  "index_entry channel len interest index =
     (case index interest of
        Some stat \<Rightarrow> index(interest \<mapsto> Metrics_increment stat channel len 1)
      | None \<Rightarrow> index(interest \<mapsto> Metrics_increment Metrics_default channel len 1))"

definition segment_record :: "endian \<Rightarrow> SockMsgEvent \<Rightarrow> u64 \<Rightarrow> Segment \<Rightarrow> Segment" where
  "segment_record en msg len self =
     \<lparr>seg_index = fold (index_entry (msg_channel msg) len) (interests_from_msg en msg) (seg_index self),
      seg_socks = socks_insert (Socket_from_msg en msg) (seg_socks self)\<rparr>"

definition segment_message :: "endian \<Rightarrow> bool \<Rightarrow> SockMsgEvent \<Rightarrow> Segment \<Rightarrow> Segment exec" where
  "segment_message en oc msg self =
     rmap (\<lambda>res. case res of Inr len \<Rightarrow> segment_record en msg (ucast len) self | Inl errno \<Rightarrow> self)
       (packet_size oc msg)"

definition segment_batch_update :: "endian \<Rightarrow> bool \<Rightarrow> SockMsgEvent list \<Rightarrow> Segment \<Rightarrow> Segment exec" where
  "segment_batch_update en oc messages self = rfold (segment_message en oc) messages self"

definition stat_by_interest :: "Segment \<Rightarrow> Interest \<Rightarrow> Stat option" where
  "stat_by_interest self interest = map_option Stat_from_Metrics (seg_index self interest)"

definition segment_total :: "bool \<Rightarrow> Channel option \<Rightarrow> Segment \<Rightarrow> u64 exec" where
  "segment_total oc channel self =
     (case stat_by_interest self All of
        None \<Rightarrow> Inr 0
      | Some stat \<Rightarrow>
         (case channel of
            Some Tx \<Rightarrow> Inr (tx stat)
          | Some Rx \<Rightarrow> Inr (rx stat)
          | None \<Rightarrow> add_u64 oc (tx stat) (rx stat)))"

definition segment_total_packet_count :: "bool \<Rightarrow> Segment \<Rightarrow> u64 exec" where
  "segment_total_packet_count oc self =
     (case stat_by_interest self All of
        None \<Rightarrow> Inr 0
      | Some stat \<Rightarrow> add_u64 oc (rx_packet_count stat) (tx_packet_count stat))"

definition for_each_socket ::
  "(Socket list \<Rightarrow> Socket list) \<Rightarrow> (Socket \<Rightarrow> 's \<Rightarrow> 's exec) \<Rightarrow> Segment \<Rightarrow> 's \<Rightarrow> 's exec" where
  "for_each_socket ord f self st = rfold f (ord (seg_socks self)) st"

section \<open>Statistics form a commutative monoid\<close>

text \<open>Merging without overflow checks is the addition of the monoid; \<^verbatim>\<open>Stat::default\<close>
  is its zero.\<close>

instantiation Stat :: comm_monoid_add
begin

definition zero_Stat :: Stat where
  "zero_Stat = Stat_default"

definition plus_Stat :: "Stat \<Rightarrow> Stat \<Rightarrow> Stat" where
  "plus_Stat a b = Stat (rx a + rx b) (rx_packet_count a + rx_packet_count b)
     (tx a + tx b) (tx_packet_count a + tx_packet_count b)"

instance
  by standard (simp_all add: zero_Stat_def Stat_default_def plus_Stat_def add.assoc add.commute)

end

lemma Stat_sel_add [simp]:
  "rx (a + b) = rx a + rx b" "rx_packet_count (a + b) = rx_packet_count a + rx_packet_count b"
  "tx (a + b) = tx a + tx b" "tx_packet_count (a + b) = tx_packet_count a + tx_packet_count b"
  for a b :: Stat
  by (simp_all add: plus_Stat_def)

lemma Stat_sel_zero [simp]:
  "rx 0 = 0" "rx_packet_count 0 = 0" "tx 0 = 0" "tx_packet_count 0 = 0"
  by (simp_all add: zero_Stat_def Stat_default_def)

lemma Stat_merge_Inr: "Stat_merge oc a b = Inr c \<Longrightarrow> c = a + b"
  by (auto simp: Stat_merge_def add_u64_def plus_Stat_def exec_elims split: if_splits)

lemma Stat_merge_release: "Stat_merge False a b = Inr (a + b)"
  by (simp add: Stat_merge_def add_u64_def plus_Stat_def)

text \<open>Statistics whose four counters stay below 64 bits when added.\<close>

definition Stat_fits :: "Stat \<Rightarrow> Stat \<Rightarrow> bool" where
  "Stat_fits a b \<longleftrightarrow> unat (rx a) + unat (rx b) < 2 ^ 64
     \<and> unat (rx_packet_count a) + unat (rx_packet_count b) < 2 ^ 64
     \<and> unat (tx a) + unat (tx b) < 2 ^ 64
     \<and> unat (tx_packet_count a) + unat (tx_packet_count b) < 2 ^ 64"

lemma Stat_merge_fits: "Stat_fits a b \<Longrightarrow> Stat_merge oc a b = Inr (a + b)"
  by (simp add: Stat_merge_def add_u64_def plus_Stat_def Stat_fits_def)

section \<open>Ledgers\<close>

text \<open>
  The contract of an accumulating store: each update adds its weight to what is read
  at each key. The total read after a run of updates, and its independence of their
  order and interleaving, follow once for all instances.
\<close>

locale ledger =
  fixes post :: "'m \<Rightarrow> 's \<Rightarrow> 's"
    and balance :: "'s \<Rightarrow> 'k \<Rightarrow> 'v::comm_monoid_add"
    and weight :: "'m \<Rightarrow> 'k \<Rightarrow> 'v"
  assumes balance_post: "balance (post m s) k = balance s k + weight m k"
begin

lemma balance_fold: "balance (fold post ms s) k = balance s k + sum_list (map (\<lambda>m. weight m k) ms)"
  by (induction ms arbitrary: s) (simp_all add: balance_post add.assoc)

lemma balance_order: "mset ms = mset ms' \<Longrightarrow> balance (fold post ms s) k = balance (fold post ms' s) k"
  by (simp add: balance_fold flip: sum_mset_sum_list)

lemma balance_interleaving:
  "mset zs = mset xs + mset ys \<Longrightarrow>
   balance (fold post zs s) k = balance (fold post ys (fold post xs s)) k"
  using balance_order [of zs "xs @ ys" s k] by simp

end

section \<open>The ledger of a segment\<close>

definition stat_of :: "Segment \<Rightarrow> Interest \<Rightarrow> Stat" where
  "stat_of seg i = (case stat_by_interest seg i of None \<Rightarrow> 0 | Some s \<Rightarrow> s)"

definition channel_stat :: "Channel \<Rightarrow> u64 \<Rightarrow> Stat" where
  "channel_stat ch len = (case ch of Rx \<Rightarrow> Stat len 1 0 0 | Tx \<Rightarrow> Stat 0 0 len 1)"

text \<open>A message counts when the probed call succeeded; it then adds its size and one
  packet, in its direction, to each of its five interests.\<close>

definition msg_ok :: "SockMsgEvent \<Rightarrow> bool" where
  "msg_ok m \<longleftrightarrow> 0 \<le> sint (msg_ret m)"

definition msg_stat :: "SockMsgEvent \<Rightarrow> Stat" where
  "msg_stat m = channel_stat (msg_channel m) (ucast (msg_ret m))"

definition msg_weight :: "endian \<Rightarrow> SockMsgEvent \<Rightarrow> Interest \<Rightarrow> Stat" where
  "msg_weight en m i = (if msg_ok m \<and> i \<in> set (interests_from_msg en m) then msg_stat m else 0)"

definition segment_apply :: "endian \<Rightarrow> SockMsgEvent \<Rightarrow> Segment \<Rightarrow> Segment" where
  "segment_apply en m seg = (if msg_ok m then segment_record en m (ucast (msg_ret m)) seg else seg)"

definition index_stat :: "(Interest \<Rightarrow> Metrics option) \<Rightarrow> Interest \<Rightarrow> Stat" where
  "index_stat index i = (case index i of None \<Rightarrow> 0 | Some m \<Rightarrow> Stat_from_Metrics m)"

lemma stat_of_index: "stat_of seg i = index_stat (seg_index seg) i"
  by (simp add: stat_of_def stat_by_interest_def index_stat_def split: option.splits)

lemma Stat_from_increment:
  "Stat_from_Metrics (Metrics_increment m ch len 1) = Stat_from_Metrics m + channel_stat ch len"
  by (cases ch) (simp_all add: Stat_from_Metrics_def Metrics_increment_def with_channel_def
      Traffic_increment_def channel_stat_def plus_Stat_def)

lemma Stat_from_default: "Stat_from_Metrics Metrics_default = 0"
  by (simp add: Stat_from_Metrics_def Metrics_default_def Traffic_default_def zero_Stat_def Stat_default_def)

text \<open>One atomic entry update, as each CPU's task performs it: the finest grain at which
  tasks interleave.\<close>

definition entry_post ::
  "Interest \<times> Channel \<times> u64 \<Rightarrow> (Interest \<Rightarrow> Metrics option) \<Rightarrow> (Interest \<Rightarrow> Metrics option)" where
  "entry_post = (\<lambda>(i, ch, len). index_entry ch len i)"

definition entry_weight :: "Interest \<times> Channel \<times> u64 \<Rightarrow> Interest \<Rightarrow> Stat" where
  "entry_weight = (\<lambda>(j, ch, len) i. if i = j then channel_stat ch len else 0)"

interpretation entry_ledger: ledger entry_post index_stat entry_weight
  by unfold_locales
    (auto simp: entry_post_def entry_weight_def index_stat_def index_entry_def
      Stat_from_increment Stat_from_default split: option.splits)

lemma entry_weights_of_msg:
  "sum_list (map (\<lambda>j. entry_weight (j, ch, len) i) (interests_from_msg en m)) =
   (if i \<in> set (interests_from_msg en m) then channel_stat ch len else 0)"
  by (cases i) (auto simp: interests_from_msg_def entry_weight_def)

lemma fold_index_entry:
  "fold (index_entry ch len) is idx = fold entry_post (map (\<lambda>i. (i, ch, len)) is) idx"
  by (induction "is" arbitrary: idx) (simp_all add: entry_post_def)

interpretation seg_ledger: ledger "segment_apply en" stat_of "msg_weight en"
proof
  show "stat_of (segment_apply en m s) k = stat_of s k + msg_weight en m k" for m s k
    using entry_weights_of_msg [of "msg_channel m" "ucast (msg_ret m)" k en m]
    by (simp add: segment_apply_def segment_record_def stat_of_index fold_index_entry
        entry_ledger.balance_fold msg_weight_def msg_stat_def comp_def)
qed

section \<open>Batch updates\<close>

lemma segment_message_Inr: "segment_message en oc m seg = Inr seg' \<Longrightarrow> seg' = segment_apply en m seg"
  by (auto simp: segment_message_def segment_apply_def msg_ok_def packet_size_def neg_i32_def
      exec_elims split: if_splits)

lemma segment_message_release: "segment_message en False m seg = Inr (segment_apply en m seg)"
  by (simp add: segment_message_def segment_apply_def msg_ok_def packet_size_def neg_i32_def)

text \<open>The one message that panics a build with overflow checks: a return value of \<open>i32::MIN\<close>.\<close>

definition msg_no_panic :: "bool \<Rightarrow> SockMsgEvent \<Rightarrow> bool" where
  "msg_no_panic oc m \<longleftrightarrow> oc \<longrightarrow> sint (msg_ret m) \<noteq> - (2 ^ 31)"

lemma segment_message_no_panic:
  "msg_no_panic oc m \<Longrightarrow> segment_message en oc m seg = Inr (segment_apply en m seg)"
  by (auto simp: segment_message_def segment_apply_def msg_ok_def packet_size_def neg_i32_def
      msg_no_panic_def)

lemma segment_batch_Inr:
  "segment_batch_update en oc ms seg = Inr seg' \<Longrightarrow> seg' = fold (segment_apply en) ms seg"
  unfolding segment_batch_update_def
  by (induction ms arbitrary: seg) (auto split: sum.splits dest: segment_message_Inr)

lemma segment_batch_no_panic:
  "(\<And>m. m \<in> set ms \<Longrightarrow> msg_no_panic oc m) \<Longrightarrow>
   segment_batch_update en oc ms seg = Inr (fold (segment_apply en) ms seg)"
  unfolding segment_batch_update_def by (rule rfold_total) (simp add: segment_message_no_panic)

section \<open>The invariant of a segment\<close>

text \<open>
  Sockets are identified by their local address; a local address is indexed exactly
  when its socket is in the set; and the traffic of the segment is the sum of the
  traffic of its sockets.
\<close>

definition seg_keys :: "Segment \<Rightarrow> bool" where
  "seg_keys seg \<longleftrightarrow> distinct (map sk_local (seg_socks seg)) \<and>
     (\<forall>a. seg_index seg (LocalSocket a) \<noteq> None \<longleftrightarrow> a \<in> sk_local ` set (seg_socks seg))"

definition seg_conserves :: "Segment \<Rightarrow> bool" where
  "seg_conserves seg \<longleftrightarrow>
     stat_of seg All = sum_list (map (\<lambda>s. stat_of seg (LocalSocket (sk_local s))) (seg_socks seg))"

definition seg_inv :: "Segment \<Rightarrow> bool" where
  "seg_inv seg \<longleftrightarrow> seg_keys seg \<and> seg_conserves seg"

lemma seg_inv_default [simp]: "seg_inv Segment_default"
  by (simp add: seg_inv_def seg_keys_def seg_conserves_def Segment_default_def stat_of_def
      stat_by_interest_def)

lemma dom_index_entry: "dom (index_entry ch len i idx) = insert i (dom idx)"
  by (auto simp: index_entry_def split: option.splits)

lemma dom_fold_index_entry: "dom (fold (index_entry ch len) is idx) = set is \<union> dom idx"
  by (induction "is" arbitrary: idx) (auto simp: dom_index_entry)

lemma index_segment_record:
  "seg_index (segment_record en m len seg) i \<noteq> None \<longleftrightarrow>
   i \<in> set (interests_from_msg en m) \<or> seg_index seg i \<noteq> None"
  using dom_fold_index_entry [of "msg_channel m" len "interests_from_msg en m" "seg_index seg"]
  by (auto simp: segment_record_def dom_def)

lemma local_in_interests: "LocalSocket a \<in> set (interests_from_msg en m) \<longleftrightarrow> a = local_sock_addr en m"
  and all_in_interests: "All \<in> set (interests_from_msg en m)"
  by (auto simp: interests_from_msg_def)

lemma socks_insert_if:
  "socks_insert s socks = (if sk_local s \<in> sk_local ` set socks then socks else socks @ [s])"
proof -
  have "(\<exists>t \<in> set socks. Socket_eq t s) \<longleftrightarrow> sk_local s \<in> sk_local ` set socks"
    by (simp add: Socket_eq_def image_iff) metis
  then show ?thesis by (simp add: socks_insert_def)
qed

lemma socks_insert_locals:
  "sk_local ` set (socks_insert s socks) = insert (sk_local s) (sk_local ` set socks)"
  "distinct (map sk_local socks) \<Longrightarrow> distinct (map sk_local (socks_insert s socks))"
  by (auto simp: socks_insert_if)

lemma seg_keys_record: "seg_keys seg \<Longrightarrow> seg_keys (segment_record en m len seg)"
  unfolding seg_keys_def index_segment_record local_in_interests
  by (simp add: segment_record_def socks_insert_locals Socket_from_msg_def)

lemma stat_of_absent: "seg_index seg i = None \<Longrightarrow> stat_of seg i = 0"
  by (simp add: stat_of_def stat_by_interest_def)

lemma socks_insert_sum:
  assumes "sk_local s \<notin> sk_local ` set socks \<Longrightarrow> f (sk_local s) = 0"
  shows "sum_list (map (\<lambda>t. f (sk_local t)) (socks_insert s socks)) =
    (sum_list (map (\<lambda>t. f (sk_local t)) socks) :: Stat)"
  using assms by (simp add: socks_insert_if)

lemma seg_conserves_record:
  assumes "seg_keys seg" "seg_conserves seg" "msg_ok m"
  shows "seg_conserves (segment_record en m (ucast (msg_ret m)) seg)"
proof -
  let ?a = "local_sock_addr en m" and ?w = "msg_stat m"
  let ?seg' = "segment_record en m (ucast (msg_ret m)) seg"
  let ?socks' = "socks_insert (Socket_from_msg en m) (seg_socks seg)"
  have ap: "segment_apply en m seg = ?seg'"
    using assms(3) by (simp add: segment_apply_def)
  have keys': "seg_keys ?seg'" using assms(1) by (rule seg_keys_record)
  have "sum_list (map (\<lambda>s. stat_of ?seg' (LocalSocket (sk_local s))) ?socks')
      = sum_list (map (\<lambda>s. stat_of seg (LocalSocket (sk_local s)) + (if sk_local s = ?a then ?w else 0)) ?socks')"
    using seg_ledger.balance_post [of en m seg] assms(3)
    by (simp add: ap msg_weight_def local_in_interests)
  also have "\<dots> = sum_list (map (\<lambda>s. stat_of seg (LocalSocket (sk_local s))) ?socks')
      + sum_list (map (\<lambda>s. if sk_local s = ?a then ?w else 0) ?socks')"
    by (rule sum_list_addf)
  also have "sum_list (map (\<lambda>s. if sk_local s = ?a then ?w else 0) ?socks') = ?w"
    using keys' by (intro sum_list_key) (simp_all add: seg_keys_def segment_record_def
        socks_insert_locals Socket_from_msg_def)
  also have "sum_list (map (\<lambda>s. stat_of seg (LocalSocket (sk_local s))) ?socks') = stat_of seg All"
    using assms(1,2) by (subst socks_insert_sum [where f = "\<lambda>a. stat_of seg (LocalSocket a)"])
      (auto simp: seg_conserves_def seg_keys_def intro!: stat_of_absent)
  also have "stat_of seg All + ?w = stat_of ?seg' All"
    using seg_ledger.balance_post [of en m seg All] assms(3)
    by (simp add: ap msg_weight_def all_in_interests)
  finally show ?thesis
    by (simp add: seg_conserves_def) (simp add: segment_record_def)
qed

lemma seg_inv_apply [inv_intros]: "seg_inv seg \<Longrightarrow> seg_inv (segment_apply en m seg)"
  by (simp add: seg_inv_def segment_apply_def seg_keys_record seg_conserves_record)

lemma seg_inv_fold: "seg_inv seg \<Longrightarrow> seg_inv (fold (segment_apply en) ms seg)"
  by (induction ms arbitrary: seg) (simp_all add: inv_intros)

lemma seg_inv_batch [inv_intros]:
  "seg_inv seg \<Longrightarrow> segment_batch_update en oc ms seg = Inr seg' \<Longrightarrow> seg_inv seg'"
  using segment_batch_Inr seg_inv_fold by blast

section \<open>The first socket of a local address stays\<close>

lemma socks_insert_extends: "\<exists>ys. socks_insert s socks = socks @ ys"
  by (simp add: socks_insert_def)

lemma segment_socks_extend: "\<exists>ys. seg_socks (fold (segment_apply en) ms seg) = seg_socks seg @ ys"
proof (induction ms arbitrary: seg)
  case (Cons m ms)
  obtain ys where "seg_socks (segment_apply en m seg) = seg_socks seg @ ys"
    using socks_insert_extends
    by (cases "msg_ok m") (fastforce simp: segment_apply_def segment_record_def)+
  then show ?case using Cons [of "segment_apply en m seg"] by auto
qed simp

section \<open>Sockets as filterable items\<close>

interpretation sockf: filterable_laws Socket_filterable
  "\<lambda>s. ip_version_of (ip (sk_local s)) = ip_version_of (ip (sk_remote s))"
  by unfold_locales
    (auto simp: Socket_filterable_def socket_ip_version_def is_ipv4_def ip_version_of_def
      split: StdIpAddr.splits)

text \<open>The interest of a view selects its sockets, but for a local address.\<close>

lemma match_interest_own:
  assumes "i \<in> set (interests_from_msg en m)" "\<And>a. i \<noteq> LocalSocket a"
  shows "match_interest (Socket_from_msg en m) i"
  using assms by (auto simp: interests_from_msg_def match_interest_def Socket_from_msg_def
      remote_sock_addr_def)

lemma match_interest_local:
  "match_interest s (LocalSocket (sk_local s)) \<longleftrightarrow> sk_local s = sk_remote s"
  by (simp add: match_interest_def)

section \<open>Messages of the unit tests\<close>

definition test_message :: "endian \<Rightarrow> u32 \<Rightarrow> Channel \<Rightarrow> u16 \<Rightarrow> u32 \<Rightarrow> u16 \<Rightarrow> i32 \<Rightarrow> SockMsgEvent" where
  "test_message en pid ch lport raddr rport len =
     \<lparr>msg_sock_type = Stream, msg_local_addr = IpAddr_v4 33, msg_remote_addr = IpAddr_v4 raddr,
      msg_local_port = to_be16 en lport, msg_remote_port = to_be16 en rport, msg_ret = len, msg_pid = pid,
      msg_channel = ch\<rparr>"

definition simple_messages :: "endian \<Rightarrow> SockMsgEvent list" where
  "simple_messages en =
     [test_message en 1 Tx 31 32 80 10, test_message en 1 Rx 31 32 80 11,
      test_message en 2 Tx 32 35 443 12, test_message en 3 Tx 33 32 443 13]"

section \<open>Properties\<close>

text \<open>C13. After a batch is recorded in a segment, the statistics of every interest are those
  before plus the size and packet of each successful message that has that interest;
  messages of failed calls add nothing.\<close>

theorem segment_counts:
  assumes "segment_batch_update en oc ms seg = Inr seg'"
  shows "stat_of seg' i = stat_of seg i + sum_list (map (\<lambda>m. msg_weight en m i) ms)"
  using segment_batch_Inr [OF assms] by (simp add: seg_ledger.balance_fold)

lemma simple_messages_no_panic: "m \<in> set (simple_messages en) \<Longrightarrow> msg_no_panic oc m"
  by (auto simp: simple_messages_def test_message_def msg_no_panic_def)

lemma simple_batch:
  "segment_batch_update en oc (simple_messages en) seg = Inr (fold (segment_apply en) (simple_messages en) seg)"
  by (rule segment_batch_no_panic) (rule simple_messages_no_panic)

lemmas simple_stats = simple_messages_def test_message_def msg_weight_def msg_ok_def msg_stat_def channel_stat_def
  interests_from_msg_def

theorem segment_counts_witness:
  "\<exists>seg. segment_batch_update Little True (simple_messages Little) Segment_default = Inr seg
     \<and> rx (stat_of seg All) = 11 \<and> tx (stat_of seg All) = 35 \<and> tx_packet_count (stat_of seg All) = 3"
proof -
  obtain seg where u: "segment_batch_update Little True (simple_messages Little) Segment_default = Inr seg"
    using simple_batch by blast
  have "stat_of Segment_default All = 0" by (simp add: stat_of_def stat_by_interest_def Segment_default_def)
  then show ?thesis using segment_counts [OF u, of All] u by (simp add: simple_stats)
qed

text \<open>The statistics of a segment do not depend on how the tasks of two CPUs interleave:
  recording the messages of both in any order gives, for every interest, the statistics of
  recording one batch after the other.\<close>

theorem segment_interleaving:
  assumes "mset zs = mset xs + mset ys"
    and "segment_batch_update en oc zs seg = Inr s1"
    and "rbind (segment_batch_update en oc xs seg) (segment_batch_update en oc ys) = Inr s2"
  shows "stat_of s1 i = stat_of s2 i"
  using seg_ledger.balance_interleaving [OF assms(1)] assms(2,3)
  by (auto simp: rbind_eq_Inr_iff dest!: segment_batch_Inr)

theorem segment_interleaving_witness:
  "\<exists>s1 s2. segment_batch_update Big True (rev (simple_messages Big)) Segment_default = Inr s1
     \<and> rbind (segment_batch_update Big True (take 2 (simple_messages Big)) Segment_default)
         (segment_batch_update Big True (drop 2 (simple_messages Big))) = Inr s2
     \<and> stat_of s1 (Pid 1) = stat_of s2 (Pid 1)"
proof -
  let ?ms = "simple_messages Big"
  have np: "msg_no_panic True m" if "m \<in> set (rev ?ms) \<or> m \<in> set (take 2 ?ms) \<or> m \<in> set (drop 2 ?ms)" for m
    using that simple_messages_no_panic by (auto dest: in_set_takeD in_set_dropD)
  obtain s1 s s2 where "segment_batch_update Big True (rev ?ms) Segment_default = Inr s1"
    "segment_batch_update Big True (take 2 ?ms) Segment_default = Inr s"
    "segment_batch_update Big True (drop 2 ?ms) s = Inr s2"
    using segment_batch_no_panic np by metis
  moreover have "mset (rev ?ms) = mset (take 2 ?ms) + mset (drop 2 ?ms)"
    by (simp flip: mset_append)
  ultimately show ?thesis using segment_interleaving [of "rev ?ms" "take 2 ?ms" "drop 2 ?ms"] by auto
qed

text \<open>C15. In every segment the traffic counted under \<open>All\<close> is the sum of the traffic of its
  sockets, each local address has at most one socket, and a local address is indexed exactly
  when its socket is listed.\<close>

theorem segment_conserves:
  assumes "segment_batch_update en oc ms Segment_default = Inr seg"
  shows "stat_of seg All = sum_list (map (\<lambda>s. stat_of seg (LocalSocket (sk_local s))) (seg_socks seg))
    \<and> distinct (map sk_local (seg_socks seg))
    \<and> (stat_by_interest seg (LocalSocket a) \<noteq> None \<longleftrightarrow> a \<in> sk_local ` set (seg_socks seg))"
proof -
  have inv: "seg_keys seg" "seg_conserves seg"
    using seg_inv_batch [OF seg_inv_default assms] by (simp_all add: seg_inv_def)
  then show ?thesis by (simp add: seg_keys_def seg_conserves_def stat_by_interest_def)
qed

theorem segment_conserves_witness:
  "\<exists>seg. segment_batch_update Little False (simple_messages Little) Segment_default = Inr seg
     \<and> stat_of seg All = sum_list (map (\<lambda>s. stat_of seg (LocalSocket (sk_local s))) (seg_socks seg))"
  using segment_conserves [OF simple_batch] simple_batch by blast

end
