(* ===== verification/Clock.thy ===== *)
theory Clock
  imports Ptraf_Prelude
begin

text \<open>
  \<^verbatim>\<open>ptraf/src/clock.rs\<close>: timestamps and the nanosecond clock.

  A \<^verbatim>\<open>Duration\<close> is its number of nanoseconds, a natural number below
  \<open>duration_limit\<close> (a 64-bit count of seconds plus a sub-second part), and
  \<^verbatim>\<open>Timestamp\<close>, a transparent wrapper, is the same. An \<^verbatim>\<open>Instant\<close> is a reading of
  the monotonic clock in nanoseconds and a \<^verbatim>\<open>SystemTime\<close> an integer number of
  nanoseconds around the epoch with a signed 64-bit count of seconds.
\<close>

type_synonym Duration = nat
type_synonym Timestamp = nat
type_synonym Instant = nat
type_synonym SystemTime = int

definition duration_limit :: nat where
  "duration_limit = 2 ^ 64 * 1000000000"

definition from_millis :: "u64 \<Rightarrow> Duration" where
  "from_millis ms = unat ms * 1000000"

definition from_secs :: "u64 \<Rightarrow> Duration" where
  "from_secs s = unat s * 1000000000"

text \<open>\<open>as_nanos() as u64\<close> keeps the low 64 bits of the 128-bit count.\<close>

definition as_nanos_u64 :: "Duration \<Rightarrow> nat" where
  "as_nanos_u64 d = d mod 2 ^ 64"

definition saturating_elapsed_since :: "Timestamp \<Rightarrow> Timestamp \<Rightarrow> Duration" where
  "saturating_elapsed_since self other = other - self"

definition trunc :: "Timestamp \<Rightarrow> Duration \<Rightarrow> Timestamp exec" where
  "trunc self window =
     (let nanos = as_nanos_u64 self; w = as_nanos_u64 window
      in if w = 0 then Inl DivideByZero else Inr (nanos - nanos mod w))"

definition Timestamp_add :: "Timestamp \<Rightarrow> Duration \<Rightarrow> Timestamp exec" where
  "Timestamp_add self rhs =
     (if self + rhs < duration_limit then Inr (self + rhs) else Inl ArithOverflow)"

definition Timestamp_from :: "Duration \<Rightarrow> Timestamp" where
  "Timestamp_from val = val"

record ClockNano =
  clock_start :: Instant
  clock_wall_time :: SystemTime

definition systime_checked_add :: "SystemTime \<Rightarrow> Duration \<Rightarrow> SystemTime option" where
  "systime_checked_add t d = (if t + int d < 2 ^ 63 * 1000000000 then Some (t + int d) else None)"

definition wall_time :: "ClockNano \<Rightarrow> Timestamp \<Rightarrow> SystemTime" where
  "wall_time self ts =
     (case systime_checked_add (clock_wall_time self) ts of
        Some t \<Rightarrow> t | None \<Rightarrow> clock_wall_time self)"

text \<open>\<open>default\<close> and \<open>now\<close> read the clocks; the readings are arguments.\<close>

definition ClockNano_default :: "Instant \<Rightarrow> SystemTime \<Rightarrow> ClockNano" where
  "ClockNano_default instant_now system_now =
     \<lparr>clock_start = instant_now, clock_wall_time = system_now\<rparr>"

definition clock_now :: "ClockNano \<Rightarrow> Instant \<Rightarrow> Timestamp" where
  "clock_now self instant_now = instant_now - clock_start self"

section \<open>The contract of truncation\<close>

text \<open>
  What the store and the socket table rely on: \<open>trunc\<close> maps a timestamp to the
  start of the window that holds it. \<open>ok\<close> is the range in which the low 64 bits
  of a duration are the whole of it.
\<close>

locale time_bucket =
  fixes bucket :: "nat \<Rightarrow> nat \<Rightarrow> nat exec" and ok :: "nat \<Rightarrow> bool"
  assumes bucket_total: "ok t \<Longrightarrow> ok w \<Longrightarrow> 0 < w \<Longrightarrow> \<exists>b. bucket t w = Inr b"
    and bucket_dvd: "ok w \<Longrightarrow> bucket t w = Inr b \<Longrightarrow> w dvd b"
    and bucket_le: "bucket t w = Inr b \<Longrightarrow> b \<le> t"
    and bucket_near: "ok t \<Longrightarrow> ok w \<Longrightarrow> bucket t w = Inr b \<Longrightarrow> t < b + w"
    and ok_le: "ok t \<Longrightarrow> s \<le> t \<Longrightarrow> ok s"
begin

lemma bucket_unique:
  assumes "ok t" "ok w" "bucket t w = Inr b" "w dvd c" "c \<le> t" "t < c + w"
  shows "b = c"
proof -
  from assms have b: "w dvd b" "b \<le> t" "t < b + w"
    using bucket_dvd bucket_le bucket_near by blast+
  then obtain j k where jk: "b = w * j" "c = w * k"
    using assms(4) by (auto elim!: dvdE)
  have "w * j < w * Suc k" "w * k < w * Suc j"
    using b assms(5,6) jk by simp_all
  then have "j = k"
    by (metis less_Suc_eq_le mult_less_cancel1 order.antisym)
  with jk show ?thesis by simp
qed

lemma bucket_fixed:
  assumes "ok t" "ok w" "0 < w" "w dvd t"
  shows "bucket t w = Inr t"
  using assms bucket_total bucket_unique by fastforce

lemma bucket_idem:
  assumes "ok t" "ok w" "0 < w" "bucket t w = Inr b"
  shows "bucket b w = Inr b"
proof (rule bucket_fixed)
  show "ok b" using assms(1) bucket_le [OF assms(4)] by (rule ok_le)
  show "w dvd b" using assms(2,4) by (rule bucket_dvd)
qed (fact assms)+

lemma bucket_mono:
  assumes "ok s" "ok t" "ok w" "s \<le> t" "bucket s w = Inr a" "bucket t w = Inr b"
  shows "a \<le> b"
proof (rule ccontr)
  assume "\<not> a \<le> b"
  then have "b < a" by simp
  moreover have "w dvd a" "w dvd b"
    using assms bucket_dvd by blast+
  ultimately have "b + w \<le> a"
    by (simp add: dvd_gap)
  moreover have "a \<le> s" "t < b + w"
    using assms bucket_le bucket_near by blast+
  ultimately show False using assms(4) by simp
qed

end

abbreviation u64_range :: "nat \<Rightarrow> bool" where
  "u64_range n \<equiv> n < 2 ^ 64"

interpretation clk: time_bucket trunc u64_range
proof
  show "t < b + w" if "u64_range t" "u64_range w" "trunc t w = Inr b" for t w b
  proof -
    from that have "0 < w" and "b = t - t mod w"
      by (auto simp: trunc_def as_nanos_u64_def Let_def split: if_splits)
    then show ?thesis
      using mod_less_divisor [of w t] mod_less_eq_dividend [of t w] by linarith
  qed
  show "b \<le> t" if "trunc t w = Inr b" for t w b
  proof -
    from that have "b \<le> t mod 2 ^ 64"
      by (auto simp: trunc_def as_nanos_u64_def Let_def split: if_splits)
    then show ?thesis
      using mod_less_eq_dividend [of t "2 ^ 64"] by (rule order.trans)
  qed
qed (auto simp: trunc_def as_nanos_u64_def Let_def minus_mod_eq_mult_div split: if_splits)

lemma trunc_eq: "u64_range t \<Longrightarrow> u64_range w \<Longrightarrow> 0 < w \<Longrightarrow> trunc t w = Inr (t - t mod w)"
  by (simp add: trunc_def as_nanos_u64_def)

lemma trunc_zero_window: "trunc t 0 = Inl DivideByZero"
  by (simp add: trunc_def as_nanos_u64_def)

lemma trunc_u64: "trunc t w = Inr b \<Longrightarrow> b < 2 ^ 64"
  by (auto simp: trunc_def as_nanos_u64_def Let_def less_imp_diff_less split: if_splits)

lemma from_millis_bound: "from_millis ms < duration_limit"
proof -
  have "unat ms < 2 ^ 64" using unsigned_less [of ms] by simp
  then show ?thesis by (simp add: from_millis_def duration_limit_def)
qed

lemma wall_time_in_range:
  assumes "clock_wall_time c + int ts < 2 ^ 63 * 1000000000"
  shows "wall_time c ts = clock_wall_time c + int ts"
  using assms by (simp add: wall_time_def systime_checked_add_def)

end
