(* ===== verification/Store_Window.thy ===== *)
theory Store_Window
  imports Store_Segment Clock
begin

text \<open>
  \<^verbatim>\<open>ptraf/src/store.rs\<close>, the time series: the store keeps a bounded deque of time
  segments, one per window, and creates the missing ones when an update arrives.

  The deque is a list, its back the last element. The slow path of
  \<^verbatim>\<open>Store::write_segment\<close> is a loop with no bound of its own (with a window of zero it
  would never end): it is a partial function, \<^term>\<open>None\<close> standing for divergence, and it
  is proved to return for the windows a store has. The locks are in \<open>Store_Locks\<close>.
\<close>

section \<open>State\<close>

record TimeSegment =
  ts_ts :: Timestamp
  ts_segment :: Segment

record Store =
  st_window :: Duration
  st_capacity :: nat
  st_segments :: "TimeSegment list"

definition Store_new :: "Duration \<Rightarrow> nat \<Rightarrow> Store" where
  "Store_new window capacity = \<lparr>st_window = window, st_capacity = capacity, st_segments = []\<rparr>"

definition store_window :: "Store \<Rightarrow> Duration" where
  "store_window self = st_window self"

definition max_capacity :: "Store \<Rightarrow> nat" where
  "max_capacity self = st_capacity self"

section \<open>Views\<close>

text \<open>A view holds the read lock: it is the deque at that moment.\<close>

type_synonym TimeSegmentsView = "TimeSegment list"

definition segments_view :: "Store \<Rightarrow> TimeSegmentsView" where
  "segments_view self = st_segments self"

definition view_len :: "TimeSegmentsView \<Rightarrow> nat" where
  "view_len self = length self"

definition view_is_empty :: "TimeSegmentsView \<Rightarrow> bool" where
  "view_is_empty self \<longleftrightarrow> self = []"

definition deque_back :: "'a list \<Rightarrow> 'a option" where
  "deque_back q = (if q = [] then None else Some (last q))"

definition view_oldest :: "TimeSegmentsView \<Rightarrow> TimeSegment option" where
  "view_oldest self = (case self of [] \<Rightarrow> None | s # _ \<Rightarrow> Some s)"

definition view_newest :: "TimeSegmentsView \<Rightarrow> TimeSegment option" where
  "view_newest self = deque_back self"

definition view_iter :: "TimeSegmentsView \<Rightarrow> TimeSegment list" where
  "view_iter self = self"

section \<open>Updates\<close>

definition new_segment :: "Timestamp \<Rightarrow> TimeSegment" where
  "new_segment t = \<lparr>ts_ts = t, ts_segment = Segment_default\<rparr>"

definition push_segment :: "nat \<Rightarrow> Timestamp \<Rightarrow> TimeSegment list \<Rightarrow> TimeSegment list" where
  "push_segment capacity t deque =
     (if capacity \<le> length deque then drop 1 deque else deque) @ [new_segment t]"

text \<open>The slow path: one round of the loop either stops (the back is not older than
  \<open>ts\<close>), panics (the next timestamp overflows) or pushes a segment and goes on.\<close>

definition next_segment_ts ::
  "Duration \<Rightarrow> Timestamp \<Rightarrow> TimeSegment list \<Rightarrow> Timestamp option exec" where
  "next_segment_ts window ts deque =
     (case deque_back deque of
        Some segment \<Rightarrow>
          if ts \<le> ts_ts segment then Inr None else rmap Some (Timestamp_add (ts_ts segment) window)
      | None \<Rightarrow> Inr (Some ts))"

partial_function (option) create_segments ::
  "Duration \<Rightarrow> nat \<Rightarrow> Timestamp \<Rightarrow> TimeSegment list \<Rightarrow> TimeSegment list exec option" where
  "create_segments window capacity ts deque =
     (case next_segment_ts window ts deque of
        Inl p \<Rightarrow> Some (Inl p)
      | Inr None \<Rightarrow> Some (Inr deque)
      | Inr (Some t) \<Rightarrow> create_segments window capacity ts (push_segment capacity t deque))"

definition is_current :: "Timestamp \<Rightarrow> TimeSegment list \<Rightarrow> bool" where
  "is_current ts deque =
     (case deque_back deque of Some segment \<Rightarrow> ts_ts segment = ts | None \<Rightarrow> False)"

definition write_segment :: "Timestamp \<Rightarrow> Store \<Rightarrow> Store exec option" where
  "write_segment ts self =
     (case trunc ts (st_window self) of
        Inl p \<Rightarrow> Some (Inl p)
      | Inr t \<Rightarrow>
          if is_current t (st_segments self) then Some (Inr self)
          else map_option (rmap (\<lambda>q. self\<lparr>st_segments := q\<rparr>))
                 (create_segments (st_window self) (st_capacity self) t (st_segments self)))"

text \<open>\<^verbatim>\<open>WriteTimeSegment::deref\<close>: the back of the deque, which must not be empty.\<close>

definition write_deref :: "Store \<Rightarrow> TimeSegment exec" where
  "write_deref self =
     (case deque_back (st_segments self) of Some s \<Rightarrow> Inr s | None \<Rightarrow> Inl UnwrapNone)"

definition set_back :: "TimeSegment \<Rightarrow> Store \<Rightarrow> Store" where
  "set_back s self = self\<lparr>st_segments := butlast (st_segments self) @ [s]\<rparr>"

definition store_batch_update ::
  "endian \<Rightarrow> bool \<Rightarrow> Timestamp \<Rightarrow> SockMsgEvent list \<Rightarrow> Store \<Rightarrow> Store exec option" where
  "store_batch_update en oc ts messages self =
     map_option (\<lambda>r. rbind r (\<lambda>st. rbind (write_deref st) (\<lambda>s.
         rmap (\<lambda>seg. set_back (s\<lparr>ts_segment := seg\<rparr>) st)
           (segment_batch_update en oc messages (ts_segment s)))))
       (write_segment ts self)"

definition oldest_timestamp :: "Timestamp \<Rightarrow> Store \<Rightarrow> (Timestamp \<times> Store) exec option" where
  "oldest_timestamp ts self =
     map_option (\<lambda>r. rbind r (\<lambda>st. rmap (\<lambda>s. (ts_ts s, st)) (write_deref st))) (write_segment ts self)"

section \<open>The invariant of a store\<close>

fun spaced :: "nat \<Rightarrow> nat list \<Rightarrow> bool" where
  "spaced w (x # y # zs) \<longleftrightarrow> y = x + w \<and> spaced w (y # zs)"
| "spaced w _ \<longleftrightarrow> True"

abbreviation times :: "Store \<Rightarrow> nat list" where
  "times st \<equiv> map ts_ts (st_segments st)"

abbreviation retention :: "Store \<Rightarrow> nat" where
  "retention st \<equiv> max 1 (st_capacity st)"

definition store_inv :: "Store \<Rightarrow> bool" where
  "store_inv st \<longleftrightarrow>
     0 < st_window st \<and> u64_range (st_window st)
   \<and> length (st_segments st) \<le> retention st
   \<and> spaced (st_window st) (times st)
   \<and> (\<forall>t \<in> set (times st). st_window st dvd t \<and> u64_range t)
   \<and> (\<forall>s \<in> set (st_segments st). seg_inv (ts_segment s))"

lemma store_invD:
  assumes "store_inv st"
  shows "0 < st_window st" "u64_range (st_window st)" "length (st_segments st) \<le> retention st"
    "spaced (st_window st) (times st)"
    "\<And>t. t \<in> set (times st) \<Longrightarrow> st_window st dvd t \<and> u64_range t"
    "\<And>s. s \<in> set (st_segments st) \<Longrightarrow> seg_inv (ts_segment s)"
  using assms by (auto simp: store_inv_def)

lemma Store_new_inv: "0 < w \<Longrightarrow> u64_range w \<Longrightarrow> store_inv (Store_new w cap)"
  by (simp add: store_inv_def Store_new_def)

section \<open>What the slow path creates\<close>

text \<open>The windows after \<open>l\<close>, and the windows from \<open>f\<close> to \<open>l\<close>.\<close>

definition after :: "nat \<Rightarrow> nat \<Rightarrow> nat \<Rightarrow> nat list" where
  "after l w k = map (\<lambda>i. l + i * w) [1..<Suc k]"

definition span :: "nat \<Rightarrow> nat \<Rightarrow> nat \<Rightarrow> nat list" where
  "span f w k = map (\<lambda>i. f + i * w) [0..<Suc k]"

lemma after_0 [simp]: "after l w 0 = []"
  by (simp add: after_def)

lemma after_Suc: "after l w (Suc k) = (l + w) # after (l + w) w k"
proof -
  have "[1..<Suc (Suc k)] = 1 # map Suc [1..<Suc k]"
    by (simp add: map_Suc_upt upt_conv_Cons del: upt_Suc)
  then show ?thesis by (simp add: after_def comp_def algebra_simps del: upt_Suc)
qed

lemma span_after: "span f w (j + k) = span f w j @ after (f + j * w) w k"
  by (induction k) (simp_all add: span_def after_def algebra_simps)

lemma lastn_map: "map f (lastn n xs) = lastn n (map f xs)"
  by (simp add: lastn_def drop_map)

lemma push_segment_lastn:
  assumes "length q \<le> max 1 cap"
  shows "push_segment cap t q = lastn (max 1 cap) (q @ [new_segment t])"
proof (cases "cap \<le> length q")
  case True
  then have "length q = max 1 cap \<or> q = []"
    using assms by (cases q) auto
  then show ?thesis using True by (auto simp: push_segment_def lastn_def)
next
  case False
  then show ?thesis by (simp add: push_segment_def lastn_def)
qed

lemma create_segments_stop:
  "q \<noteq> [] \<Longrightarrow> ts \<le> ts_ts (last q) \<Longrightarrow> create_segments w cap ts q = Some (Inr q)"
  by (simp add: create_segments.simps [of w cap ts q] next_segment_ts_def deque_back_def)

lemma create_segments_step:
  assumes "q \<noteq> []" "ts_ts (last q) < ts" "ts_ts (last q) + w < duration_limit"
  shows "create_segments w cap ts q = create_segments w cap ts (push_segment cap (ts_ts (last q) + w) q)"
  using assms
  by (subst create_segments.simps) (simp add: next_segment_ts_def deque_back_def Timestamp_add_def)

lemma last_push_segment [simp]: "last (push_segment cap t q) = new_segment t"
  and push_segment_ne [simp]: "push_segment cap t q \<noteq> []"
  by (simp_all add: push_segment_def)

lemma ts_new_segment [simp]: "ts_ts (new_segment t) = t"
  and segment_new_segment [simp]: "ts_segment (new_segment t) = Segment_default"
  by (simp_all add: new_segment_def)

lemma u64_duration: "n < 2 ^ 64 \<Longrightarrow> n < duration_limit"
  by (simp add: duration_limit_def)

lemma create_segments_aligned:
  assumes "0 < w" "q \<noteq> []" "length q \<le> max 1 cap" "ts = ts_ts (last q) + k * w" "u64_range ts"
  shows "create_segments w cap ts q =
    Some (Inr (lastn (max 1 cap) (q @ map new_segment (after (ts_ts (last q)) w k))))"
  using assms
proof (induction k arbitrary: q)
  case 0
  then show ?case by (simp add: create_segments_stop)
next
  case (Suc k)
  let ?l = "ts_ts (last q)"
  let ?q = "push_segment cap (?l + w) q"
  have push: "?q = lastn (max 1 cap) (q @ [new_segment (?l + w)])"
    using Suc.prems(3) by (rule push_segment_lastn)
  have "?l + w \<le> ts" using Suc.prems(4) by simp
  then have "?l + w < duration_limit"
    using Suc.prems(5) u64_duration le_less_trans by blast
  then have "create_segments w cap ts q = create_segments w cap ts ?q"
    using Suc.prems by (intro create_segments_step) simp_all
  also have "\<dots> = Some (Inr (lastn (max 1 cap) (?q @ map new_segment (after (?l + w) w k))))"
    using Suc.prems Suc.IH [of ?q] by (simp add: push)
  also have "lastn (max 1 cap) (?q @ map new_segment (after (?l + w) w k))
      = lastn (max 1 cap) (q @ map new_segment (after ?l w (Suc k)))"
    by (simp only: push lastn_append_lastn) (simp add: after_Suc)
  finally show ?case .
qed

lemma create_segments_empty: "create_segments w cap ts [] = Some (Inr [new_segment ts])"
proof -
  have "create_segments w cap ts [] = create_segments w cap ts [new_segment ts]"
    by (subst create_segments.simps) (simp add: next_segment_ts_def deque_back_def push_segment_def)
  also have "\<dots> = Some (Inr [new_segment ts])"
    by (simp add: create_segments_stop)
  finally show ?thesis .
qed

text \<open>The deque once the window starting at \<open>b\<close> has been reached.\<close>

definition advance :: "nat \<Rightarrow> Store \<Rightarrow> Store" where
  "advance b st =
     (if st_segments st = [] then st\<lparr>st_segments := [new_segment b]\<rparr>
      else let l = ts_ts (last (st_segments st))
           in st\<lparr>st_segments := lastn (retention st)
                (st_segments st @ map new_segment (after l (st_window st) ((b - l) div st_window st)))\<rparr>)"

lemma advance_frame [simp]:
  "st_window (advance b st) = st_window st" "st_capacity (advance b st) = st_capacity st"
  by (simp_all add: advance_def Let_def)

lemma last_time_mem: "st_segments st \<noteq> [] \<Longrightarrow> ts_ts (last (st_segments st)) \<in> set (times st)"
  by simp

lemma write_segment_advance:
  assumes inv: "store_inv st" and ts: "u64_range ts"
  shows "\<exists>b. trunc ts (st_window st) = Inr b \<and> write_segment ts st = Some (Inr (advance b st))"
proof -
  note D = store_invD [OF inv]
  obtain b where b: "trunc ts (st_window st) = Inr b"
    using clk.bucket_total [OF ts D(2,1)] by blast
  have bdvd: "st_window st dvd b" and b64: "u64_range b"
    using clk.bucket_dvd [OF D(2) b] trunc_u64 [OF b] by auto
  have "write_segment ts st = Some (Inr (advance b st))"
  proof (cases "st_segments st = []")
    case True
    then show ?thesis
      by (simp add: write_segment_def b is_current_def deque_back_def create_segments_empty advance_def)
  next
    case False
    let ?l = "ts_ts (last (st_segments st))"
    show ?thesis
    proof (cases "b \<le> ?l")
      case True
      with False D(3) have "advance b st = st"
        by (simp add: advance_def Let_def)
      with True False show ?thesis
        by (simp add: write_segment_def b is_current_def deque_back_def create_segments_stop)
    next
      case gt: False
      have "st_window st dvd b - ?l"
        using D(5) [OF last_time_mem [OF False]] bdvd by (simp add: dvd_diff_nat)
      with gt have "b = ?l + (b - ?l) div st_window st * st_window st"
        by simp
      with D False gt b64 show ?thesis
        by (simp add: write_segment_def b is_current_def deque_back_def advance_def Let_def
            create_segments_aligned [where k = "(b - ?l) div st_window st"])
    qed
  qed
  with b show ?thesis by blast
qed

section \<open>Updates keep the invariant\<close>

lemma spaced_Cons: "spaced w (x # xs) \<longleftrightarrow> (xs = [] \<or> hd xs = x + w) \<and> spaced w xs"
  by (cases xs) auto

lemma spaced_drop: "spaced w xs \<Longrightarrow> spaced w (drop n xs)"
proof (induction n arbitrary: xs)
  case (Suc n)
  then show ?case by (cases xs) (auto simp: spaced_Cons)
qed simp

lemma spaced_after_end: "spaced w (l # after l w k)"
  by (induction k arbitrary: l) (simp_all add: after_Suc)

lemma spaced_append_after: "spaced w xs \<Longrightarrow> xs \<noteq> [] \<Longrightarrow> spaced w (xs @ after (last xs) w k)"
proof (induction xs)
  case (Cons x xs)
  show ?case
  proof (cases "xs = []")
    case True
    then show ?thesis by (simp add: spaced_after_end)
  next
    case False
    with Cons show ?thesis by (simp add: spaced_Cons hd_append)
  qed
qed simp

lemma set_after: "t \<in> set (after l w k) \<Longrightarrow> \<exists>i \<le> k. 0 < i \<and> t = l + i * w"
proof -
  assume "t \<in> set (after l w k)"
  then obtain i where "i \<in> set [1..<Suc k]" "t = l + i * w" unfolding after_def by auto
  then show ?thesis by (intro exI [of _ i]) auto
qed

lemma after_bound:
  assumes "w dvd l" "t \<in> set (after l w ((b - l) div w))" "0 < w"
  shows "w dvd t" "t \<le> b" "l < t"
proof -
  obtain i where i: "i \<le> (b - l) div w" "0 < i" "t = l + i * w"
    using set_after [OF assms(2)] by blast
  then have "i * w \<le> b - l"
    using assms(3) by (simp add: less_eq_div_iff_mult_less_eq)
  moreover have "0 < i * w" using i assms(3) by simp
  ultimately show "w dvd t" "t \<le> b" "l < t" using i assms(1) by (simp, linarith, simp)
qed

lemma times_advance:
  assumes "st_segments st \<noteq> []" "l = last (times st)"
  shows "times (advance b st) = lastn (retention st) (times st @ after l (st_window st) ((b - l) div st_window st))"
  using assms by (simp add: advance_def Let_def lastn_map last_map comp_def)

lemma segments_advance_mem:
  "s \<in> set (st_segments (advance b st)) \<Longrightarrow>
   s \<in> set (st_segments st) \<or> s = new_segment (ts_ts s)"
  using set_lastn_subset by (fastforce simp: advance_def Let_def new_segment_def split: if_splits)

lemma store_inv_advance [inv_intros]:
  assumes inv: "store_inv st" and b: "st_window st dvd b" "u64_range b"
  shows "store_inv (advance b st)"
proof (cases "st_segments st = []")
  case True
  with inv b show ?thesis by (simp add: store_inv_def advance_def)
next
  case False
  let ?w = "st_window st" and ?l = "last (times st)"
  note D = store_invD [OF inv]
  have l: "?l \<in> set (times st)" using False by (intro last_in_set) simp
  have t: "times (advance b st) = lastn (retention st) (times st @ after ?l ?w ((b - ?l) div ?w))"
    using False by (rule times_advance) simp
  have "spaced ?w (times (advance b st))"
    unfolding t lastn_def using D(4) False by (intro spaced_drop spaced_append_after) simp_all
  moreover have "?w dvd t \<and> u64_range t" if "t \<in> set (times (advance b st))" for t
  proof -
    from that t set_lastn_subset have "t \<in> set (times st) \<or> t \<in> set (after ?l ?w ((b - ?l) div ?w))"
      by fastforce
    then show ?thesis
      using D(5) D(1) b l after_bound [of ?w ?l t b] by auto
  qed
  moreover have "length (st_segments (advance b st)) \<le> retention st"
    using arg_cong [OF t, of length] by simp
  moreover have "seg_inv (ts_segment s)" if "s \<in> set (st_segments (advance b st))" for s
    using segments_advance_mem [OF that] D(6)
    by (metis segment_new_segment seg_inv_default)
  ultimately show ?thesis using D by (simp add: store_inv_def)
qed

lemma segments_advance_ne [simp]: "st_segments (advance b st) \<noteq> []"
  by (simp add: advance_def Let_def)

lemma store_inv_set_back [inv_intros]:
  assumes "store_inv st" "st_segments st \<noteq> []" "ts_ts s = ts_ts (last (st_segments st))" "seg_inv (ts_segment s)"
  shows "store_inv (set_back s st)"
proof -
  have "times (set_back s st) = butlast (times st) @ [last (times st)]"
    using assms(2,3) by (simp add: set_back_def map_butlast last_map)
  also have "\<dots> = times st" using assms(2) by simp
  finally have t: "times (set_back s st) = times st" .
  then have "length (st_segments (set_back s st)) = length (st_segments st)"
    by (metis length_map)
  moreover have "seg_inv (ts_segment x)" if "x \<in> set (st_segments (set_back s st))" for x
    using that assms(1,4) by (auto simp: set_back_def store_inv_def dest: in_set_butlastD)
  ultimately show ?thesis
    using assms(1) t by (simp add: store_inv_def) (simp add: set_back_def)
qed

section \<open>Refinement of an unbounded time series\<close>

text \<open>
  The abstract store: every window ever reached, from the first to the latest, and the
  statistics of each window for each interest, kept for ever. An update that arrives
  after a later window was opened is recorded in the latest window.
\<close>

record Timeline =
  tl_span :: "(nat \<times> nat) option"
  tl_stat :: "nat \<Rightarrow> Interest \<Rightarrow> Stat"

definition Timeline_empty :: Timeline where
  "Timeline_empty = \<lparr>tl_span = None, tl_stat = (\<lambda>_ _. 0)\<rparr>"

definition tl_target :: "nat \<Rightarrow> Timeline \<Rightarrow> nat" where
  "tl_target b tm = (case tl_span tm of None \<Rightarrow> b | Some (f, l) \<Rightarrow> max l b)"

definition timeline_advance :: "nat \<Rightarrow> Timeline \<Rightarrow> Timeline" where
  "timeline_advance b tm =
     tm\<lparr>tl_span := Some (case tl_span tm of None \<Rightarrow> (b, b) | Some (f, l) \<Rightarrow> (f, max l b))\<rparr>"

definition timeline_record :: "endian \<Rightarrow> nat \<Rightarrow> SockMsgEvent list \<Rightarrow> Timeline \<Rightarrow> Timeline" where
  "timeline_record en t ms tm =
     tm\<lparr>tl_stat := (tl_stat tm)(t := \<lambda>i. tl_stat tm t i + sum_list (map (\<lambda>m. msg_weight en m i) ms))\<rparr>"

definition timeline_update :: "endian \<Rightarrow> nat \<Rightarrow> SockMsgEvent list \<Rightarrow> Timeline \<Rightarrow> Timeline" where
  "timeline_update en b ms tm = timeline_record en (tl_target b tm) ms (timeline_advance b tm)"

text \<open>A store represents a time series when it holds its last windows, as many as the
  capacity allows, with their statistics.\<close>

definition represents :: "Timeline \<Rightarrow> Store \<Rightarrow> bool" where
  "represents tm st \<longleftrightarrow>
     (case tl_span tm of
        None \<Rightarrow> st_segments st = [] \<and> (\<forall>t i. tl_stat tm t i = 0)
      | Some (f, l) \<Rightarrow>
          (\<exists>k. l = f + k * st_window st \<and> times st = lastn (retention st) (span f (st_window st) k))
        \<and> (\<forall>s \<in> set (st_segments st). \<forall>i. stat_of (ts_segment s) i = tl_stat tm (ts_ts s) i)
        \<and> (\<forall>t > l. \<forall>i. tl_stat tm t i = 0))"

lemma represents_empty: "represents Timeline_empty (Store_new w cap)"
  by (simp add: represents_def Timeline_empty_def Store_new_def)

lemma last_span [simp]: "last (span f w k) = f + k * w"
  and span_ne [simp]: "span f w k \<noteq> []"
  by (simp_all add: span_def)

lemma stat_of_default [simp]: "stat_of Segment_default i = 0"
  by (simp add: stat_of_def stat_by_interest_def Segment_default_def)

lemma last_times_represents:
  assumes "times st = lastn (retention st) (span f (st_window st) k)"
  shows "last (times st) = f + k * st_window st" "st_segments st \<noteq> []"
proof -
  show "last (times st) = f + k * st_window st" using assms by simp
  have "times st \<noteq> []" using assms by simp
  then show "st_segments st \<noteq> []" by simp
qed

lemma segments_after_last:
  assumes "s \<in> set (st_segments (advance b st))" "st_segments st \<noteq> []" "0 < st_window st"
    "st_window st dvd last (times st)"
  shows "s \<in> set (st_segments st) \<or> s = new_segment (ts_ts s) \<and> last (times st) < ts_ts s"
proof -
  let ?l = "last (times st)"
  have "s \<in> set (st_segments st) \<or>
      s \<in> new_segment ` set (after ?l (st_window st) ((b - ?l) div st_window st))"
    using assms(1,2) set_lastn_subset by (fastforce simp: advance_def Let_def last_map)
  then show ?thesis using after_bound(3) [OF assms(4) _ assms(3)] by auto
qed

lemma represents_advance:
  assumes inv: "store_inv st" and b: "st_window st dvd b" and rep: "represents tm st"
  shows "represents (timeline_advance b tm) (advance b st)"
proof (cases "tl_span tm")
  case None
  with rep have "st_segments st = []" "\<And>t i. tl_stat tm t i = 0"
    by (simp_all add: represents_def)
  with None show ?thesis
    by (simp add: represents_def timeline_advance_def advance_def span_def exI [of _ "0::nat"])
next
  case (Some p)
  then obtain f l where span: "tl_span tm = Some (f, l)" by (cases p) auto
  let ?w = "st_window st"
  note D = store_invD [OF inv]
  from rep span obtain k where k: "l = f + k * ?w" "times st = lastn (retention st) (span f ?w k)"
    and stats: "\<And>s i. s \<in> set (st_segments st) \<Longrightarrow> stat_of (ts_segment s) i = tl_stat tm (ts_ts s) i"
    and zero: "\<And>t i. l < t \<Longrightarrow> tl_stat tm t i = 0"
    by (auto simp: represents_def)
  note L = last_times_represents [OF k(2)]
  have l: "last (times st) = l" using L(1) k(1) by simp
  have ldvd: "?w dvd l" using D(5) [of l] l L(2) last_in_set [of "times st"] by simp
  let ?j = "(b - l) div ?w"
  have "?w dvd b - l" using b ldvd by (rule dvd_diff_nat)
  then have end_: "max l b = f + (k + ?j) * ?w"
    using k(1) by (cases "b \<le> l") (simp_all add: algebra_simps)
  have "times (advance b st) = lastn (retention st) (span f ?w (k + ?j))"
    using times_advance [OF L(2), of l b] l k by (simp add: span_after lastn_append_lastn)
  moreover have "stat_of (ts_segment s) i = tl_stat tm (ts_ts s) i"
    if "s \<in> set (st_segments (advance b st))" for s i
    using segments_after_last [OF that L(2) D(1)] ldvd l stats [of s i] zero [of "ts_ts s" i]
    by (metis segment_new_segment stat_of_default)
  ultimately show ?thesis
    using span end_ zero by (simp add: represents_def timeline_advance_def) blast
qed

lemma spaced_below_last: "spaced w (xs @ [x]) \<Longrightarrow> 0 < w \<Longrightarrow> y \<in> set xs \<Longrightarrow> y < x"
proof (induction xs arbitrary: y)
  case (Cons z zs)
  have "spaced w (zs @ [x])" using Cons.prems(1) by (simp add: spaced_Cons)
  then have below: "y < x" if "y \<in> set zs" for y using Cons.IH Cons.prems(2) that by blast
  have "hd (zs @ [x]) = z + w" using Cons.prems(1) by (simp add: spaced_Cons)
  then have "z + w \<le> x" using below by (cases zs) (auto intro: less_imp_le)
  then show ?case using Cons.prems below by auto
qed simp

lemma butlast_times_below:
  assumes "spaced w (map ts_ts q)" "0 < w" "s \<in> set (butlast q)"
  shows "ts_ts s < ts_ts (last q)"
proof -
  have ne: "q \<noteq> []" using assms(3) by auto
  have "map ts_ts (butlast q) @ [ts_ts (last q)] = map ts_ts (butlast q @ [last q])" by simp
  also have "\<dots> = map ts_ts q" by (simp only: append_butlast_last_id [OF ne])
  finally have "spaced w (map ts_ts (butlast q) @ [ts_ts (last q)])"
    using assms(1) by simp
  then show ?thesis
    using assms(2) by (rule spaced_below_last) (use assms(3) in simp)
qed

lemma times_set_back:
  assumes "st_segments st \<noteq> []" "ts_ts s = ts_ts (last (st_segments st))"
  shows "times (set_back s st) = times st"
proof -
  have "times (set_back s st) = map ts_ts (butlast (st_segments st) @ [last (st_segments st)])"
    using assms(2) by (simp add: set_back_def)
  then show ?thesis by (simp only: append_butlast_last_id [OF assms(1)])
qed

lemma represents_record:
  assumes inv: "store_inv st" and rep: "represents tm st" and span: "tl_span tm = Some (f, l)"
    and s: "s = last (st_segments st)"
  shows "represents (timeline_record en l ms tm)
    (set_back (s\<lparr>ts_segment := fold (segment_apply en) ms (ts_segment s)\<rparr>) st)" (is "represents ?tm ?st")
proof -
  let ?w = "st_window st"
  from rep span obtain k where k: "l = f + k * ?w" "times st = lastn (retention st) (span f ?w k)"
    and stats: "\<And>s i. s \<in> set (st_segments st) \<Longrightarrow> stat_of (ts_segment s) i = tl_stat tm (ts_ts s) i"
    and zero: "\<And>t i. l < t \<Longrightarrow> tl_stat tm t i = 0"
    by (auto simp: represents_def)
  note L = last_times_represents [OF k(2)]
  have sl: "ts_ts s = l" using L k(1) s by (simp add: last_map)
  have "times ?st = times st" using L(2) s by (simp add: times_set_back)
  moreover have "stat_of (ts_segment x) i = tl_stat ?tm (ts_ts x) i" if "x \<in> set (st_segments ?st)" for x i
  proof (cases "x \<in> set (butlast (st_segments st))")
    case True
    then have "ts_ts x \<noteq> l" using butlast_times_below [OF store_invD(4,1) [OF inv] True] sl s by simp
    then show ?thesis using stats [OF in_set_butlastD [OF True]] by (simp add: timeline_record_def)
  next
    case False
    then have "x = s\<lparr>ts_segment := fold (segment_apply en) ms (ts_segment s)\<rparr>"
      using that by (simp add: set_back_def)
    then show ?thesis using stats [of s i] L(2) s sl
      by (simp add: seg_ledger.balance_fold timeline_record_def)
  qed
  moreover have "tl_stat ?tm t i = 0" if "l < t" for t i
    using zero [OF that] that by (simp add: timeline_record_def)
  moreover have "tl_span ?tm = Some (f, l)" "st_window ?st = ?w" "retention ?st = retention st"
    using span by (simp_all add: timeline_record_def set_back_def)
  ultimately show ?thesis using k by (auto simp: represents_def)
qed

lemma tl_span_advance: "\<exists>f. tl_span (timeline_advance b tm) = Some (f, tl_target b tm)"
  by (simp add: timeline_advance_def tl_target_def split: option.splits prod.splits)

text \<open>The update of the latest segment with the messages of a batch.\<close>

definition record_back :: "endian \<Rightarrow> SockMsgEvent list \<Rightarrow> Store \<Rightarrow> Store" where
  "record_back en ms st =
     (let s = last (st_segments st)
      in set_back (s\<lparr>ts_segment := fold (segment_apply en) ms (ts_segment s)\<rparr>) st)"

lemma store_update_eq:
  assumes inv: "store_inv st" and ts: "u64_range ts" and np: "\<And>m. m \<in> set ms \<Longrightarrow> msg_no_panic oc m"
  obtains b where "trunc ts (st_window st) = Inr b" "st_window st dvd b" "u64_range b"
    "store_batch_update en oc ts ms st = Some (Inr (record_back en ms (advance b st)))"
proof -
  obtain b where b: "trunc ts (st_window st) = Inr b" "write_segment ts st = Some (Inr (advance b st))"
    using write_segment_advance [OF inv ts] by blast
  have "st_window st dvd b" "u64_range b"
    using clk.bucket_dvd [OF store_invD(2) [OF inv] b(1)] trunc_u64 [OF b(1)] by auto
  moreover have "store_batch_update en oc ts ms st = Some (Inr (record_back en ms (advance b st)))"
    using np by (simp add: store_batch_update_def b write_deref_def deque_back_def segment_batch_no_panic
        record_back_def Let_def)
  ultimately show ?thesis using that b(1) by blast
qed

lemma store_inv_record_back:
  assumes inv: "store_inv st" and ne: "st_segments st \<noteq> []"
  shows "store_inv (record_back en ms st)"
proof -
  have "seg_inv (ts_segment (last (st_segments st)))" using store_invD(6) [OF inv] ne by simp
  then show ?thesis
    unfolding record_back_def Let_def using inv ne by (intro store_inv_set_back) (simp_all add: seg_inv_fold)
qed

lemma record_back_frame [simp]:
  "st_window (record_back en ms st) = st_window st" "st_capacity (record_back en ms st) = st_capacity st"
  by (simp_all add: record_back_def set_back_def Let_def)

lemma store_update_refines:
  assumes inv: "store_inv st" and ts: "u64_range ts" and rep: "represents tm st"
    and np: "\<And>m. m \<in> set ms \<Longrightarrow> msg_no_panic oc m"
  shows "\<exists>b st'. trunc ts (st_window st) = Inr b \<and> store_batch_update en oc ts ms st = Some (Inr st')
    \<and> store_inv st' \<and> represents (timeline_update en b ms tm) st'
    \<and> st_window st' = st_window st \<and> st_capacity st' = st_capacity st"
proof -
  obtain b where b: "trunc ts (st_window st) = Inr b" "st_window st dvd b" "u64_range b"
    "store_batch_update en oc ts ms st = Some (Inr (record_back en ms (advance b st)))"
    using store_update_eq [OF inv ts np] by blast
  let ?st = "record_back en ms (advance b st)"
  have inv': "store_inv (advance b st)" using inv b(2,3) by (rule store_inv_advance)
  then have "store_inv ?st" by (rule store_inv_record_back) simp
  moreover have "represents (timeline_update en b ms tm) ?st"
    using represents_record [OF inv' represents_advance [OF inv b(2) rep]] tl_span_advance [of b tm]
    by (auto simp: timeline_update_def record_back_def Let_def)
  ultimately show ?thesis using b(1,4) by auto
qed

section \<open>Runs of updates\<close>

text \<open>The updates the probes issue, one after the other.\<close>

type_synonym Update = "Timestamp \<times> SockMsgEvent list"

fun run_updates :: "endian \<Rightarrow> bool \<Rightarrow> Update list \<Rightarrow> Store \<Rightarrow> Store exec option" where
  "run_updates en oc [] st = Some (Inr st)"
| "run_updates en oc ((ts, ms) # us) st =
     (case store_batch_update en oc ts ms st of
        None \<Rightarrow> None
      | Some (Inl p) \<Rightarrow> Some (Inl p)
      | Some (Inr st') \<Rightarrow> run_updates en oc us st')"

definition update_ok :: "bool \<Rightarrow> Update \<Rightarrow> bool" where
  "update_ok oc u \<longleftrightarrow> u64_range (fst u) \<and> (\<forall>m \<in> set (snd u). msg_no_panic oc m)"

text \<open>The same run on the abstract store; \<open>start\<close> is the window a timestamp falls in.\<close>

definition start :: "nat \<Rightarrow> nat \<Rightarrow> nat" where
  "start w ts = ts - ts mod w"

fun timeline_run :: "endian \<Rightarrow> nat \<Rightarrow> Update list \<Rightarrow> Timeline \<Rightarrow> Timeline" where
  "timeline_run en w [] tm = tm"
| "timeline_run en w ((ts, ms) # us) tm = timeline_run en w us (timeline_update en (start w ts) ms tm)"

lemma timeline_run_append:
  "timeline_run en w (us @ vs) tm = timeline_run en w vs (timeline_run en w us tm)"
  by (induction en w us tm rule: timeline_run.induct) auto

text \<open>Every run of updates returns: it neither panics nor diverges, and the store it
  leaves is the abstract store cut to the capacity.\<close>

lemma run_updates_refines:
  assumes "store_inv st" "represents tm st" "\<And>u. u \<in> set us \<Longrightarrow> update_ok oc u"
  shows "\<exists>st'. run_updates en oc us st = Some (Inr st') \<and> store_inv st'
    \<and> represents (timeline_run en (st_window st) us tm) st'
    \<and> st_window st' = st_window st \<and> st_capacity st' = st_capacity st"
  using assms
proof (induction us arbitrary: st tm)
  case (Cons u us)
  obtain ts ms where u: "u = (ts, ms)" by (cases u)
  have ok: "u64_range ts" "\<And>m. m \<in> set ms \<Longrightarrow> msg_no_panic oc m"
    using Cons.prems(3) [of u] u by (simp_all add: update_ok_def)
  obtain b st' where 1: "trunc ts (st_window st) = Inr b" "store_batch_update en oc ts ms st = Some (Inr st')"
    "store_inv st'" "represents (timeline_update en b ms tm) st'"
    "st_window st' = st_window st" "st_capacity st' = st_capacity st"
    using store_update_refines [OF Cons.prems(1) ok(1) Cons.prems(2) ok(2)] by blast
  have "b = start (st_window st) ts"
    using trunc_eq [OF ok(1)] store_invD(1,2) [OF Cons.prems(1)] 1(1) by (simp add: start_def)
  with Cons.IH [OF 1(3,4)] Cons.prems(3) 1 u show ?case by auto
qed simp

lemma start_dvd: "w dvd start w t"
  by (simp add: start_def minus_mod_eq_mult_div)

text \<open>What the abstract store holds after a run: each message counts in the latest
  window reached by then.\<close>

fun run_target :: "nat \<Rightarrow> nat option \<Rightarrow> Update list \<Rightarrow> (nat \<times> SockMsgEvent list) list" where
  "run_target w l [] = []"
| "run_target w l ((ts, ms) # us) =
     (let t = (case l of None \<Rightarrow> start w ts | Some l \<Rightarrow> max l (start w ts))
      in (t, ms) # run_target w (Some t) us)"

lemma timeline_run_stat:
  "tl_stat (timeline_run en w us tm) t i = tl_stat tm t i
     + sum_list (map (\<lambda>(t', ms). if t' = t then sum_list (map (\<lambda>m. msg_weight en m i) ms) else 0)
         (run_target w (map_option snd (tl_span tm)) us))"
proof (induction us arbitrary: tm)
  case (Cons u us)
  obtain ts ms where u: "u = (ts, ms)" by (cases u)
  let ?tm = "timeline_update en (start w ts) ms tm"
  have "map_option snd (tl_span ?tm) = Some (tl_target (start w ts) tm)"
    using tl_span_advance [of "start w ts" tm] by (auto simp: timeline_update_def timeline_record_def)
  moreover have "tl_target (start w ts) tm =
      (case map_option snd (tl_span tm) of None \<Rightarrow> start w ts | Some l \<Rightarrow> max l (start w ts))"
    by (simp add: tl_target_def split: option.splits)
  ultimately show ?case
    using Cons.IH [of ?tm]
    by (simp add: u Let_def timeline_update_def timeline_record_def timeline_advance_def add.assoc)
qed simp

text \<open>Timestamps that never go back: every message is counted in its own window.\<close>

lemma run_target_sorted:
  assumes "sorted (map fst us)" "\<And>l' u. l = Some l' \<Longrightarrow> u \<in> set us \<Longrightarrow> l' \<le> start w (fst u)" "0 < w"
  shows "run_target w l us = map (\<lambda>(ts, ms). (start w ts, ms)) us"
  using assms
proof (induction us arbitrary: l)
  case (Cons u us)
  obtain ts ms where u: "u = (ts, ms)" by (cases u)
  have mono: "start w ts \<le> start w ts'" if "ts \<le> ts'" for ts'
    using div_le_mono [OF that, of w] by (simp add: start_def minus_mod_eq_mult_div)
  have "(case l of None \<Rightarrow> start w ts | Some l \<Rightarrow> max l (start w ts)) = start w ts"
    using Cons.prems(2) [of _ u] u by (auto simp: max_def split: option.splits)
  moreover have "run_target w (Some (start w ts)) us = map (\<lambda>(ts, ms). (start w ts, ms)) us"
    using Cons.prems u mono by (intro Cons.IH) auto
  ultimately show ?case by (simp add: u)
qed simp

lemma advance_reaches:
  assumes inv: "store_inv st" and b: "st_window st dvd b"
  shows "b \<le> ts_ts (last (st_segments (advance b st)))"
proof (cases "st_segments st = []")
  case False
  let ?w = "st_window st" and ?l = "ts_ts (last (st_segments st))"
  define k where "k = (b - ?l) div ?w"
  have dl: "?w dvd ?l" and w: "0 < ?w"
    using store_invD(1,5) [OF inv] last_time_mem [OF False] by auto
  have seg: "st_segments (advance b st) = lastn (retention st) (st_segments st @ map new_segment (after ?l ?w k))"
    using False by (simp add: advance_def Let_def k_def)
  have "ts_ts (last (st_segments (advance b st))) = ?l + k * ?w"
  proof (cases "k = 0")
    case True
    then show ?thesis using False by (simp add: seg)
  next
    case nz: False
    then have "last (after ?l ?w k) = ?l + k * ?w" "after ?l ?w k \<noteq> []"
      by (cases k; simp add: after_def)+
    then show ?thesis by (simp add: seg last_map)
  qed
  moreover have "?w dvd b - ?l" using b dl by (simp add: dvd_diff_nat)
  then have "k * ?w = b - ?l" by (simp add: k_def)
  ultimately show ?thesis by simp
qed (simp add: advance_def)

section \<open>The unit tests\<close>

definition create_messages :: "SockMsgEvent list" where
  "create_messages =
     [\<lparr>msg_sock_type = Stream, msg_local_addr = IpAddr_v4 33, msg_remote_addr = IpAddr_v4 32,
       msg_local_port = 31, msg_remote_port = 80, msg_ret = 10, msg_pid = 1, msg_channel = Tx\<rparr>]"

definition create_updates :: "Update list" where
  "create_updates =
     map (\<lambda>ms. (from_millis ms, create_messages)) [10, 20, 100, 101, 401]"

section \<open>Properties\<close>

text \<open>C5. A store refines the abstract time series: every sequence of updates in range returns
  (no panic, no divergence), and the store it leaves holds the last windows of the series, as
  many as the capacity allows, with their statistics.\<close>

theorem store_refines_timeline:
  assumes "0 < w" "u64_range w" "\<And>u. u \<in> set us \<Longrightarrow> update_ok oc u"
  shows "\<exists>st. run_updates en oc us (Store_new w cap) = Some (Inr st) \<and> store_inv st
    \<and> represents (timeline_run en w us Timeline_empty) st"
proof -
  have "st_window (Store_new w cap) = w" by (simp add: Store_new_def)
  then show ?thesis
    using run_updates_refines [OF Store_new_inv [OF assms(1,2), of cap] represents_empty assms(3), where en = en] by auto
qed

lemma create_updates_ok: "u \<in> set create_updates \<Longrightarrow> update_ok oc u"
  by (auto simp: create_updates_def update_ok_def from_millis_def create_messages_def msg_no_panic_def)

theorem store_refines_timeline_witness:
  "\<exists>st. run_updates Little True create_updates (Store_new (from_millis 100) 16) = Some (Inr st) \<and> store_inv st
    \<and> represents (timeline_run Little (from_millis 100) create_updates Timeline_empty) st"
  by (rule store_refines_timeline) (auto simp: from_millis_def create_updates_ok)



text \<open>C28. The memory of a store is bounded: after any run of updates it holds at most
  \<open>capacity\<close> segments (one, for a capacity of zero), at consecutive multiples of the window.\<close>

theorem store_bounded:
  assumes "0 < w" "u64_range w" "\<And>u. u \<in> set us \<Longrightarrow> update_ok oc u"
    and "run_updates en oc us (Store_new w cap) = Some (Inr st)"
  shows "length (st_segments st) \<le> max 1 cap \<and> spaced w (times st) \<and> (\<forall>t \<in> set (times st). w dvd t)"
proof -
  obtain st' where "run_updates en oc us (Store_new w cap) = Some (Inr st')" "store_inv st'"
    "st_window st' = w" "st_capacity st' = cap"
    using run_updates_refines [OF Store_new_inv [OF assms(1,2), of cap] represents_empty assms(3), where en = en]
    by (auto simp: Store_new_def)
  then show ?thesis using assms(4) store_invD(3,4,5) [of st'] by auto
qed

theorem store_bounded_witness:
  "\<exists>st. run_updates Little True create_updates (Store_new (from_millis 100) 2) = Some (Inr st)
     \<and> length (st_segments st) \<le> 2"
proof -
  have w: "0 < from_millis 100" "u64_range (from_millis 100)" by (simp_all add: from_millis_def)
  obtain st where "run_updates Little True create_updates (Store_new (from_millis 100) 2) = Some (Inr st)"
    using run_updates_refines [OF Store_new_inv [OF w, of 2] represents_empty, where us = create_updates]
      create_updates_ok by blast
  then show ?thesis using store_bounded [OF w create_updates_ok] by fastforce
qed

text \<open>A store with a window of zero is unusable: every update panics with a division by
  zero, whatever the build.\<close>

lemma zero_window_panics:
  "store_batch_update en oc ts ms (Store_new 0 cap) = Some (Inl DivideByZero)"
  by (simp add: store_batch_update_def write_segment_def Store_new_def trunc_zero_window)

end
