(* ===== verification/Store_Locks.thy ===== *)
theory Store_Locks
  imports Store_Window
begin

text \<open>
  \<^verbatim>\<open>ptraf/src/store.rs\<close>, concurrency: the tasks of the probes (one per CPU) call
  \<^verbatim>\<open>Store::batch_update\<close> while the user interface holds \<^verbatim>\<open>Store::segments_view\<close>, all on
  one store behind a \<^verbatim>\<open>RwLock\<close>. A task is a program counter; a step is an acquisition or
  release of the lock, one round of the creating loop, or one atomic operation on the
  concurrent set or map of the segment a task writes to. Reads of the lock succeed when no
  writer holds it, writes when nobody holds it.

  \<open>sy_log\<close> is a ghost: the operations performed so far with the window they went to.
\<close>

section \<open>Tasks and the shared state\<close>

datatype seg_op = InsertSock Socket | AddEntry Interest Channel u64

datatype pc =
    Idle
  | Trying Timestamp "SockMsgEvent list"
  | Checking Timestamp "SockMsgEvent list"
  | Upgrading Timestamp "SockMsgEvent list"
  | Creating Timestamp "SockMsgEvent list"
  | Rereading Timestamp "SockMsgEvent list"
  | Recording Timestamp "seg_op list" "SockMsgEvent list"
  | Viewing
  | Panicked

type_synonym tid = nat

record Sys =
  sy_store :: Store
  sy_writer :: "tid option"
  sy_readers :: "tid set"
  sy_pc :: "tid \<Rightarrow> pc"
  sy_log :: "(Timestamp \<times> seg_op) list"

definition Sys_init :: "Store \<Rightarrow> Sys" where
  "Sys_init st = \<lparr>sy_store = st, sy_writer = None, sy_readers = {}, sy_pc = (\<lambda>_. Idle), sy_log = []\<rparr>"

definition goto :: "tid \<Rightarrow> pc \<Rightarrow> Sys \<Rightarrow> Sys" where
  "goto t p s = s\<lparr>sy_pc := (sy_pc s)(t := p)\<rparr>"

definition lock_read :: "tid \<Rightarrow> Sys \<Rightarrow> Sys" where
  "lock_read t s = s\<lparr>sy_readers := insert t (sy_readers s)\<rparr>"

definition unlock_read :: "tid \<Rightarrow> Sys \<Rightarrow> Sys" where
  "unlock_read t s = s\<lparr>sy_readers := sy_readers s - {t}\<rparr>"

definition set_segments :: "TimeSegment list \<Rightarrow> Sys \<Rightarrow> Sys" where
  "set_segments q s = s\<lparr>sy_store := (sy_store s)\<lparr>st_segments := q\<rparr>\<rparr>"

abbreviation segs :: "Sys \<Rightarrow> TimeSegment list" where
  "segs s \<equiv> st_segments (sy_store s)"

section \<open>Operations of a batch on its segment\<close>

definition seg_op_apply :: "seg_op \<Rightarrow> Segment \<Rightarrow> Segment" where
  "seg_op_apply op seg =
     (case op of
        InsertSock k \<Rightarrow> seg\<lparr>seg_socks := socks_insert k (seg_socks seg)\<rparr>
      | AddEntry i ch len \<Rightarrow> seg\<lparr>seg_index := index_entry ch len i (seg_index seg)\<rparr>)"

definition msg_ops :: "endian \<Rightarrow> SockMsgEvent \<Rightarrow> u64 \<Rightarrow> seg_op list" where
  "msg_ops en msg len =
     InsertSock (Socket_from_msg en msg)
       # map (\<lambda>i. AddEntry i (msg_channel msg) len) (interests_from_msg en msg)"

definition record_op :: "seg_op \<Rightarrow> Sys \<Rightarrow> Sys exec" where
  "record_op op s =
     rmap (\<lambda>x. s\<lparr>sy_store := set_back (x\<lparr>ts_segment := seg_op_apply op (ts_segment x)\<rparr>) (sy_store s),
                sy_log := sy_log s @ [(ts_ts x, op)]\<rparr>)
       (write_deref (sy_store s))"

text \<open>The operations of a message are the sequential update of a segment.\<close>

lemma fold_entries:
  "fold seg_op_apply (map (\<lambda>i. AddEntry i ch len) is) seg =
   seg\<lparr>seg_index := fold (index_entry ch len) is (seg_index seg)\<rparr>"
  by (induction "is" arbitrary: seg) (simp_all add: seg_op_apply_def)

lemma fold_msg_ops: "fold seg_op_apply (msg_ops en msg len) seg = segment_record en msg len seg"
  by (simp add: msg_ops_def fold_entries segment_record_def) (simp add: seg_op_apply_def)

section \<open>Steps\<close>

inductive lstep :: "endian \<Rightarrow> bool \<Rightarrow> tid \<Rightarrow> Sys \<Rightarrow> Sys \<Rightarrow> bool" for en oc t where
  begin_update: "sy_pc s t = Idle \<Longrightarrow> update_ok oc (ts, ms) \<Longrightarrow> trunc ts (st_window (sy_store s)) = Inr b
    \<Longrightarrow> lstep en oc t s (goto t (Trying b ms) s)"
| begin_panic: "sy_pc s t = Idle \<Longrightarrow> update_ok oc (ts, ms) \<Longrightarrow> trunc ts (st_window (sy_store s)) = Inl p
    \<Longrightarrow> lstep en oc t s (goto t Panicked s)"
| acquire_read: "sy_pc s t = Trying b ms \<Longrightarrow> sy_writer s = None
    \<Longrightarrow> lstep en oc t s (goto t (Checking b ms) (lock_read t s))"
| fast_path: "sy_pc s t = Checking b ms \<Longrightarrow> is_current b (segs s)
    \<Longrightarrow> lstep en oc t s (goto t (Recording b [] ms) s)"
| slow_path: "sy_pc s t = Checking b ms \<Longrightarrow> \<not> is_current b (segs s)
    \<Longrightarrow> lstep en oc t s (goto t (Upgrading b ms) (unlock_read t s))"
| acquire_write: "sy_pc s t = Upgrading b ms \<Longrightarrow> sy_writer s = None \<Longrightarrow> sy_readers s = {}
    \<Longrightarrow> lstep en oc t s (goto t (Creating b ms) (s\<lparr>sy_writer := Some t\<rparr>))"
| create: "sy_pc s t = Creating b ms
    \<Longrightarrow> next_segment_ts (st_window (sy_store s)) b (segs s) = Inr (Some u)
    \<Longrightarrow> lstep en oc t s (set_segments (push_segment (st_capacity (sy_store s)) u (segs s)) s)"
| create_panic: "sy_pc s t = Creating b ms
    \<Longrightarrow> next_segment_ts (st_window (sy_store s)) b (segs s) = Inl p
    \<Longrightarrow> lstep en oc t s (goto t Panicked s)"
| drop_write: "sy_pc s t = Creating b ms
    \<Longrightarrow> next_segment_ts (st_window (sy_store s)) b (segs s) = Inr None
    \<Longrightarrow> lstep en oc t s (goto t (Rereading b ms) (s\<lparr>sy_writer := None\<rparr>))"
| reacquire: "sy_pc s t = Rereading b ms \<Longrightarrow> sy_writer s = None
    \<Longrightarrow> lstep en oc t s (goto t (Recording b [] ms) (lock_read t s))"
| next_message: "sy_pc s t = Recording b [] (m # ms) \<Longrightarrow> packet_size oc m = Inr (Inr len)
    \<Longrightarrow> lstep en oc t s (goto t (Recording b (msg_ops en m (ucast len)) ms) s)"
| skip_message: "sy_pc s t = Recording b [] (m # ms) \<Longrightarrow> packet_size oc m = Inr (Inl errno)
    \<Longrightarrow> lstep en oc t s (goto t (Recording b [] ms) s)"
| message_panic: "sy_pc s t = Recording b [] (m # ms) \<Longrightarrow> packet_size oc m = Inl p
    \<Longrightarrow> lstep en oc t s (goto t Panicked s)"
| perform: "sy_pc s t = Recording b (op # ops) ms \<Longrightarrow> record_op op s = Inr s'
    \<Longrightarrow> lstep en oc t s (goto t (Recording b ops ms) s')"
| deref_panic: "sy_pc s t = Recording b (op # ops) ms \<Longrightarrow> record_op op s = Inl p
    \<Longrightarrow> lstep en oc t s (goto t Panicked s)"
| end_update: "sy_pc s t = Recording b [] []
    \<Longrightarrow> lstep en oc t s (goto t Idle (unlock_read t s))"
| open_view: "sy_pc s t = Idle \<Longrightarrow> sy_writer s = None
    \<Longrightarrow> lstep en oc t s (goto t Viewing (lock_read t s))"
| close_view: "sy_pc s t = Viewing
    \<Longrightarrow> lstep en oc t s (goto t Idle (unlock_read t s))"

inductive_cases lstepE: "lstep en oc t s s'"

inductive reach :: "endian \<Rightarrow> bool \<Rightarrow> Sys \<Rightarrow> Sys \<Rightarrow> bool" for en oc s0 where
  reach_init: "reach en oc s0 s0"
| reach_step: "reach en oc s0 s \<Longrightarrow> lstep en oc t s s' \<Longrightarrow> reach en oc s0 s'"

section \<open>Invariant\<close>

definition reading :: "pc \<Rightarrow> bool" where
  "reading p = (case p of Checking b ms \<Rightarrow> True | Recording b ops ms \<Rightarrow> True | Viewing \<Rightarrow> True | _ \<Rightarrow> False)"

definition writing :: "pc \<Rightarrow> bool" where
  "writing p = (case p of Creating b ms \<Rightarrow> True | _ \<Rightarrow> False)"

definition lock_inv :: "Sys \<Rightarrow> bool" where
  "lock_inv s \<longleftrightarrow> sy_readers s = {t. reading (sy_pc s t)}
     \<and> (\<forall>t. sy_writer s = Some t \<longleftrightarrow> writing (sy_pc s t))
     \<and> (sy_writer s \<noteq> None \<longrightarrow> sy_readers s = {})"

text \<open>The shape of the deque, without the segments' own invariant, which holds between
  messages only.\<close>

definition store_shape :: "Store \<Rightarrow> bool" where
  "store_shape st \<longleftrightarrow>
     0 < st_window st \<and> u64_range (st_window st)
   \<and> length (st_segments st) \<le> retention st
   \<and> spaced (st_window st) (times st)
   \<and> (\<forall>t \<in> set (times st). st_window st dvd t \<and> u64_range t)"

definition reached :: "Timestamp \<Rightarrow> TimeSegment list \<Rightarrow> bool" where
  "reached b q \<longleftrightarrow> q \<noteq> [] \<and> b \<le> ts_ts (last q)"

text \<open>What a task knows: the window it asked for, and, once it may write, that the deque
  has reached that window.\<close>

definition task_inv :: "bool \<Rightarrow> Store \<Rightarrow> pc \<Rightarrow> bool" where
  "task_inv oc st p =
     (case p of
        Idle \<Rightarrow> True
      | Viewing \<Rightarrow> True
      | Panicked \<Rightarrow> False
      | Trying b ms \<Rightarrow> st_window st dvd b \<and> update_ok oc (b, ms)
      | Checking b ms \<Rightarrow> st_window st dvd b \<and> update_ok oc (b, ms)
      | Upgrading b ms \<Rightarrow> st_window st dvd b \<and> update_ok oc (b, ms)
      | Creating b ms \<Rightarrow> st_window st dvd b \<and> update_ok oc (b, ms)
      | Rereading b ms \<Rightarrow> update_ok oc (b, ms) \<and> reached b (st_segments st)
      | Recording b ops ms \<Rightarrow> update_ok oc (b, ms) \<and> reached b (st_segments st))"

definition log_weight :: "Timestamp \<Rightarrow> Interest \<Rightarrow> Timestamp \<times> seg_op \<Rightarrow> Stat" where
  "log_weight t i e =
     (case e of (u, AddEntry j ch len) \<Rightarrow> if u = t then entry_weight (j, ch, len) i else 0 | _ \<Rightarrow> 0)"

definition log_inv :: "Sys \<Rightarrow> bool" where
  "log_inv s \<longleftrightarrow>
     (\<forall>x \<in> set (segs s). \<forall>i. stat_of (ts_segment x) i
        = sum_list (map (log_weight (ts_ts x) i) (sy_log s)))
   \<and> (\<forall>e \<in> set (sy_log s). reached (fst e) (segs s))"

definition sys_inv :: "bool \<Rightarrow> Sys \<Rightarrow> bool" where
  "sys_inv oc s \<longleftrightarrow> lock_inv s \<and> store_shape (sy_store s)
     \<and> (\<forall>t. task_inv oc (sy_store s) (sy_pc s t)) \<and> log_inv s"

lemmas sys_defs = goto_def lock_read_def unlock_read_def set_segments_def

lemma lstep_other: "lstep en oc t s s' \<Longrightarrow> t' \<noteq> t \<Longrightarrow> sy_pc s' t' = sy_pc s t'"
  by (induction rule: lstep.induct) (auto simp: sys_defs record_op_def exec_elims)

section \<open>Nothing panics\<close>

lemma shape_no_trunc_panic:
  "store_shape st \<Longrightarrow> update_ok oc (ts, ms) \<Longrightarrow> trunc ts (st_window st) \<noteq> Inl p"
  using clk.bucket_total [of ts "st_window st"] by (force simp: store_shape_def update_ok_def)

lemma shape_no_add_panic:
  "store_shape st \<Longrightarrow> u64_range b \<Longrightarrow> next_segment_ts (st_window st) b (st_segments st) \<noteq> Inl p"
proof
  assume st: "store_shape st" and b: "u64_range b"
    and "next_segment_ts (st_window st) b (st_segments st) = Inl p"
  then obtain l where "l < b" "duration_limit \<le> l + st_window st"
    by (auto simp: next_segment_ts_def deque_back_def Timestamp_add_def not_le not_less split: if_splits)
  moreover have "u64_range (st_window st)" using st by (simp add: store_shape_def)
  ultimately show False using b by (simp add: duration_limit_def)
qed

lemma packet_size_no_panic: "msg_no_panic oc m \<Longrightarrow> packet_size oc m \<noteq> Inl p"
  by (auto simp: packet_size_def neg_i32_def msg_no_panic_def split: if_splits)

lemma reached_deref: "reached b (segs s) \<Longrightarrow> write_deref (sy_store s) = Inr (last (segs s))"
  by (simp add: reached_def write_deref_def deque_back_def)

lemma reached_record_op: "reached b (segs s) \<Longrightarrow> record_op op s \<noteq> Inl p"
  by (simp add: record_op_def reached_deref)

section \<open>Every step keeps the invariant\<close>

lemma sys_invD:
  assumes "sys_inv oc s"
  shows "lock_inv s" "store_shape (sy_store s)" "task_inv oc (sy_store s) (sy_pc s t)" "log_inv s"
  using assms by (simp_all add: sys_inv_def)

lemma sys_inv_goto [inv_intros]:
  assumes "sys_inv oc s" "task_inv oc (sy_store s) p"
    "reading p = reading (sy_pc s t)" "writing p = writing (sy_pc s t)"
  shows "sys_inv oc (goto t p s)"
  using assms by (auto simp: sys_inv_def goto_def lock_inv_def log_inv_def)

lemma sys_inv_lock_read [inv_intros]:
  assumes "sys_inv oc s" "task_inv oc (sy_store s) p" "reading p" "\<not> writing p"
    "\<not> writing (sy_pc s t)" "sy_writer s = None"
  shows "sys_inv oc (goto t p (lock_read t s))"
  using assms by (auto simp: sys_inv_def goto_def lock_read_def lock_inv_def log_inv_def)

lemma sys_inv_unlock_read [inv_intros]:
  assumes "sys_inv oc s" "task_inv oc (sy_store s) p" "\<not> reading p" "\<not> writing p" "reading (sy_pc s t)"
    "\<not> writing (sy_pc s t)"
  shows "sys_inv oc (goto t p (unlock_read t s))"
  using assms by (auto simp: sys_inv_def goto_def unlock_read_def lock_inv_def log_inv_def)

lemma sys_inv_acquire_write [inv_intros]:
  assumes "sys_inv oc s" "sy_pc s t = Upgrading b ms" "sy_writer s = None" "sy_readers s = {}"
  shows "sys_inv oc (goto t (Creating b ms) (s\<lparr>sy_writer := Some t\<rparr>))"
proof -
  have "task_inv oc (sy_store s) (Creating b ms)"
    using sys_invD(3) [OF assms(1), of t] assms(2) by (simp add: task_inv_def)
  then show ?thesis
    using assms by (auto simp: sys_inv_def goto_def lock_inv_def log_inv_def reading_def writing_def
        split: pc.splits)
qed

lemma next_None_reached:
  "next_segment_ts w b q = Inr None \<Longrightarrow> reached b q"
  by (auto simp: next_segment_ts_def reached_def deque_back_def Timestamp_add_def
      split: if_splits)

lemma sys_inv_drop_write [inv_intros]:
  assumes "sys_inv oc s" "sy_pc s t = Creating b ms"
    "next_segment_ts (st_window (sy_store s)) b (segs s) = Inr None"
  shows "sys_inv oc (goto t (Rereading b ms) (s\<lparr>sy_writer := None\<rparr>))"
proof -
  have "task_inv oc (sy_store s) (Rereading b ms)"
    using sys_invD(3) [OF assms(1), of t] assms(2) next_None_reached [OF assms(3)]
    by (simp add: task_inv_def)
  moreover have "sy_writer s = Some t"
    using assms by (simp add: sys_inv_def lock_inv_def writing_def)
  ultimately show ?thesis
    using assms by (auto simp: sys_inv_def goto_def lock_inv_def log_inv_def reading_def writing_def)
qed

lemma shape_frame:
  assumes "st_window st' = st_window st" "st_capacity st' = st_capacity st" "times st' = times st"
  shows "store_shape st' = store_shape st"
proof -
  have "length (st_segments st') = length (st_segments st)"
    using arg_cong [OF assms(3), of length] by simp
  then show ?thesis using assms by (simp add: store_shape_def flip: set_map)
qed

lemma next_SomeD:
  assumes "next_segment_ts w b q = Inr (Some u)"
  shows "q = [] \<and> u = b \<or> q \<noteq> [] \<and> ts_ts (last q) < b \<and> u = ts_ts (last q) + w"
  using assms by (auto simp: next_segment_ts_def deque_back_def Timestamp_add_def exec_elims split: if_splits)

lemma shape_push:
  assumes st: "store_shape st" and b: "st_window st dvd b" "u64_range b"
    and u: "next_segment_ts (st_window st) b (st_segments st) = Inr (Some u)"
  shows "store_shape (st\<lparr>st_segments := push_segment (st_capacity st) u (st_segments st)\<rparr>)"
proof -
  let ?q = "st_segments st" and ?w = "st_window st"
  let ?q' = "push_segment (st_capacity st) u ?q"
  have q': "?q' = lastn (retention st) (?q @ [new_segment u])"
    using st by (intro push_segment_lastn) (simp add: store_shape_def)
  have t': "map ts_ts ?q' = lastn (retention st) (times st @ [u])"
    by (simp add: q' lastn_map)
  have sp: "spaced ?w (times st @ [u])"
  proof (cases "?q = []")
    case False
    then have "times st @ [u] = times st @ after (last (times st)) ?w 1"
      using next_SomeD [OF u] by (simp add: after_Suc last_map)
    then show ?thesis using st False by (simp add: store_shape_def spaced_append_after del: One_nat_def)
  qed simp
  have u': "?w dvd u \<and> u64_range u"
  proof (cases "?q = []")
    case True
    then show ?thesis using next_SomeD [OF u] b by simp
  next
    case False
    then have "?w dvd ts_ts (last ?q)" using st by (simp add: store_shape_def)
    then show ?thesis using dvd_gap [of ?w b "ts_ts (last ?q)"] next_SomeD [OF u] b False by simp
  qed
  have "?w dvd x \<and> u64_range x" if "x \<in> set (map ts_ts ?q')" for x
    using that set_lastn_subset [of "retention st" "times st @ [u]"] u' st
    unfolding t' by (auto simp: store_shape_def)
  moreover have "spaced ?w (map ts_ts ?q')"
    unfolding t' lastn_def using sp by (rule spaced_drop)
  moreover have "length ?q' \<le> retention st" by (simp add: q')
  ultimately show ?thesis using st by (simp add: store_shape_def)
qed

lemma reached_push:
  assumes "next_segment_ts w b q = Inr (Some u)" "reached c q"
  shows "reached c (push_segment cap u q)"
  using assms(2) next_SomeD [OF assms(1)] by (auto simp: reached_def)

lemma log_unreached_zero:
  assumes "\<forall>e \<in> set lg. reached (fst e) q" "q = [] \<or> ts_ts (last q) < t"
  shows "sum_list (map (log_weight t i) lg) = 0"
  using assms by (induction lg) (auto simp: log_weight_def reached_def split: seg_op.splits)

lemma log_inv_push:
  assumes "log_inv s" "next_segment_ts (st_window (sy_store s)) b (segs s) = Inr (Some u)"
    "0 < st_window (sy_store s)"
  shows "log_inv (set_segments (push_segment cap u (segs s)) s)" (is "log_inv ?s")
proof -
  let ?q = "push_segment cap u (segs s)"
  have new: "?q \<noteq> [] \<and> (segs s = [] \<or> ts_ts (last (segs s)) < u)"
    using next_SomeD [OF assms(2)] assms(3) by auto
  have "stat_of (ts_segment x) i = sum_list (map (log_weight (ts_ts x) i) (sy_log s))"
    if "x \<in> set ?q" for x i
  proof -
    from that consider "x \<in> set (segs s)" | "x = new_segment u"
      by (auto simp: push_segment_def split: if_splits dest: in_set_dropD)
    then show ?thesis
    proof cases
      case 1
      then show ?thesis using assms(1) by (simp add: log_inv_def)
    next
      case 2
      have "sum_list (map (log_weight u i) (sy_log s)) = 0"
        using assms(1) new by (intro log_unreached_zero [of _ "segs s"]) (auto simp: log_inv_def)
      then show ?thesis using 2 by simp
    qed
  qed
  moreover have "reached (fst e) ?q" if "e \<in> set (sy_log s)" for e
    using that assms(1) reached_push [OF assms(2)] by (simp add: log_inv_def)
  ultimately show ?thesis by (simp add: log_inv_def set_segments_def)
qed

lemma task_inv_push:
  assumes "task_inv oc st p" "next_segment_ts (st_window st) b (st_segments st) = Inr (Some u)"
  shows "task_inv oc (st\<lparr>st_segments := push_segment cap u (st_segments st)\<rparr>) p"
  using assms(1) reached_push [OF assms(2)] by (auto simp: task_inv_def split: pc.splits)

lemma lock_inv_frame:
  "sy_writer s' = sy_writer s \<Longrightarrow> sy_readers s' = sy_readers s \<Longrightarrow> sy_pc s' = sy_pc s \<Longrightarrow> lock_inv s' = lock_inv s"
  by (simp add: lock_inv_def)

lemma sys_inv_create [inv_intros]:
  assumes "sys_inv oc s" "sy_pc s t = Creating b ms"
    and u: "next_segment_ts (st_window (sy_store s)) b (segs s) = Inr (Some u)"
  shows "sys_inv oc (set_segments (push_segment (st_capacity (sy_store s)) u (segs s)) s)"
proof -
  note D = sys_invD [OF assms(1)]
  have b: "st_window (sy_store s) dvd b" "u64_range b"
    using D(3) [of t] assms(2) by (simp_all add: task_inv_def update_ok_def)
  have "0 < st_window (sy_store s)" using D(2) by (simp add: store_shape_def)
  moreover have "lock_inv (set_segments (push_segment (st_capacity (sy_store s)) u (segs s)) s)"
    using D(1) by (subst lock_inv_frame [of _ s]) (simp_all add: set_segments_def)
  ultimately show ?thesis
    unfolding sys_inv_def using shape_push [OF D(2) b u] task_inv_push [OF D(3) u] log_inv_push [OF D(4) u]
    by (simp add: set_segments_def)
qed

lemma stat_of_seg_op: "stat_of (seg_op_apply op seg) i = stat_of seg i + log_weight t i (t, op)"
proof (cases op)
  case (AddEntry j ch len)
  then show ?thesis
    using entry_ledger.balance_post [of "(j, ch, len)" "seg_index seg" i]
    by (simp add: seg_op_apply_def stat_of_index log_weight_def entry_post_def)
qed (simp add: seg_op_apply_def stat_of_index log_weight_def)

text \<open>A reader's operation: it changes the contents of the last segment and nothing of
  the deque's shape.\<close>

lemma record_opD:
  assumes "record_op op s = Inr s'" "reached b (segs s)"
  shows "sy_store s' = set_back ((last (segs s))\<lparr>ts_segment := seg_op_apply op (ts_segment (last (segs s)))\<rparr>) (sy_store s)"
    "sy_log s' = sy_log s @ [(ts_ts (last (segs s)), op)]"
    "sy_writer s' = sy_writer s" "sy_readers s' = sy_readers s" "sy_pc s' = sy_pc s"
    "map ts_ts (segs s') = map ts_ts (segs s)"
    "reached c (segs s') = reached c (segs s)"
proof -
  have ne: "segs s \<noteq> []" using assms(2) by (simp add: reached_def)
  show st: "sy_store s' = set_back ((last (segs s))\<lparr>ts_segment := seg_op_apply op (ts_segment (last (segs s)))\<rparr>) (sy_store s)"
    and "sy_log s' = sy_log s @ [(ts_ts (last (segs s)), op)]"
      "sy_writer s' = sy_writer s" "sy_readers s' = sy_readers s" "sy_pc s' = sy_pc s"
    using assms by (auto simp: record_op_def reached_deref)
  show "map ts_ts (segs s') = map ts_ts (segs s)"
    unfolding st using ne by (rule times_set_back) simp
  show "reached c (segs s') = reached c (segs s)"
    unfolding st using ne by (simp add: reached_def set_back_def)
qed

lemma set_back_mem:
  "x \<in> set (st_segments (set_back y st)) \<longleftrightarrow> x \<in> set (butlast (st_segments st)) \<or> x = y"
  by (auto simp: set_back_def)

lemma log_inv_record:
  assumes "log_inv s" "store_shape (sy_store s)" "record_op op s = Inr s'" "reached b (segs s)"
  shows "log_inv s'"
proof -
  note R = record_opD [OF assms(3,4)]
  let ?l = "last (segs s)"
  have ne: "segs s \<noteq> []" using assms(4) by (simp add: reached_def)
  have "stat_of (ts_segment x) i = sum_list (map (log_weight (ts_ts x) i) (sy_log s'))"
    if "x \<in> set (segs s')" for x i
  proof (cases "x \<in> set (butlast (segs s))")
    case True
    then have "ts_ts x \<noteq> ts_ts ?l"
      using assms(2) butlast_times_below [OF _ _ True] by (auto simp: store_shape_def)
    then have "log_weight (ts_ts x) i (ts_ts ?l, op) = 0"
      by (simp add: log_weight_def split: seg_op.splits)
    then show ?thesis
      using assms(1) in_set_butlastD [OF True] R(2) by (simp add: log_inv_def)
  next
    case False
    then have "x = ?l\<lparr>ts_segment := seg_op_apply op (ts_segment ?l)\<rparr>"
      using that R(1) by (simp add: set_back_mem)
    then show ?thesis
      using assms(1) ne R(2) stat_of_seg_op [of op "ts_segment ?l" i "ts_ts ?l"] by (simp add: log_inv_def)
  qed
  moreover have "reached (fst e) (segs s')" if "e \<in> set (sy_log s')" for e
    using that assms(1) ne R(2,7) by (auto simp: log_inv_def reached_def)
  ultimately show ?thesis by (simp add: log_inv_def)
qed

lemma sys_inv_record:
  assumes "sys_inv oc s" "record_op op s = Inr s'" "reached b (segs s)"
  shows "sys_inv oc s'"
proof -
  note D = sys_invD [OF assms(1)] and R = record_opD [OF assms(2,3)]
  have "store_shape (sy_store s')"
    using shape_frame [OF _ _ R(6)] D(2) by (simp add: R(1) set_back_def)
  moreover have "task_inv oc (sy_store s') (sy_pc s' t)" for t
    using D(3) [of t] R(5,7) unfolding task_inv_def by (simp add: R(1) set_back_def split: pc.splits)
  moreover have "lock_inv s'" using D(1) lock_inv_frame [OF R(3-5)] by blast
  ultimately show ?thesis
    using log_inv_record [OF D(4,2) assms(2,3)] by (simp add: sys_inv_def)
qed

lemmas pc_defs = task_inv_def reading_def writing_def update_ok_def

lemma sys_inv_step [inv_intros]:
  assumes inv: "sys_inv oc s" and "lstep en oc t s s'"
  shows "sys_inv oc s'"
proof -
  note D = sys_invD [OF inv]
  note T = D(3) [of t]
  from assms(2) show ?thesis
  proof cases
    case (begin_update ts ms b)
    have "0 < st_window (sy_store s)" "u64_range (st_window (sy_store s))"
      using D(2) by (simp_all add: store_shape_def)
    then have "st_window (sy_store s) dvd b" "u64_range b"
      using begin_update clk.bucket_dvd trunc_u64 by blast+
    then show ?thesis using begin_update inv by (simp add: sys_inv_goto pc_defs)
  next
    case (begin_panic ts ms p)
    then show ?thesis using shape_no_trunc_panic [OF D(2)] by blast
  next
    case (create_panic b ms p)
    then show ?thesis using shape_no_add_panic [OF D(2)] T by (simp add: pc_defs)
  next
    case (fast_path b ms)
    then have "reached b (segs s)"
      by (simp add: is_current_def reached_def deque_back_def split: if_splits)
    then show ?thesis using fast_path inv T by (simp add: sys_inv_goto pc_defs)
  next
    case (message_panic b m ms p)
    then show ?thesis using packet_size_no_panic T by (fastforce simp: pc_defs)
  next
    case (deref_panic b op ops ms p)
    then show ?thesis using reached_record_op [of b s op p] T by (simp add: pc_defs)
  next
    case (perform b op ops ms s'')
    then have r: "reached b (segs s)" using T by (simp add: pc_defs)
    note R = record_opD [OF perform(3) r]
    have "sys_inv oc s''" using inv perform(3) r by (rule sys_inv_record)
    then show ?thesis using perform T R(5,7) by (simp add: sys_inv_goto pc_defs)
  qed (use inv T in \<open>simp_all add: inv_intros pc_defs\<close>)
qed

lemma sys_inv_reach: "reach en oc s0 s \<Longrightarrow> sys_inv oc s0 \<Longrightarrow> sys_inv oc s"
  by (induction rule: reach.induct) (simp_all add: sys_inv_step)

lemma sys_inv_init: "0 < w \<Longrightarrow> u64_range w \<Longrightarrow> sys_inv oc (Sys_init (Store_new w cap))"
  by (simp add: sys_inv_def Sys_init_def lock_inv_def log_inv_def store_shape_def Store_new_def pc_defs)

section \<open>No deadlock\<close>

lemma step_own:
  assumes "sys_inv oc s" "reading (sy_pc s t) \<or> writing (sy_pc s t)"
  shows "\<exists>s'. lstep en oc t s s'"
proof (cases "sy_pc s t")
  case (Checking b ms)
  then show ?thesis using lstep.fast_path lstep.slow_path by blast
next
  case (Creating b ms)
  then show ?thesis
    by (cases "next_segment_ts (st_window (sy_store s)) b (segs s)")
      (metis lstep.create_panic, metis lstep.create lstep.drop_write option.exhaust)
next
  case (Recording b ops ms)
  show ?thesis
  proof (cases ops)
    case (Cons op ops')
    then show ?thesis
      using Recording lstep.perform lstep.deref_panic by (cases "record_op op s") blast+
  next
    case Nil
    show ?thesis
    proof (cases ms)
      case (Cons m ms')
      then show ?thesis
        using Recording Nil
        by (cases "packet_size oc m") (metis lstep.message_panic, metis lstep.next_message lstep.skip_message sum.exhaust)
    qed (use Recording Nil lstep.end_update in blast)
  qed
next
  case Viewing
  then show ?thesis using lstep.close_view by blast
qed (use assms in \<open>simp_all add: pc_defs\<close>)

text \<open>Whenever a task is busy, some busy task can move.\<close>

lemma progress:
  assumes inv: "sys_inv oc s" and busy: "sy_pc s t \<noteq> Idle"
  shows "\<exists>t' s'. sy_pc s t' \<noteq> Idle \<and> lstep en oc t' s s'"
proof (cases "sy_readers s = {} \<and> sy_writer s = None")
  case True
  have "\<exists>s'. lstep en oc t s s'"
  proof (cases "reading (sy_pc s t) \<or> writing (sy_pc s t)")
    case False
    with busy sys_invD(3) [OF inv, of t]
    consider b ms where "sy_pc s t = Trying b ms" | b ms where "sy_pc s t = Upgrading b ms"
      | b ms where "sy_pc s t = Rereading b ms"
      by (auto simp: pc_defs split: pc.splits)
    then show ?thesis
      using True lstep.acquire_read lstep.acquire_write lstep.reacquire by cases blast+
  qed (use step_own [OF inv] in blast)
  then show ?thesis using busy by blast
next
  case False
  moreover have "sy_readers s = {t. reading (sy_pc s t)}" "\<And>t. sy_writer s = Some t \<Longrightarrow> writing (sy_pc s t)"
    using sys_invD(1) [OF inv] by (auto simp: lock_inv_def)
  ultimately obtain t' where "reading (sy_pc s t') \<or> writing (sy_pc s t')"
    by (cases "sy_writer s") auto
  moreover from this have "sy_pc s t' \<noteq> Idle" by (auto simp: reading_def writing_def)
  ultimately show ?thesis using step_own [OF inv] by blast
qed

section \<open>Properties\<close>

lemma reachable_inv:
  assumes "0 < w" "u64_range w" "reach en oc (Sys_init (Store_new w cap)) s"
  shows "sys_inv oc s"
  using sys_inv_reach [OF assms(3) sys_inv_init [OF assms(1,2)]] .

text \<open>A run in which a task holds the write lock.\<close>

lemma creating_reachable:
  "\<exists>s. reach en oc (Sys_init (Store_new 100 4)) s \<and> sy_pc s 0 = Creating 0 []"
proof -
  let ?s0 = "Sys_init (Store_new 100 4)"
  let ?s1 = "goto 0 (Trying 0 []) ?s0"
  let ?s2 = "goto 0 (Checking 0 []) (lock_read 0 ?s1)"
  let ?s3 = "goto 0 (Upgrading 0 []) (unlock_read 0 ?s2)"
  let ?s4 = "goto 0 (Creating 0 []) (?s3\<lparr>sy_writer := Some 0\<rparr>)"
  note defs = sys_defs Sys_init_def Store_new_def
  have "lstep en oc 0 ?s0 ?s1"
    by (rule begin_update [of _ _ _ 0]) (simp_all add: defs update_ok_def trunc_eq)
  moreover have "lstep en oc 0 ?s1 ?s2" by (rule acquire_read) (simp_all add: defs)
  moreover have "lstep en oc 0 ?s2 ?s3" by (rule slow_path) (simp_all add: defs is_current_def deque_back_def)
  moreover have "lstep en oc 0 ?s3 ?s4" by (rule acquire_write) (simp_all add: defs)
  ultimately have "reach en oc ?s0 ?s4" by (meson reach.intros)
  moreover have "sy_pc ?s4 0 = Creating 0 []" by (simp add: goto_def)
  ultimately show ?thesis by blast
qed



text \<open>No update is lost: in every reachable state, between any two atomic operations of any
  tasks, the statistics of each retained segment are the sum of all the increments recorded
  under its timestamp so far.\<close>

lemma no_lost_update:
  assumes "0 < w" "u64_range w" "reach en oc (Sys_init (Store_new w cap)) s" "x \<in> set (segs s)"
  shows "stat_of (ts_segment x) i = sum_list (map (log_weight (ts_ts x) i) (sy_log s))"
  using reachable_inv [OF assms(1-3)] assms(4) by (simp add: sys_inv_def log_inv_def)

end
