(* ===== verification/Store_Contents.thy ===== *)
theory Store_Contents
  imports Store_Locks
begin

text \<open>
  \<^verbatim>\<open>ptraf/src/store.rs\<close>, concurrency: what the concurrent set and map of a segment hold between
  any two atomic operations of the tasks: the sockets and interests that were recorded for its
  window, and no others.
\<close>

section \<open>The contents of a segment\<close>

definition contents_ok :: "(Timestamp \<times> seg_op) list \<Rightarrow> TimeSegment \<Rightarrow> bool" where
  "contents_ok lg x \<longleftrightarrow>
     distinct (map sk_local (seg_socks (ts_segment x)))
   \<and> sk_local ` set (seg_socks (ts_segment x)) = {sk_local k | k. (ts_ts x, InsertSock k) \<in> set lg}
   \<and> (\<forall>i. seg_index (ts_segment x) i \<noteq> None \<longleftrightarrow> (\<exists>ch len. (ts_ts x, AddEntry i ch len) \<in> set lg))"

definition contents_inv :: "Sys \<Rightarrow> bool" where
  "contents_inv s \<longleftrightarrow> (\<forall>x \<in> set (segs s). contents_ok (sy_log s) x)"

lemma contents_apply:
  assumes "contents_ok lg x"
  shows "contents_ok (lg @ [(ts_ts x, op)]) (x\<lparr>ts_segment := seg_op_apply op (ts_segment x)\<rparr>)"
proof (cases op)
  case (InsertSock k)
  have "distinct (map sk_local (socks_insert k (seg_socks (ts_segment x))))"
    using assms by (simp add: contents_ok_def socks_insert_locals(2))
  then show ?thesis
    using assms unfolding InsertSock by (auto simp: contents_ok_def seg_op_apply_def socks_insert_locals(1))
next
  case (AddEntry j ch len)
  have "index_entry ch len j idx i \<noteq> None \<longleftrightarrow> i = j \<or> idx i \<noteq> None" for i idx
    using dom_index_entry [of ch len j idx] by auto
  then show ?thesis
    using assms unfolding AddEntry by (auto simp: contents_ok_def seg_op_apply_def)
qed

lemma contents_skip: "contents_ok lg x \<Longrightarrow> t \<noteq> ts_ts x \<Longrightarrow> contents_ok (lg @ [(t, op)]) x"
  by (auto simp: contents_ok_def)

lemma contents_new: "(\<And>e. e \<in> set lg \<Longrightarrow> fst e \<noteq> u) \<Longrightarrow> contents_ok lg (new_segment u)"
  by (fastforce simp: contents_ok_def new_segment_def Segment_default_def)

lemma contents_push:
  assumes inv: "sys_inv oc s" and c: "contents_inv s"
    and u: "next_segment_ts (st_window (sy_store s)) b (segs s) = Inr (Some u)"
  shows "contents_inv (set_segments (push_segment cap u (segs s)) s)"
proof -
  have "0 < st_window (sy_store s)" using sys_invD(2) [OF inv] by (simp add: store_shape_def)
  then have "segs s = [] \<or> ts_ts (last (segs s)) < u" using next_SomeD [OF u] by auto
  moreover have "reached (fst e) (segs s)" if "e \<in> set (sy_log s)" for e
    using sys_invD(4) [OF inv] that unfolding log_inv_def by blast
  ultimately have "fst e \<noteq> u" if "e \<in> set (sy_log s)" for e
    using that by (metis leD reached_def)
  then have "contents_ok (sy_log s) (new_segment u)" by (rule contents_new)
  then show ?thesis
    using c by (auto simp: contents_inv_def set_segments_def push_segment_def dest: in_set_dropD split: if_splits)
qed

lemma contents_record:
  assumes inv: "sys_inv oc s" and c: "contents_inv s" and r: "record_op op s = Inr s'" "reached b (segs s)"
  shows "contents_inv s'"
proof -
  note R = record_opD [OF r]
  let ?l = "last (segs s)"
  have ne: "segs s \<noteq> []" using r(2) by (simp add: reached_def)
  have "contents_ok (sy_log s') x" if "x \<in> set (butlast (segs s))" for x
  proof -
    have "ts_ts ?l \<noteq> ts_ts x"
      using sys_invD(2) [OF inv] butlast_times_below [OF _ _ that] by (force simp: store_shape_def)
    then show ?thesis
      using c in_set_butlastD [OF that] by (simp add: R(2) contents_inv_def contents_skip)
  qed
  moreover have "contents_ok (sy_log s') (?l\<lparr>ts_segment := seg_op_apply op (ts_segment ?l)\<rparr>)"
    using c ne by (simp add: R(2) contents_inv_def contents_apply)
  ultimately show ?thesis by (auto simp: contents_inv_def R(1) set_back_mem)
qed

lemma contents_step:
  assumes inv: "sys_inv oc s" and step: "lstep en oc t s s'" and c: "contents_inv s"
  shows "contents_inv s'"
  using step
proof cases
  case (create b ms u)
  then show ?thesis using contents_push [OF inv c create(3)] by simp
next
  case (perform b op ops ms s'')
  then have "reached b (segs s)" using sys_invD(3) [OF inv, of t] by (simp add: task_inv_def)
  then show ?thesis using contents_record [OF inv c perform(3)] perform(1) by (simp add: contents_inv_def goto_def)
qed (use c in \<open>simp_all add: contents_inv_def sys_defs\<close>)

lemma contents_reach:
  assumes "0 < w" "u64_range w"
  shows "reach en oc (Sys_init (Store_new w cap)) s \<Longrightarrow> contents_inv s"
proof (induction rule: reach.induct)
  case (reach_step s t s')
  then show ?case using contents_step [OF reachable_inv [OF assms]] by blast
qed (simp add: contents_inv_def Sys_init_def Store_new_def)

section \<open>Segments filled by whole messages\<close>

lemma locals_apply:
  "sk_local ` set (seg_socks (segment_apply en m seg))
    = (if msg_ok m then {local_sock_addr en m} else {}) \<union> sk_local ` set (seg_socks seg)"
  by (simp add: segment_apply_def segment_record_def socks_insert_locals(1) Socket_from_msg_def)

lemma locals_fold:
  "sk_local ` set (seg_socks (fold (segment_apply en) ms seg))
    = sk_local ` set (seg_socks seg) \<union> local_sock_addr en ` {m \<in> set ms. msg_ok m}"
  by (induction ms arbitrary: seg) (auto simp: locals_apply)

text \<open>A segment with the statistics and the sockets of a run of messages conserves traffic.\<close>

lemma conserves_like:
  assumes keys: "distinct (map sk_local (seg_socks seg))"
    and locals: "sk_local ` set (seg_socks seg) = local_sock_addr en ` {m \<in> set ms. msg_ok m}"
    and stat: "\<And>i. stat_of seg i = sum_list (map (\<lambda>m. msg_weight en m i) ms)"
  shows "seg_conserves seg"
proof -
  let ?seg = "fold (segment_apply en) ms Segment_default"
  have inv: "seg_inv ?seg" by (simp add: seg_inv_fold)
  have eq: "stat_of ?seg i = stat_of seg i" for i by (simp add: seg_ledger.balance_fold stat)
  have set: "sk_local ` set (seg_socks ?seg) = sk_local ` set (seg_socks seg)"
    unfolding locals_fold locals by (simp add: Segment_default_def)
  have sums: "sum_list (map (\<lambda>k. stat_of seg (LocalSocket (sk_local k))) (seg_socks g))
      = (\<Sum>a \<in> sk_local ` set (seg_socks g). stat_of seg (LocalSocket a))"
    if "distinct (map sk_local (seg_socks g))" for g
    using sum_list_distinct_conv_sum_set [OF that, of "\<lambda>a. stat_of seg (LocalSocket a)"] by (simp add: comp_def)
  have "stat_of seg All = sum_list (map (\<lambda>k. stat_of seg (LocalSocket (sk_local k))) (seg_socks ?seg))"
    using inv by (simp add: seg_inv_def seg_conserves_def eq)
  also have "\<dots> = sum_list (map (\<lambda>k. stat_of seg (LocalSocket (sk_local k))) (seg_socks seg))"
    using inv keys by (simp add: seg_inv_def seg_keys_def sums set)
  finally show ?thesis by (simp add: seg_conserves_def)
qed

end
