(* ===== verification/Store_Linear.thy ===== *)
theory Store_Linear
  imports Store_Contents
begin

text \<open>
  \<^verbatim>\<open>ptraf/src/store.rs\<close>, concurrency: interleaved batch updates are equivalent to the sequential
  program of \<open>Store_Window\<close> applied to one batch after the other.

  A run of the tasks is recorded as a trace of actions. A batch takes effect when its task
  gets the read lock under which it will record the messages, the creation of a segment when
  it is pushed; the history of a trace is the sequence of updates in that order, a creation
  being an update without messages.
\<close>

section \<open>Traces\<close>

datatype act =
    Begins Timestamp "SockMsgEvent list"
  | Opens Timestamp
  | Records Timestamp Timestamp "SockMsgEvent list"
  | Performs Timestamp seg_op
  | Silent

abbreviation latest :: "Sys \<Rightarrow> Timestamp" where
  "latest s \<equiv> ts_ts (last (segs s))"

definition act_of :: "tid \<Rightarrow> Sys \<Rightarrow> Sys \<Rightarrow> act" where
  "act_of t s s' =
     (case (sy_pc s t, sy_pc s' t) of
        (Idle, Trying b ms) \<Rightarrow> Begins b ms
      | (Creating b ms, Creating _ _) \<Rightarrow> Opens (latest s')
      | (Checking b ms, Recording _ _ _) \<Rightarrow> Records (latest s) b ms
      | (Rereading b ms, Recording _ _ _) \<Rightarrow> Records (latest s) b ms
      | (Recording b (op # ops) ms, Recording _ _ _) \<Rightarrow> Performs (latest s) op
      | _ \<Rightarrow> Silent)"

inductive trace :: "endian \<Rightarrow> bool \<Rightarrow> Sys \<Rightarrow> (tid \<times> act) list \<Rightarrow> Sys \<Rightarrow> bool" for en oc s0 where
  trace_init: "trace en oc s0 [] s0"
| trace_step: "trace en oc s0 tr s \<Longrightarrow> lstep en oc t s s' \<Longrightarrow> trace en oc s0 (tr @ [(t, act_of t s s')]) s'"

lemma trace_reach: "trace en oc s0 tr s \<Longrightarrow> reach en oc s0 s"
  by (induction rule: trace.induct) (blast intro: reach.intros)+

lemma reach_trace: "reach en oc s0 s \<Longrightarrow> \<exists>tr. trace en oc s0 tr s"
  by (induction rule: reach.induct) (blast intro: trace.intros)+

text \<open>What actions contribute to the history, the log, and the work of a task.\<close>

fun update_of :: "act \<Rightarrow> Update list" where
  "update_of (Opens u) = [(u, [])]"
| "update_of (Records v b ms) = [(b, ms)]"
| "update_of _ = []"

fun target_of :: "act \<Rightarrow> Update list" where
  "target_of (Opens u) = [(u, [])]"
| "target_of (Records v b ms) = [(v, ms)]"
| "target_of _ = []"

fun begun_of :: "act \<Rightarrow> Update list" where
  "begun_of (Begins b ms) = [(b, ms)]"
| "begun_of _ = []"

fun recorded_of :: "act \<Rightarrow> Update list" where
  "recorded_of (Records v b ms) = [(b, ms)]"
| "recorded_of _ = []"

fun done_of :: "act \<Rightarrow> (Timestamp \<times> seg_op) list" where
  "done_of (Performs v op) = [(v, op)]"
| "done_of _ = []"

definition ops_of :: "endian \<Rightarrow> SockMsgEvent \<Rightarrow> seg_op list" where
  "ops_of en m = (if msg_ok m then msg_ops en m (ucast (msg_ret m)) else [])"

fun due_of :: "endian \<Rightarrow> act \<Rightarrow> (Timestamp \<times> seg_op) list" where
  "due_of en (Records v b ms) = map (Pair v) (concat (map (ops_of en) ms))"
| "due_of en _ = []"

definition all_of :: "(act \<Rightarrow> 'a list) \<Rightarrow> (tid \<times> act) list \<Rightarrow> 'a list" where
  "all_of f tr = concat (map (f \<circ> snd) tr)"

definition task_of :: "(act \<Rightarrow> 'a list) \<Rightarrow> tid \<Rightarrow> (tid \<times> act) list \<Rightarrow> 'a list" where
  "task_of f t tr = all_of f (filter (\<lambda>e. fst e = t) tr)"

lemma all_of_simps [simp]: "all_of f [] = []" "all_of f (tr @ [(t, a)]) = all_of f tr @ f a"
  by (simp_all add: all_of_def)

lemma task_of_simps [simp]:
  "task_of f t [] = []" "task_of f t (tr @ [(t', a)]) = task_of f t tr @ (if t' = t then f a else [])"
  by (simp_all add: task_of_def)

abbreviation history :: "(tid \<times> act) list \<Rightarrow> Update list" where
  "history \<equiv> all_of update_of"

section \<open>The work of a task\<close>

fun waiting :: "pc \<Rightarrow> Update list" where
  "waiting (Trying b ms) = [(b, ms)]"
| "waiting (Checking b ms) = [(b, ms)]"
| "waiting (Upgrading b ms) = [(b, ms)]"
| "waiting (Creating b ms) = [(b, ms)]"
| "waiting (Rereading b ms) = [(b, ms)]"
| "waiting _ = []"

fun left_of :: "endian \<Rightarrow> Timestamp \<Rightarrow> pc \<Rightarrow> (Timestamp \<times> seg_op) list" where
  "left_of en v (Recording b ops ms) = map (Pair v) (ops @ concat (map (ops_of en) ms))"
| "left_of en v _ = []"

text \<open>A task records the batches it begins, in order, and performs the operations of those it
  records, in order; the log is what all tasks have performed.\<close>

definition work_inv :: "endian \<Rightarrow> (tid \<times> act) list \<Rightarrow> Sys \<Rightarrow> bool" where
  "work_inv en tr s \<longleftrightarrow>
     (\<forall>t. task_of recorded_of t tr @ waiting (sy_pc s t) = task_of begun_of t tr)
   \<and> (\<forall>t. task_of done_of t tr @ left_of en (latest s) (sy_pc s t) = task_of (due_of en) t tr)
   \<and> sy_log s = all_of done_of tr"

lemma packet_size_ops:
  "packet_size oc m = Inr (Inr len) \<Longrightarrow> ops_of en m = msg_ops en m (ucast len)"
  "packet_size oc m = Inr (Inl e) \<Longrightarrow> ops_of en m = []"
  by (auto simp: packet_size_def ops_of_def msg_ok_def neg_i32_def split: if_splits)

text \<open>While a task records, no other task moves the latest segment.\<close>

lemma latest_stable:
  assumes inv: "sys_inv oc s" and step: "lstep en oc t s s'" and r: "sy_pc s t' = Recording b ops ms"
  shows "latest s' = latest s"
proof -
  have nw: "\<not> writing (sy_pc s t)"
  proof
    assume "writing (sy_pc s t)"
    then have "sy_readers s = {}" using sys_invD(1) [OF inv] by (auto simp: lock_inv_def)
    moreover have "t' \<in> sy_readers s" using sys_invD(1) [OF inv] r by (simp add: lock_inv_def reading_def)
    ultimately show False by simp
  qed
  have "map ts_ts (segs s') = map ts_ts (segs s)"
    using step
  proof cases
    case (perform b op ops ms s'')
    then have "reached b (segs s)" using sys_invD(3) [OF inv, of t] by (simp add: task_inv_def)
    from record_opD(6) [OF perform(3) this] show ?thesis using perform by (simp add: goto_def)
  qed (use nw in \<open>simp_all add: sys_defs writing_def\<close>)
  then show ?thesis by (metis last_map list.map_disc_iff last.simps)
qed

text \<open>One step of the task that moves.\<close>

lemma work_own:
  assumes inv: "sys_inv oc s" and step: "lstep en oc t s s'"
  shows "waiting (sy_pc s t) @ begun_of (act_of t s s') = recorded_of (act_of t s s') @ waiting (sy_pc s' t)"
    "left_of en (latest s) (sy_pc s t) @ due_of en (act_of t s s')
      = done_of (act_of t s s') @ left_of en (latest s') (sy_pc s' t)"
    "sy_log s' = sy_log s @ done_of (act_of t s s')"
proof -
  have np: "sy_pc s' t \<noteq> Panicked"
    using sys_invD(3) [OF sys_inv_step [OF inv step], of t] by (auto simp: task_inv_def)
  have "waiting (sy_pc s t) @ begun_of (act_of t s s') = recorded_of (act_of t s s') @ waiting (sy_pc s' t)
    \<and> left_of en (latest s) (sy_pc s t) @ due_of en (act_of t s s')
      = done_of (act_of t s s') @ left_of en (latest s') (sy_pc s' t)
    \<and> sy_log s' = sy_log s @ done_of (act_of t s s')"
    using step
  proof cases
    case (perform b op ops ms s'')
    then have "reached b (segs s)" using sys_invD(3) [OF inv, of t] by (simp add: task_inv_def)
    note R = record_opD [OF perform(3) this]
    have "latest s' = latest s" using latest_stable [OF inv step] perform(2) by simp
    then show ?thesis using perform R(2,5) by (simp add: goto_def act_of_def)
  qed (use np in \<open>simp_all add: sys_defs act_of_def packet_size_ops\<close>)
  then show "waiting (sy_pc s t) @ begun_of (act_of t s s') = recorded_of (act_of t s s') @ waiting (sy_pc s' t)"
    "left_of en (latest s) (sy_pc s t) @ due_of en (act_of t s s')
      = done_of (act_of t s s') @ left_of en (latest s') (sy_pc s' t)"
    "sy_log s' = sy_log s @ done_of (act_of t s s')" by blast+
qed

lemma left_stable:
  assumes "sys_inv oc s" "lstep en oc t s s'" "t' \<noteq> t"
  shows "left_of en (latest s') (sy_pc s' t') = left_of en (latest s) (sy_pc s t')"
  using lstep_other [OF assms(2,3)] latest_stable [OF assms(1,2)] by (cases "sy_pc s t'") auto

lemma work_inv_step:
  assumes inv: "sys_inv oc s" and step: "lstep en oc t s s'" and w: "work_inv en tr s"
  shows "work_inv en (tr @ [(t, act_of t s s')]) s'"
proof -
  note O = work_own [OF inv step]
  have W: "task_of recorded_of t' tr @ waiting (sy_pc s t') = task_of begun_of t' tr"
    "task_of done_of t' tr @ left_of en (latest s) (sy_pc s t') = task_of (due_of en) t' tr"
    "sy_log s = all_of done_of tr" for t'
    using w by (simp_all add: work_inv_def)
  show ?thesis
    unfolding work_inv_def task_of_simps all_of_simps
  proof (intro conjI allI)
    fix t'
    show "(task_of recorded_of t' tr @ (if t = t' then recorded_of (act_of t s s') else [])) @ waiting (sy_pc s' t')
        = task_of begun_of t' tr @ (if t = t' then begun_of (act_of t s s') else [])"
      using lstep_other [OF step, of t'] by (cases "t' = t") (simp_all add: O(1) flip: W(1))
    show "(task_of done_of t' tr @ (if t = t' then done_of (act_of t s s') else [])) @ left_of en (latest s') (sy_pc s' t')
        = task_of (due_of en) t' tr @ (if t = t' then due_of en (act_of t s s') else [])"
      using left_stable [OF inv step, of t'] by (cases "t' = t") (simp_all add: O(2) flip: W(2))
  qed (simp add: O(3) W(3))
qed

section \<open>The windows of a history\<close>

lemma tl_span_update:
  "tl_span (timeline_update en b ms tm)
    = Some (case tl_span tm of None \<Rightarrow> (b, b) | Some (f, l) \<Rightarrow> (f, max l b))"
  by (simp add: timeline_update_def timeline_record_def timeline_advance_def)

lemma run_target_snoc:
  "run_target w (map_option snd (tl_span tm)) (us @ [(b, ms)])
    = run_target w (map_option snd (tl_span tm)) us @ [(tl_target (start w b) (timeline_run en w us tm), ms)]"
proof (induction us arbitrary: tm)
  case (Cons u us)
  obtain ts m where u: "u = (ts, m)" by (cases u)
  have e: "map_option snd (tl_span (timeline_update en (start w ts) m tm)) =
      Some (case map_option snd (tl_span tm) of None \<Rightarrow> start w ts | Some l \<Rightarrow> max l (start w ts))"
    by (simp add: tl_span_update split: option.splits)
  show ?case using Cons.IH [of "timeline_update en (start w ts) m tm", unfolded e] by (simp add: u Let_def)
qed (simp add: tl_target_def split: option.splits)

definition span_inv :: "endian \<Rightarrow> bool \<Rightarrow> (tid \<times> act) list \<Rightarrow> Sys \<Rightarrow> bool" where
  "span_inv en oc tr s \<longleftrightarrow>
     (let w = st_window (sy_store s); tm = timeline_run en w (history tr) Timeline_empty in
      (case tl_span tm of
         None \<Rightarrow> segs s = []
       | Some (f, l) \<Rightarrow> \<exists>k. l = f + k * w \<and> times (sy_store s) = lastn (retention (sy_store s)) (span f w k))
    \<and> run_target w None (history tr) = all_of target_of tr
    \<and> (\<forall>u \<in> set (history tr). update_ok oc u))"

lemma span_inv_frame:
  assumes "span_inv en oc tr s" "update_of a = []" "target_of a = []"
    "st_window (sy_store s') = st_window (sy_store s)" "st_capacity (sy_store s') = st_capacity (sy_store s)"
    "map ts_ts (segs s') = map ts_ts (segs s)"
  shows "span_inv en oc (tr @ [(t, a)]) s'"
proof -
  have "segs s' = [] \<longleftrightarrow> segs s = []" using arg_cong [OF assms(6), of length] by auto
  then show ?thesis using assms by (auto simp: span_inv_def Let_def split: option.splits)
qed

lemma start_self: "w dvd b \<Longrightarrow> start w b = b"
  by (simp add: start_def)

lemma start_le: "start w b \<le> b"
  by (simp add: start_def)

text \<open>Recording in a window that the deque has reached.\<close>

lemma span_inv_records:
  assumes inv: "span_inv en oc tr s" and r: "reached b (segs s)" and ok: "update_ok oc (b, ms)"
    and s': "sy_store s' = sy_store s"
  shows "span_inv en oc (tr @ [(t, Records (latest s) b ms)]) s'"
proof -
  let ?w = "st_window (sy_store s)" and ?tm = "timeline_run en (st_window (sy_store s)) (history tr) Timeline_empty"
  obtain f l k where k: "tl_span ?tm = Some (f, l)" "l = f + k * ?w"
    "times (sy_store s) = lastn (retention (sy_store s)) (span f ?w k)"
    using inv r by (auto simp: span_inv_def Let_def reached_def split: option.splits)
  have l: "latest s = l" using last_times_represents [OF k(3)] k(2) r by (simp add: reached_def last_map)
  then have m: "max l (start ?w b) = l" using r start_le [of ?w b] by (simp add: reached_def)
  have "run_target ?w None (history tr @ [(b, ms)]) = run_target ?w None (history tr) @ [(l, ms)]"
    using run_target_snoc [of ?w Timeline_empty "history tr" b ms en] k(1) m
    by (simp add: tl_target_def Timeline_empty_def)
  then show ?thesis
    using inv k ok m l s' by (simp add: span_inv_def Let_def timeline_run_append tl_span_update)
qed

lemma span_inv_opens:
  assumes inv: "span_inv en oc tr s" and shape: "store_shape (sy_store s)"
    and b: "st_window (sy_store s) dvd b" "u64_range b"
    and u: "next_segment_ts (st_window (sy_store s)) b (segs s) = Inr (Some u)"
  shows "span_inv en oc (tr @ [(t, Opens u)]) (set_segments (push_segment (st_capacity (sy_store s)) u (segs s)) s)"
proof -
  let ?st = "sy_store s" and ?w = "st_window (sy_store s)" and ?r = "retention (sy_store s)"
  let ?tm = "timeline_run en ?w (history tr) Timeline_empty" and ?q = "push_segment (st_capacity ?st) u (segs s)"
  have q: "map ts_ts ?q = lastn ?r (times ?st @ [u])"
    using shape by (subst push_segment_lastn) (simp_all add: store_shape_def lastn_map)
  have "u \<in> set (map ts_ts ?q)" by (simp add: q lastn_def)
  then have "?w dvd u" "u64_range u"
    using shape_push [OF shape b u] by (auto simp: store_shape_def simp del: set_map)
  then have ok: "update_ok oc (u, [])" and sw: "start ?w u = u" by (simp_all add: update_ok_def start_self)
  show ?thesis
  proof (cases "tl_span ?tm")
    case None
    then have "segs s = []" using inv by (simp add: span_inv_def)
    then have "map ts_ts ?q = lastn ?r (span u ?w 0)" using q by (simp add: span_def)
    moreover have "run_target ?w None (history tr @ [(u, [])]) = run_target ?w None (history tr) @ [(u, [])]"
      using run_target_snoc [of ?w Timeline_empty "history tr" u "[]" en] None sw
      by (simp add: tl_target_def Timeline_empty_def)
    ultimately show ?thesis
      using inv None ok sw
      by (auto simp: span_inv_def Let_def timeline_run_append tl_span_update set_segments_def intro!: exI [of _ 0])
  next
    case (Some p)
    then obtain f l k where k: "tl_span ?tm = Some (f, l)" "l = f + k * ?w" "times ?st = lastn ?r (span f ?w k)"
      using inv by (cases p) (auto simp: span_inv_def Let_def)
    note L = last_times_represents [OF k(3)]
    have ul: "u = l + ?w" using next_SomeD [OF u] L k(2) by (auto simp: last_map)
    have "map ts_ts ?q = lastn ?r (span f ?w k @ [u])" by (simp only: q k(3) lastn_append_lastn)
    also have "span f ?w k @ [u] = span f ?w (Suc k)" by (simp add: span_def ul k(2))
    finally have "map ts_ts ?q = lastn ?r (span f ?w (Suc k))" .
    moreover have "run_target ?w None (history tr @ [(u, [])]) = run_target ?w None (history tr) @ [(u, [])]"
      using run_target_snoc [of ?w Timeline_empty "history tr" u "[]" en] k(1) sw ul
      by (simp add: tl_target_def Timeline_empty_def)
    ultimately show ?thesis
      using inv k(1,2) ok sw ul
      by (auto simp: span_inv_def Let_def timeline_run_append tl_span_update set_segments_def intro!: exI [of _ "Suc k"])
  qed
qed

lemma current_reached: "is_current b q \<Longrightarrow> reached b q"
  by (simp add: is_current_def reached_def deque_back_def split: if_splits)

lemma span_inv_step:
  assumes inv: "sys_inv oc s" and step: "lstep en oc t s s'" and sp: "span_inv en oc tr s"
  shows "span_inv en oc (tr @ [(t, act_of t s s')]) s'"
proof -
  note D = sys_invD [OF inv] and T = sys_invD(3) [OF inv, of t]
  from step show ?thesis
  proof cases
    case (create b ms u)
    have "act_of t s s' = Opens u"
      using create by (simp add: act_of_def set_segments_def push_segment_def)
    then show ?thesis using span_inv_opens [OF sp D(2) _ _ create(3)] T create by (simp add: task_inv_def update_ok_def)
  next
    case (fast_path b ms)
    then have "act_of t s s' = Records (latest s) b ms" by (simp add: act_of_def goto_def)
    then show ?thesis
      using span_inv_records [OF sp current_reached] fast_path T by (simp add: task_inv_def goto_def)
  next
    case (reacquire b ms)
    then have "act_of t s s' = Records (latest s) b ms" by (simp add: act_of_def goto_def)
    then show ?thesis
      using span_inv_records [OF sp] reacquire T by (simp add: task_inv_def goto_def lock_read_def)
  next
    case (perform b op ops ms s'')
    then have "reached b (segs s)" using T by (simp add: task_inv_def)
    note R = record_opD [OF perform(3) this]
    have "act_of t s s' = Performs (latest s) op" using perform R(5) by (simp add: act_of_def goto_def)
    then show ?thesis
      using R(1,6) perform(1) by (intro span_inv_frame [OF sp]) (simp_all add: goto_def set_back_def)
  qed (rule span_inv_frame [OF sp]; simp add: sys_defs act_of_def)+
qed

lemma store_frame:
  assumes "lstep en oc t s s'"
  shows "st_window (sy_store s') = st_window (sy_store s)" "st_capacity (sy_store s') = st_capacity (sy_store s)"
  using assms by (induction rule: lstep.induct) (auto simp: sys_defs record_op_def set_back_def exec_elims)

lemma trace_inv:
  assumes "0 < w" "u64_range w"
  shows "trace en oc (Sys_init (Store_new w cap)) tr s \<Longrightarrow>
    work_inv en tr s \<and> span_inv en oc tr s \<and> st_window (sy_store s) = w \<and> st_capacity (sy_store s) = cap"
proof (induction rule: trace.induct)
  case trace_init
  show ?case by (simp add: work_inv_def span_inv_def Sys_init_def Store_new_def Timeline_empty_def)
next
  case (trace_step tr s t s')
  have "sys_inv oc s" using reachable_inv [OF assms trace_reach [OF trace_step.hyps(1)]] .
  then show ?case
    using trace_step work_inv_step span_inv_step store_frame by metis
qed

section \<open>Sums over a trace\<close>

lemma mset_all_of:
  assumes "\<And>t. task_of f t tr = task_of g t tr"
  shows "mset (all_of f tr) = mset (all_of g tr)"
proof -
  define tag where "tag h = concat (map (\<lambda>(t, a). map (Pair t) (h a)) tr)" for h :: "act \<Rightarrow> 'a list"
  have filt: "filter (\<lambda>p. fst p = t) (tag h) = map (Pair t) (task_of h t tr)" for h t
    unfolding tag_def task_of_def all_of_def by (induction tr) (auto simp: filter_map comp_def)
  have snd: "map snd (tag h) = all_of h tr" for h
    unfolding tag_def all_of_def by (induction tr) (auto simp: comp_def)
  have "count (mset (tag h)) (t, x) = count (mset (map (Pair t) (task_of h t tr))) (t, x)" for h t x
    unfolding filt [symmetric] mset_filter by simp
  then have "mset (tag f) = mset (tag g)" using assms by (intro multiset_eqI) (metis surj_pair)
  then show ?thesis unfolding snd [symmetric] mset_map by simp
qed

lemma ops_of_weight:
  "sum_list (map (\<lambda>op. log_weight u i (v, op)) (ops_of en m)) = (if v = u then msg_weight en m i else 0)"
  using entry_weights_of_msg [of "msg_channel m" "ucast (msg_ret m)" i en m]
  by (cases "v = u") (auto simp: ops_of_def msg_ops_def log_weight_def msg_weight_def msg_stat_def comp_def)

lemma due_weight:
  "sum_list (map (log_weight u i) (all_of (due_of en) tr))
    = sum_list (map (\<lambda>(v, ms). if v = u then sum_list (map (\<lambda>m. msg_weight en m i) ms) else 0) (all_of target_of tr))"
proof -
  have "sum_list (map (log_weight u i) (map (Pair v) (concat (map (ops_of en) ms))))
      = (if v = u then sum_list (map (\<lambda>m. msg_weight en m i) ms) else 0)" for v ms
    by (induction ms) (simp_all add: comp_def ops_of_weight)
  then have "sum_list (map (log_weight u i) (due_of en a))
      = sum_list (map (\<lambda>(v, ms). if v = u then sum_list (map (\<lambda>m. msg_weight en m i) ms) else 0) (target_of a))" for a
    by (cases a) simp_all
  then show ?thesis unfolding all_of_def by (induction tr) simp_all
qed

text \<open>A window is settled when no task may still record in it: no update is in progress, or the
  window is not the latest, since a task that records keeps the deque from growing. A settled
  segment has the traffic of the batches recorded in its window.\<close>

definition quiet :: "Sys \<Rightarrow> bool" where
  "quiet s \<longleftrightarrow> (\<forall>t. sy_pc s t = Idle \<or> sy_pc s t = Viewing)"

lemma quiet_work: "quiet s \<Longrightarrow> waiting (sy_pc s t) = [] \<and> left_of en v (sy_pc s t) = []"
  by (cases "sy_pc s t") (auto simp: quiet_def dest: spec [of _ t])

definition settled :: "Sys \<Rightarrow> Timestamp \<Rightarrow> bool" where
  "settled s u \<longleftrightarrow> quiet s \<or> u \<noteq> latest s"

lemma left_of_fst: "e \<in> set (left_of en v p) \<Longrightarrow> fst e = v"
  by (cases p) auto

lemma filter_of:
  "filter P (all_of f tr) = all_of (filter P \<circ> f) tr" "filter P (task_of f t tr) = task_of (filter P \<circ> f) t tr"
  by (simp_all add: all_of_def task_of_def filter_concat comp_def)

lemma settled_log:
  assumes "work_inv en tr s" "settled s u"
  shows "mset (filter (\<lambda>e. fst e = u) (sy_log s)) = mset (filter (\<lambda>e. fst e = u) (all_of (due_of en) tr))"
proof -
  have W: "task_of done_of t tr @ left_of en (latest s) (sy_pc s t) = task_of (due_of en) t tr"
    "sy_log s = all_of done_of tr" for t
    using assms(1) by (simp_all add: work_inv_def)
  have "filter (\<lambda>e. fst e = u) (left_of en (latest s) (sy_pc s t)) = []" for t
    using assms(2) quiet_work [of s t en "latest s"] left_of_fst [of _ en "latest s" "sy_pc s t"]
    by (auto simp: settled_def filter_empty_conv)
  then have "task_of (filter (\<lambda>e. fst e = u) \<circ> done_of) t tr = task_of (filter (\<lambda>e. fst e = u) \<circ> due_of en) t tr" for t
    unfolding filter_of [symmetric] W(1) [symmetric] by simp
  then show ?thesis unfolding W(2) filter_of by (rule mset_all_of)
qed

lemma log_weight_filter:
  "sum_list (map (log_weight u i) lg) = sum_list (map (log_weight u i) (filter (\<lambda>e. fst e = u) lg))"
  by (induction lg) (auto simp: log_weight_def split: seg_op.splits)

definition messages_at :: "(tid \<times> act) list \<Rightarrow> Timestamp \<Rightarrow> SockMsgEvent list" where
  "messages_at tr u = concat (map snd (filter (\<lambda>v. fst v = u) (all_of target_of tr)))"

lemma due_at: "(u, op) \<in> set (all_of (due_of en) tr) \<longleftrightarrow> (\<exists>m \<in> set (messages_at tr u). op \<in> set (ops_of en m))"
proof -
  have a: "(u, op) \<in> set (due_of en a) \<longleftrightarrow> (\<exists>v \<in> set (target_of a). fst v = u \<and> (\<exists>m \<in> set (snd v). op \<in> set (ops_of en m)))" for a
    by (cases a) auto
  have "(u, op) \<in> set (all_of (due_of en) tr) \<longleftrightarrow> (\<exists>e \<in> set tr. (u, op) \<in> set (due_of en (snd e)))"
    by (auto simp: all_of_def)
  also have "\<dots> \<longleftrightarrow> (\<exists>v \<in> set (all_of target_of tr). fst v = u \<and> (\<exists>m \<in> set (snd v). op \<in> set (ops_of en m)))"
    unfolding a by (auto simp: all_of_def)
  also have "\<dots> \<longleftrightarrow> (\<exists>m \<in> set (messages_at tr u). op \<in> set (ops_of en m))"
    unfolding messages_at_def set_concat set_map set_filter by fastforce
  finally show ?thesis .
qed

lemma ops_of_mem:
  "InsertSock k \<in> set (ops_of en m) \<longleftrightarrow> msg_ok m \<and> k = Socket_from_msg en m"
  "(\<exists>ch len. AddEntry (LocalSocket a) ch len \<in> set (ops_of en m)) \<longleftrightarrow> msg_ok m \<and> a = local_sock_addr en m"
  by (auto simp: ops_of_def msg_ops_def interests_from_msg_def)

lemma messages_weight:
  "sum_list (map (\<lambda>(v, ms). if v = u then sum_list (map (\<lambda>m. msg_weight en m i) ms) else 0) (all_of target_of tr))
    = sum_list (map (\<lambda>m. msg_weight en m i) (messages_at tr u))"
proof -
  have "sum_list (map (\<lambda>(v, ms). if v = u then sum_list (map f ms) else 0) xs)
      = sum_list (map f (concat (map snd (filter (\<lambda>v. fst v = u) xs))))"
    for f :: "SockMsgEvent \<Rightarrow> Stat" and xs :: "Update list"
    by (induction xs) auto
  then show ?thesis by (simp add: messages_at_def)
qed

lemma settled_stat:
  assumes "sys_inv oc s" "work_inv en tr s" "settled s (ts_ts x)" "x \<in> set (segs s)"
  shows "stat_of (ts_segment x) i = sum_list (map (\<lambda>m. msg_weight en m i) (messages_at tr (ts_ts x)))"
proof -
  have "stat_of (ts_segment x) i = sum_list (map (log_weight (ts_ts x) i) (sy_log s))"
    using assms(1,4) by (simp add: sys_inv_def log_inv_def)
  also have "\<dots> = sum_list (map (log_weight (ts_ts x) i) (filter (\<lambda>e. fst e = ts_ts x) (sy_log s)))"
    by (rule log_weight_filter)
  also have "\<dots> = sum_list (map (log_weight (ts_ts x) i) (filter (\<lambda>e. fst e = ts_ts x) (all_of (due_of en) tr)))"
    by (rule sum_list_mset_cong [OF settled_log [OF assms(2,3)]])
  also have "\<dots> = sum_list (map (log_weight (ts_ts x) i) (all_of (due_of en) tr))"
    by (rule log_weight_filter [symmetric])
  finally show ?thesis by (simp add: due_weight messages_weight)
qed

text \<open>Its sockets and interests are those of whole messages, and it has the invariant of a
  segment.\<close>

lemma settled_seg_inv:
  assumes inv: "sys_inv oc s" "contents_inv s" "work_inv en tr s" "settled s (ts_ts x)" and x: "x \<in> set (segs s)"
  shows "seg_inv (ts_segment x)"
proof -
  let ?ms = "messages_at tr (ts_ts x)"
  have log: "(ts_ts x, op) \<in> set (sy_log s) \<longleftrightarrow> (\<exists>m \<in> set ?ms. op \<in> set (ops_of en m))" for op
  proof -
    have "(ts_ts x, op) \<in> set (filter (\<lambda>e. fst e = ts_ts x) (sy_log s))
        \<longleftrightarrow> (ts_ts x, op) \<in> set (filter (\<lambda>e. fst e = ts_ts x) (all_of (due_of en) tr))"
      by (simp only: mset_eq_setD [OF settled_log [OF inv(3,4)]])
    then show ?thesis by (simp add: due_at)
  qed
  have C: "distinct (map sk_local (seg_socks (ts_segment x)))"
    "sk_local ` set (seg_socks (ts_segment x)) = {sk_local k | k. (ts_ts x, InsertSock k) \<in> set (sy_log s)}"
    "\<And>i. seg_index (ts_segment x) i \<noteq> None \<longleftrightarrow> (\<exists>ch len. (ts_ts x, AddEntry i ch len) \<in> set (sy_log s))"
    using inv(2) x unfolding contents_inv_def contents_ok_def by blast+
  have locals: "sk_local ` set (seg_socks (ts_segment x)) = local_sock_addr en ` {m \<in> set ?ms. msg_ok m}"
  proof -
    have "sk_local ` set (seg_socks (ts_segment x)) = (\<lambda>m. sk_local (Socket_from_msg en m)) ` {m \<in> set ?ms. msg_ok m}"
      unfolding C(2) log ops_of_mem by blast
    then show ?thesis by (simp add: Socket_from_msg_def)
  qed
  have "seg_index (ts_segment x) (LocalSocket a) \<noteq> None \<longleftrightarrow> a \<in> local_sock_addr en ` {m \<in> set ?ms. msg_ok m}" for a
    unfolding C(3) log using ops_of_mem(2) by blast
  then have "seg_keys (ts_segment x)" using C(1) by (simp add: seg_keys_def locals)
  then show ?thesis
    using conserves_like [OF C(1) locals settled_stat [OF inv(1,3,4) x]] by (simp add: seg_inv_def)
qed

lemma quiet_settled: "quiet s \<Longrightarrow> settled s u"
  by (simp add: settled_def)

lemma quiet_stat:
  assumes "sys_inv oc s" "work_inv en tr s" "span_inv en oc tr s" "quiet s" "x \<in> set (segs s)"
  shows "stat_of (ts_segment x) i
    = tl_stat (timeline_run en (st_window (sy_store s)) (history tr) Timeline_empty) (ts_ts x) i"
  using settled_stat [OF assms(1,2) quiet_settled [OF assms(4)] assms(5), of i] assms(3)
  by (simp add: timeline_run_stat Timeline_empty_def span_inv_def Let_def messages_weight)

lemma quiet_store_inv:
  assumes "sys_inv oc s" "contents_inv s" "work_inv en tr s" "quiet s"
  shows "store_inv (sy_store s)"
  using sys_invD(2) [OF assms(1)] settled_seg_inv [OF assms(1-3) quiet_settled [OF assms(4)]] by (simp add: store_inv_def store_shape_def)

text \<open>A task that records, run alone, performs its next operation or takes its next message, and
  in the end is idle.\<close>

lemma recording_performs:
  assumes "0 < w" "u64_range w" "trace en oc (Sys_init (Store_new w cap)) tr s" "sy_pc s t = Recording b ops ms"
  shows "\<exists>tr' s'. trace en oc (Sys_init (Store_new w cap)) tr' s' \<and> sy_pc s' = (sy_pc s)(t := Recording b [] ms)
    \<and> task_of begun_of t tr' = task_of begun_of t tr \<and> times (sy_store s') = times (sy_store s)"
  using assms(3,4)
proof (induction ops arbitrary: tr s)
  case Nil
  then have "sy_pc s = (sy_pc s)(t := Recording b [] ms)" by (simp add: fun_upd_idem)
  with Nil show ?case by metis
next
  case (Cons op ops)
  have r: "reached b (segs s)"
    using sys_invD(3) [OF reachable_inv [OF assms(1,2) trace_reach [OF Cons.prems(1)]], of t] Cons.prems(2)
    by (simp add: task_inv_def)
  obtain s1 where s1: "record_op op s = Inr s1"
    using reached_record_op [OF r] by (cases "record_op op s") auto
  note st = trace_step [OF Cons.prems(1) perform [OF Cons.prems(2) s1]]
  have pc: "sy_pc (goto t (Recording b ops ms) s1) = (sy_pc s)(t := Recording b ops ms)"
    using record_opD(5) [OF s1 r] by (simp add: goto_def)
  have pct: "sy_pc (goto t (Recording b ops ms) s1) t = Recording b ops ms" by (simp add: goto_def)
  have a: "act_of t s (goto t (Recording b ops ms) s1) = Performs (latest s) op"
    using Cons.prems(2) pct by (simp add: act_of_def)
  have ts: "times (sy_store (goto t (Recording b ops ms) s1)) = times (sy_store s)"
    using record_opD(6) [OF s1 r] by (simp add: goto_def)
  from Cons.IH [OF st pct] show ?case unfolding pc ts fun_upd_upd a by simp
qed

lemma recording_ends:
  assumes "0 < w" "u64_range w" "trace en oc (Sys_init (Store_new w cap)) tr s" "sy_pc s t = Recording b ops ms"
  shows "\<exists>tr' s'. trace en oc (Sys_init (Store_new w cap)) tr' s' \<and> sy_pc s' = (sy_pc s)(t := Idle)
    \<and> task_of begun_of t tr' = task_of begun_of t tr \<and> times (sy_store s') = times (sy_store s)"
  using assms(3,4)
proof (induction ms arbitrary: ops tr s)
  case Nil
  obtain tr1 s1 where 1: "trace en oc (Sys_init (Store_new w cap)) tr1 s1" "sy_pc s1 = (sy_pc s)(t := Recording b [] [])"
    "task_of begun_of t tr1 = task_of begun_of t tr" "times (sy_store s1) = times (sy_store s)"
    using recording_performs [OF assms(1,2) Nil] by blast
  have pc: "sy_pc s1 t = Recording b [] []" by (simp add: 1(2))
  show ?case
    by (rule exI, rule exI, rule conjI, rule trace_step [OF 1(1) end_update [OF pc]])
      (simp add: 1(2-4) sys_defs act_of_def)
next
  case (Cons m ms)
  obtain tr1 s1 where 1: "trace en oc (Sys_init (Store_new w cap)) tr1 s1" "sy_pc s1 = (sy_pc s)(t := Recording b [] (m # ms))"
    "task_of begun_of t tr1 = task_of begun_of t tr" "times (sy_store s1) = times (sy_store s)"
    using recording_performs [OF assms(1,2) Cons.prems] by blast
  have pc: "sy_pc s1 t = Recording b [] (m # ms)" by (simp add: 1(2))
  have "msg_no_panic oc m"
    using sys_invD(3) [OF reachable_inv [OF assms(1,2) trace_reach [OF 1(1)]], of t] pc
    by (simp add: task_inv_def update_ok_def)
  then obtain r where r: "packet_size oc m = Inr r"
    using packet_size_no_panic by (cases "packet_size oc m") auto
  obtain ops' where st: "lstep en oc t s1 (goto t (Recording b ops' ms) s1)"
    using r lstep.next_message [OF pc] lstep.skip_message [OF pc] by (cases r) blast+
  have pc': "sy_pc (goto t (Recording b ops' ms) s1) = (sy_pc s)(t := Recording b ops' ms)" by (simp add: goto_def 1(2))
  have pct: "sy_pc (goto t (Recording b ops' ms) s1) t = Recording b ops' ms" by (simp add: goto_def)
  have a: "act_of t s1 (goto t (Recording b ops' ms) s1) = Silent" using pc pct by (simp add: act_of_def)
  have ts: "times (sy_store (goto t (Recording b ops' ms) s1)) = times (sy_store s)" using 1(4) by (simp add: goto_def)
  from Cons.IH [OF trace_step [OF 1(1) st] pct] show ?case unfolding pc' ts fun_upd_upd a by (simp add: 1(3))
qed

section \<open>Properties\<close>

abbreviation seg_stats :: "Store \<Rightarrow> Interest \<Rightarrow> Stat list" where
  "seg_stats st i \<equiv> map (\<lambda>x. stat_of (ts_segment x) i) (st_segments st)"

text \<open>C8. The store is linearizable: however the batch updates and views of the tasks interleave,
  whenever no update is in progress the store has the same segments, with the same statistics
  for every interest, as if the updates had run one after the other in the order of the
  history; its sockets and indices are consistent; and each task's batches are in the history in the order it began them.\<close>

theorem store_linearizable:
  assumes "0 < w" "u64_range w" "trace en oc (Sys_init (Store_new w cap)) tr s" "quiet s"
  shows "\<exists>st. run_updates en oc (history tr) (Store_new w cap) = Some (Inr st)
    \<and> times st = times (sy_store s) \<and> seg_stats st i = seg_stats (sy_store s) i
    \<and> store_inv (sy_store s) \<and> task_of recorded_of t tr = task_of begun_of t tr"
proof -
  let ?tm = "timeline_run en w (history tr) Timeline_empty"
  note inv = reachable_inv [OF assms(1,2) trace_reach [OF assms(3)]]
  have T: "work_inv en tr s" "span_inv en oc tr s" "st_window (sy_store s) = w" "st_capacity (sy_store s) = cap"
    using trace_inv [OF assms(1-3)] by simp_all
  have "\<And>u. u \<in> set (history tr) \<Longrightarrow> update_ok oc u" using T(2) by (simp add: span_inv_def Let_def)
  from run_updates_refines [OF Store_new_inv [OF assms(1,2), of cap] represents_empty this, where en = en]
  obtain st where st: "run_updates en oc (history tr) (Store_new w cap) = Some (Inr st)"
    "represents ?tm st" "st_window st = w" "st_capacity st = cap"
    by (auto simp: Store_new_def)
  have times: "times st = times (sy_store s)"
    using T(2) st(2) assms(1) by (auto simp: span_inv_def Let_def represents_def st(3,4) T(3,4) split: option.splits)
  have "seg_stats st i = map (\<lambda>u. tl_stat ?tm u i) (times st)"
    using st(2) by (auto simp: represents_def split: option.splits)
  moreover have "seg_stats (sy_store s) i = map (\<lambda>u. tl_stat ?tm u i) (times (sy_store s))"
    using quiet_stat [OF inv T(1,2) assms(4)] T(3) by simp
  moreover have "task_of recorded_of t tr = task_of begun_of t tr"
    using T(1) quiet_work [OF assms(4)] by (metis append_Nil2 work_inv_def)
  moreover have "store_inv (sy_store s)"
    using quiet_store_inv [OF inv contents_reach [OF assms(1,2) trace_reach [OF assms(3)]] T(1) assms(4)] .
  ultimately show ?thesis using st(1) times by simp
qed

text \<open>A run: when no task is at work, a batch for the next window creates its segment, then records.\<close>

lemma opening_trace:
  assumes W: "0 < w" "u64_range w" and tr: "trace en oc (Sys_init (Store_new w cap)) tr s"
    and idle: "sy_pc s = (\<lambda>_. Idle)" and b: "update_ok oc (b, ms)" "w dvd b"
    and u: "next_segment_ts w b (segs s) = Inr (Some b)"
  shows "\<exists>tr' s'. trace en oc (Sys_init (Store_new w cap)) tr' s' \<and> sy_pc s' = (\<lambda>_. Idle)(0 := Recording b [] ms)
    \<and> task_of begun_of 0 tr' = task_of begun_of 0 tr @ [(b, ms)] \<and> segs s' = push_segment cap b (segs s)"
proof -
  let ?s1 = "goto 0 (Trying b ms) s"
  let ?s2 = "goto 0 (Checking b ms) (lock_read 0 ?s1)"
  let ?s3 = "goto 0 (Upgrading b ms) (unlock_read 0 ?s2)"
  let ?s4 = "goto 0 (Creating b ms) (?s3\<lparr>sy_writer := Some 0\<rparr>)"
  let ?s5 = "set_segments (push_segment (st_capacity (sy_store ?s4)) b (segs ?s4)) ?s4"
  let ?s6 = "goto 0 (Rereading b ms) (?s5\<lparr>sy_writer := None\<rparr>)"
  let ?s7 = "goto 0 (Recording b [] ms) (lock_read 0 ?s6)"
  have st: "st_window (sy_store s) = w" "st_capacity (sy_store s) = cap" using trace_inv [OF W tr] by simp_all
  have "lock_inv s" using sys_invD(1) [OF reachable_inv [OF W trace_reach [OF tr]]] .
  then have lock: "sy_writer s = None" "sy_readers s = {}"
    by (auto simp: lock_inv_def idle reading_def writing_def)
  have nc: "\<not> is_current b (segs s)"
    using next_SomeD [OF u] W(1) by (auto simp: is_current_def deque_back_def)
  have "trunc b w = Inr b" using b W by (simp add: trunc_eq update_ok_def start_self)
  then have "lstep en oc 0 s ?s1" using b(1) by (intro begin_update [of _ _ _ b]) (simp_all add: idle st)
  note t1 = trace_step [OF tr this]
  have "lstep en oc 0 ?s1 ?s2" by (rule acquire_read) (simp_all add: sys_defs lock)
  note t2 = trace_step [OF t1 this]
  have "lstep en oc 0 ?s2 ?s3" by (rule slow_path) (simp_all add: sys_defs nc)
  note t3 = trace_step [OF t2 this]
  have "lstep en oc 0 ?s3 ?s4" by (rule acquire_write) (simp_all add: sys_defs lock)
  note t4 = trace_step [OF t3 this]
  have "lstep en oc 0 ?s4 ?s5" by (rule create) (use u in \<open>simp_all add: sys_defs st\<close>)
  note t5 = trace_step [OF t4 this]
  have "next_segment_ts w b (push_segment cap b (segs s)) = Inr None"
    by (simp add: next_segment_ts_def deque_back_def push_segment_def new_segment_def)
  then have "lstep en oc 0 ?s5 ?s6" by (intro drop_write) (simp_all add: sys_defs st)
  note t6 = trace_step [OF t5 this]
  have "lstep en oc 0 ?s6 ?s7" by (rule reacquire) (simp_all add: sys_defs)
  note t7 = trace_step [OF t6 this]
  show ?thesis
    by (rule exI, rule exI, rule conjI, rule t7) (auto simp: sys_defs act_of_def idle st task_of_def all_of_def)
qed

lemma recording_trace:
  assumes "update_ok oc (0, ms)"
  shows "\<exists>tr s. trace en oc (Sys_init (Store_new 100 4)) tr s \<and> sy_pc s = (\<lambda>_. Idle)(0 := Recording 0 [] ms)
    \<and> task_of begun_of 0 tr = [(0, ms)]"
  using opening_trace [OF _ _ trace_init _ assms, of 100 4 en]
  by (auto simp: Sys_init_def Store_new_def next_segment_ts_def deque_back_def)

theorem store_linearizable_witness:
  "\<exists>tr s st. trace Little True (Sys_init (Store_new 100 4)) tr s
     \<and> task_of begun_of 0 tr = [(0, create_messages)]
     \<and> run_updates Little True (history tr) (Store_new 100 4) = Some (Inr st)
     \<and> seg_stats st All = seg_stats (sy_store s) All"
proof -
  have ok: "update_ok True (0, create_messages)"
    by (auto simp: update_ok_def create_messages_def msg_no_panic_def)
  obtain tr s where 1: "trace Little True (Sys_init (Store_new 100 4)) tr s"
    "sy_pc s = (\<lambda>_. Idle)(0 := Recording 0 [] create_messages)" "task_of begun_of 0 tr = [(0, create_messages)]"
    using recording_trace [OF ok] by blast
  then obtain tr' s' where 2: "trace Little True (Sys_init (Store_new 100 4)) tr' s'"
    "sy_pc s' = (sy_pc s)(0 := Idle)" "task_of begun_of 0 tr' = [(0, create_messages)]"
    using recording_ends [OF _ _ 1(1), of 0] by auto
  have "quiet s'" by (simp add: quiet_def 1(2) 2(2))
  then show ?thesis using store_linearizable [OF _ _ 2(1), of All 0] 2(1,3) by auto
qed

end
