(* ===== verification/Ip_Text.thy ===== *)
theory Ip_Text
  imports Common_Types
begin

text \<open>
  Text of numbers and IP addresses, as the filter grammar reads it through the
  standard library: \<^verbatim>\<open>str::parse::<u32>\<close>, \<^verbatim>\<open>str::parse::<u16>\<close> and
  \<^verbatim>\<open>str::parse::<IpAddr>\<close> (its recursive-descent reader: decimal octets of at
  most three digits without a leading zero, hexadecimal groups of at most four digits,
  one \<open>::\<close>, an optional trailing dotted quad). A reader returns the value and the
  rest of the input, or \<^term>\<open>None\<close>, leaving its input where it was.
\<close>

type_synonym 'a reader = "string \<Rightarrow> ('a \<times> string) option"

section \<open>Digits\<close>

text \<open>\<^verbatim>\<open>char::to_digit\<close>.\<close>

definition to_digit :: "nat \<Rightarrow> char \<Rightarrow> nat option" where
  "to_digit radix c =
     (let n = of_char c :: nat;
          d = (if 48 \<le> n \<and> n \<le> 57 then n - 48
               else if 97 \<le> n \<and> n \<le> 122 then n - 97 + 10
               else if 65 \<le> n \<and> n \<le> 90 then n - 65 + 10
               else 36)
      in if d < radix then Some d else None)"

text \<open>The digit loop of \<^verbatim>\<open>read_number\<close>: value so far, digits read so far.\<close>

fun read_digits :: "nat \<Rightarrow> nat \<Rightarrow> nat \<Rightarrow> nat \<Rightarrow> nat \<Rightarrow> string \<Rightarrow> ((nat \<times> nat) \<times> string) option" where
  "read_digits radix maxv maxd acc cnt [] = Some ((acc, cnt), [])"
| "read_digits radix maxv maxd acc cnt (c # cs) =
     (case to_digit radix c of
        None \<Rightarrow> Some ((acc, cnt), c # cs)
      | Some d \<Rightarrow>
          if maxv < acc * radix + d then None
          else if maxd < Suc cnt then None
          else read_digits radix maxv maxd (acc * radix + d) (Suc cnt) cs)"

definition read_number :: "nat \<Rightarrow> nat \<Rightarrow> nat \<Rightarrow> bool \<Rightarrow> nat reader" where
  "read_number radix maxv maxd allow_zero_prefix s =
     (case read_digits radix maxv maxd 0 0 s of
        None \<Rightarrow> None
      | Some ((v, cnt), rest) \<Rightarrow>
          if cnt = 0 then None
          else if \<not> allow_zero_prefix \<and> s \<noteq> [] \<and> hd s = CHR ''0'' \<and> 1 < cnt then None
          else Some (v, rest))"

text \<open>\<open>str::parse\<close> of an unsigned integer, on a string of decimal digits: an error
  when the value does not fit (or the string is empty).\<close>

fun digits_value :: "nat \<Rightarrow> string \<Rightarrow> nat option" where
  "digits_value acc [] = Some acc"
| "digits_value acc (c # cs) =
     (case to_digit 10 c of None \<Rightarrow> None | Some d \<Rightarrow> digits_value (acc * 10 + d) cs)"

definition parse_uint :: "nat \<Rightarrow> string \<Rightarrow> nat option" where
  "parse_uint width s =
     (if s = [] then None
      else case digits_value 0 s of
        None \<Rightarrow> None
      | Some v \<Rightarrow> if v < 2 ^ width then Some v else None)"

section \<open>Addresses\<close>

definition read_given_char :: "char \<Rightarrow> unit reader" where
  "read_given_char c s = (case s of x # xs \<Rightarrow> if x = c then Some ((), xs) else None | [] \<Rightarrow> None)"

text \<open>\<^verbatim>\<open>read_separator\<close>: a separator before every element but the first.\<close>

definition read_separator :: "char \<Rightarrow> nat \<Rightarrow> 'a reader \<Rightarrow> 'a reader" where
  "read_separator sep index inner s =
     (if 0 < index then
        (case read_given_char sep s of None \<Rightarrow> None | Some (_, s') \<Rightarrow> inner s')
      else inner s)"

definition read_octet :: "nat \<Rightarrow> nat reader" where
  "read_octet i = read_separator (CHR ''.'') i (read_number 10 255 3 False)"

definition octets_value :: "nat \<Rightarrow> nat \<Rightarrow> nat \<Rightarrow> nat \<Rightarrow> u32" where
  "octets_value a b c d = of_nat (a * 2 ^ 24 + b * 2 ^ 16 + c * 2 ^ 8 + d)"

definition read_ipv4_octets :: "(nat \<times> nat \<times> nat \<times> nat) reader" where
  "read_ipv4_octets s =
     (case read_octet 0 s of None \<Rightarrow> None | Some (a, s1) \<Rightarrow>
      (case read_octet 1 s1 of None \<Rightarrow> None | Some (b, s2) \<Rightarrow>
       (case read_octet 2 s2 of None \<Rightarrow> None | Some (c, s3) \<Rightarrow>
        (case read_octet 3 s3 of None \<Rightarrow> None | Some (d, s4) \<Rightarrow> Some ((a, b, c, d), s4)))))"

definition read_ipv4_addr :: "u32 reader" where
  "read_ipv4_addr s =
     (case read_ipv4_octets s of None \<Rightarrow> None
      | Some ((a, b, c, d), rest) \<Rightarrow> Some (octets_value a b c d, rest))"

text \<open>\<^verbatim>\<open>read_groups\<close>: from group \<open>i\<close>, at most \<open>limit\<close> groups; the groups read, whether
  a dotted quad ended them, and the rest of the input.\<close>

function read_groups :: "nat \<Rightarrow> nat \<Rightarrow> u16 list \<Rightarrow> string \<Rightarrow> (u16 list \<times> bool) \<times> string" where
  "read_groups limit i gs s =
     (if limit \<le> i then ((gs, False), s)
      else case (if i < limit - 1
                 then read_separator (CHR '':'') i read_ipv4_octets s else None) of
        Some ((a, b, c, d), rest) \<Rightarrow>
          ((gs @ [of_nat (a * 256 + b), of_nat (c * 256 + d)], True), rest)
      | None \<Rightarrow>
          (case read_separator (CHR '':'') i (read_number 16 65535 4 True) s of
             Some (g, rest) \<Rightarrow> read_groups limit (Suc i) (gs @ [of_nat g]) rest
           | None \<Rightarrow> ((gs, False), s)))"
  by pat_completeness auto
termination
  by (relation "measure (\<lambda>(limit, i, gs, s). limit - i)") auto

declare read_groups.simps [simp del]

definition arr8_of_list :: "u16 list \<Rightarrow> u16x8" where
  "arr8_of_list gs = Arr8 (gs ! 0) (gs ! 1) (gs ! 2) (gs ! 3) (gs ! 4) (gs ! 5) (gs ! 6) (gs ! 7)"

definition read_ipv6_addr :: "u16x8 reader" where
  "read_ipv6_addr s =
     (case read_groups 8 0 [] s of ((head, head_ipv4), s1) \<Rightarrow>
        if length head = 8 then Some (arr8_of_list head, s1)
        else if head_ipv4 then None
        else case read_given_char (CHR '':'') s1 of None \<Rightarrow> None | Some (_, s2) \<Rightarrow>
          (case read_given_char (CHR '':'') s2 of None \<Rightarrow> None | Some (_, s3) \<Rightarrow>
            (case read_groups (8 - (length head + 1)) 0 [] s3 of ((tail, _), s4) \<Rightarrow>
               Some (arr8_of_list (head @ replicate (8 - length head - length tail) 0 @ tail), s4))))"

definition parse_ip :: "string \<Rightarrow> StdIpAddr option" where
  "parse_ip s =
     (case read_ipv4_addr s of
        Some (a, rest) \<Rightarrow> if rest = [] then Some (V4 a) else None
      | None \<Rightarrow>
         (case read_ipv6_addr s of
            Some (a, rest) \<Rightarrow> if rest = [] then Some (V6 a) else None
          | None \<Rightarrow> None))"

section \<open>Printing\<close>

text \<open>
  A canonical text for numbers and addresses: the reference against which the
  readers are proved to be inverse.
\<close>

definition digit_char :: "nat \<Rightarrow> char" where
  "digit_char d = char_of (if d < 10 then 48 + d else 87 + d)"

fun show_num :: "nat \<Rightarrow> nat \<Rightarrow> string" where
  "show_num radix n =
     (if radix < 2 \<or> n < radix then [digit_char n]
      else show_num radix (n div radix) @ [digit_char (n mod radix)])"

declare show_num.simps [simp del]

definition show_ipv4 :: "u32 \<Rightarrow> string" where
  "show_ipv4 a =
     show_num 10 (unat a div 2 ^ 24) @ ''.'' @ show_num 10 (unat a div 2 ^ 16 mod 256) @ ''.'' @
     show_num 10 (unat a div 2 ^ 8 mod 256) @ ''.'' @ show_num 10 (unat a mod 256)"

fun show_groups :: "nat \<Rightarrow> u16 list \<Rightarrow> string" where
  "show_groups i [] = []"
| "show_groups i (g # gs) =
     (if 0 < i then '':'' else []) @ show_num 16 (unat g) @ show_groups (Suc i) gs"

fun arr8_list :: "u16x8 \<Rightarrow> u16 list" where
  "arr8_list (Arr8 a b c d e f g h) = [a, b, c, d, e, f, g, h]"

fun show_ip :: "StdIpAddr \<Rightarrow> string" where
  "show_ip (V4 a) = show_ipv4 a"
| "show_ip (V6 a) = show_groups 0 (arr8_list a)"

section \<open>Numbers read back\<close>

lemma of_char_digit_char: "d < 16 \<Longrightarrow> (of_char (digit_char d) :: nat) = (if d < 10 then 48 + d else 87 + d)"
  by (simp add: digit_char_def)

lemma to_digit_digit_char: "d < radix \<Longrightarrow> radix \<le> 16 \<Longrightarrow> to_digit radix (digit_char d) = Some d"
  by (simp add: to_digit_def of_char_digit_char Let_def)

lemma show_num_ne [simp]: "show_num radix n \<noteq> []"
  by (subst show_num.simps) simp

lemma length_show_num:
  "2 \<le> radix \<Longrightarrow> n < radix ^ Suc k \<Longrightarrow> length (show_num radix n) \<le> Suc k"
proof (induction radix n arbitrary: k rule: show_num.induct)
  case (1 radix n)
  show ?case
  proof (cases "n < radix")
    case False
    with "1.prems" obtain j where k: "k = Suc j" by (cases k) auto
    with "1.prems" have "n div radix < radix ^ Suc j"
      by (simp add: less_mult_imp_div_less mult.commute)
    with False "1.prems" k "1.IH" [of j] show ?thesis
      by (subst show_num.simps) simp
  qed (subst show_num.simps, simp)
qed

text \<open>Where a number ends: at the end of the text or before a character that is no digit.\<close>

definition stops :: "nat \<Rightarrow> string \<Rightarrow> bool" where
  "stops radix s \<longleftrightarrow> s = [] \<or> to_digit radix (hd s) = None"

lemma read_digits_show_num:
  assumes "2 \<le> radix" "radix \<le> 16"
    and "acc * radix ^ length (show_num radix n) + n \<le> maxv"
    and "cnt + length (show_num radix n) \<le> maxd"
  shows "read_digits radix maxv maxd acc cnt (show_num radix n @ rest) =
    read_digits radix maxv maxd (acc * radix ^ length (show_num radix n) + n)
      (cnt + length (show_num radix n)) rest"
  using assms
proof (induction radix n arbitrary: rest rule: show_num.induct)
  case (1 radix n)
  show ?case
  proof (cases "n < radix")
    case True
    with "1.prems" show ?thesis
      by (simp add: show_num.simps [of radix n] to_digit_digit_char)
  next
    case False
    let ?q = "n div radix" and ?k = "length (show_num radix (n div radix))"
    have unfold: "show_num radix n = show_num radix ?q @ [digit_char (n mod radix)]"
      using False "1.prems"(1) by (subst show_num.simps) simp
    have val: "(acc * radix ^ ?k + ?q) * radix + n mod radix = acc * radix ^ Suc ?k + n"
      by (simp add: algebra_simps)
    have "acc * radix ^ ?k + ?q \<le> (acc * radix ^ ?k + ?q) * radix + n mod radix"
      using "1.prems"(1) by (simp add: trans_le_add1)
    also have "\<dots> \<le> maxv" using "1.prems"(3) unfold val by simp
    finally have "acc * radix ^ ?k + ?q \<le> maxv" .
    with "1.prems" False unfold have IH: "read_digits radix maxv maxd acc cnt
        (show_num radix ?q @ digit_char (n mod radix) # rest) =
      read_digits radix maxv maxd (acc * radix ^ ?k + ?q) (cnt + ?k) (digit_char (n mod radix) # rest)"
      by (intro "1.IH") simp_all
    have "to_digit radix (digit_char (n mod radix)) = Some (n mod radix)"
      using "1.prems" by (intro to_digit_digit_char) simp_all
    then show ?thesis
      using "1.prems" IH by (simp add: unfold val)
  qed
qed

lemma read_digits_stops: "stops radix s \<Longrightarrow> read_digits radix maxv maxd acc cnt s = Some ((acc, cnt), s)"
  by (cases s) (auto simp: stops_def)

lemma hd_show_num_zero:
  "2 \<le> radix \<Longrightarrow> radix \<le> 16 \<Longrightarrow> hd (show_num radix n) = CHR ''0'' \<Longrightarrow> n = 0"
proof (induction radix n rule: show_num.induct)
  case (1 radix n)
  show ?case
  proof (cases "n < radix")
    case True
    with "1.prems" have "to_digit radix (CHR ''0'') = Some n"
      using to_digit_digit_char [of n radix] by (simp add: show_num.simps [of radix n])
    with "1.prems" show ?thesis by (simp add: to_digit_def Let_def split: if_splits)
  next
    case False
    with "1.prems" have "hd (show_num radix (n div radix)) = CHR ''0''"
      by (simp add: show_num.simps [of radix n])
    with False "1.prems" "1.IH" have "n div radix = 0" by simp
    with False "1.prems" show ?thesis by (simp add: div_eq_0_iff)
  qed
qed

lemma read_number_show_num:
  assumes "2 \<le> radix" "radix \<le> 16" "n \<le> maxv" "n < radix ^ Suc k" "Suc k \<le> maxd" "stops radix rest"
  shows "read_number radix maxv maxd z (show_num radix n @ rest) = Some (n, rest)"
proof -
  let ?l = "length (show_num radix n)"
  have "?l \<le> maxd" using length_show_num [OF assms(1,4)] assms(5) by simp
  then have rd: "read_digits radix maxv maxd 0 0 (show_num radix n @ rest) = Some ((n, ?l), rest)"
    using assms by (simp add: read_digits_show_num read_digits_stops)
  have "?l = 1" if "hd (show_num radix n) = CHR ''0''"
    using hd_show_num_zero [OF assms(1,2) that] assms(1) by (subst show_num.simps) simp
  then show ?thesis
    by (auto simp: read_number_def rd)
qed

lemma digits_value_show_num:
  "digits_value acc (show_num 10 n @ rest) = digits_value (acc * 10 ^ length (show_num 10 n) + n) rest"
proof (induction "10::nat" n arbitrary: rest rule: show_num.induct)
  case (1 n)
  show ?case
  proof (cases "n < 10")
    case True
    then show ?thesis by (simp add: show_num.simps [of 10 n] to_digit_digit_char)
  next
    case False
    with "1" show ?thesis
      by (simp add: show_num.simps [of 10 n] to_digit_digit_char algebra_simps)
  qed
qed

lemma parse_uint_show_num: "n < 2 ^ width \<Longrightarrow> parse_uint width (show_num 10 n) = Some n"
  using digits_value_show_num [of 0 n "[]"] by (simp add: parse_uint_def)

lemma parse_uint_bound: "parse_uint width s = Some n \<Longrightarrow> n < 2 ^ width"
  by (auto simp: parse_uint_def split: option.splits if_splits)

section \<open>Addresses read back\<close>

lemma stops_dot: "stops 10 (CHR ''.'' # s)"
  and stops_colon: "stops 16 (CHR '':'' # s)"
  and stops_Nil: "stops radix []"
  by (simp_all add: stops_def to_digit_def)

lemma read_octet_show:
  assumes "n < 256" "stops 10 rest"
  shows "read_octet 0 (show_num 10 n @ rest) = Some (n, rest)"
    and "0 < i \<Longrightarrow> read_octet i (CHR ''.'' # show_num 10 n @ rest) = Some (n, rest)"
  using assms read_number_show_num [of 10 n 255 2 3 rest False]
  by (simp_all add: read_octet_def read_separator_def read_given_char_def)

lemma octets_sum:
  "q1 * 256 + r0 = a \<Longrightarrow> q2 * 256 + r1 = q1 \<Longrightarrow> q3 * 256 + r2 = q2 \<Longrightarrow>
   q3 * 16777216 + r2 * 65536 + r1 * 256 + r0 = a" for a :: nat
  by simp

lemma octets_split:
  "a div 16777216 * 16777216 + a div 65536 mod 256 * 65536 + a div 256 mod 256 * 256 + a mod 256 = a"
  for a :: nat
proof (rule octets_sum)
  show "a div 256 * 256 + a mod 256 = a" by (rule div_mult_mod_eq)
  have "a div 65536 = a div 256 div 256" by (simp flip: div_mult2_eq)
  then show "a div 65536 * 256 + a div 256 mod 256 = a div 256"
    by (simp only: div_mult_mod_eq)
  have "a div 16777216 = a div 65536 div 256" by (simp flip: div_mult2_eq)
  then show "a div 16777216 * 256 + a div 65536 mod 256 = a div 65536"
    by (simp only: div_mult_mod_eq)
qed

lemma read_ipv4_show: "read_ipv4_addr (show_ipv4 a) = Some (a, [])"
proof -
  have "unat a < 2 ^ 32" using unsigned_less [of a] by simp
  then have "unat a div 2 ^ 24 < 256" by simp
  then have "read_ipv4_octets (show_ipv4 a) = Some ((unat a div 2 ^ 24, unat a div 2 ^ 16 mod 256,
      unat a div 2 ^ 8 mod 256, unat a mod 256), [])"
    unfolding read_ipv4_octets_def show_ipv4_def
    using read_octet_show(2) [of "unat a mod 256" "[]" 3]
    by (simp add: read_octet_show stops_dot stops_Nil)
  then show ?thesis
    using octets_split [of "unat a"]
    by (simp add: read_ipv4_addr_def octets_value_def del: of_nat_add of_nat_mult)
qed

text \<open>A text without a dot is no dotted quad.\<close>

lemma read_digits_suffix:
  "read_digits radix maxv maxd acc cnt s = Some (vc, rest) \<Longrightarrow> set rest \<subseteq> set s"
  by (induction radix maxv maxd acc cnt s rule: read_digits.induct)
    (auto split: option.splits if_splits)

lemma read_number_suffix: "read_number radix maxv maxd z s = Some (v, rest) \<Longrightarrow> set rest \<subseteq> set s"
  by (auto simp: read_number_def dest!: read_digits_suffix split: option.splits if_splits)

lemma read_octet_no_dot: "0 < i \<Longrightarrow> CHR ''.'' \<notin> set s \<Longrightarrow> read_octet i s = None"
  by (auto simp: read_octet_def read_separator_def read_given_char_def split: list.splits)

lemma read_ipv4_no_dot:
  assumes "CHR ''.'' \<notin> set s"
  shows "read_ipv4_octets s = None"
proof (cases "read_octet 0 s")
  case (Some ar)
  then obtain a rest where "ar = (a, rest)" and "set rest \<subseteq> set s"
    by (cases ar) (auto simp: read_octet_def read_separator_def dest: read_number_suffix)
  with Some assms have "read_octet 1 rest = None"
    by (auto intro: read_octet_no_dot)
  with Some \<open>ar = (a, rest)\<close> show ?thesis
    by (simp add: read_ipv4_octets_def)
qed (simp add: read_ipv4_octets_def)

lemma read_separator_no_dot:
  "CHR ''.'' \<notin> set s \<Longrightarrow> read_separator sep i read_ipv4_octets s = None"
  by (cases s) (auto simp: read_separator_def read_given_char_def read_ipv4_no_dot)

lemma digit_char_no_dot: "d < 16 \<Longrightarrow> digit_char d \<noteq> CHR ''.''"
  using of_char_digit_char [of d] by (auto split: if_splits)

lemma show_num_digits:
  "2 \<le> radix \<Longrightarrow> c \<in> set (show_num radix n) \<Longrightarrow> \<exists>d < radix. c = digit_char d"
proof (induction radix n rule: show_num.induct)
  case (1 radix n)
  then show ?case
    by (subst (asm) (2) show_num.simps) (auto split: if_splits intro: exI [of _ "n mod radix"])
qed

lemma show_groups_no_dot: "CHR ''.'' \<notin> set (show_groups i gs)"
  using show_num_digits [of 16] digit_char_no_dot
  by (induction i gs rule: show_groups.induct) (auto, metis+)

lemma stops_show_groups: "0 < i \<Longrightarrow> stops 16 (show_groups i gs)"
  by (cases gs) (simp_all add: stops_colon stops_Nil)

lemma read_groups_show:
  "i + length gs2 = 8 \<Longrightarrow> read_groups 8 i gs (show_groups i gs2) = ((gs @ gs2, False), [])"
proof (induction i gs2 arbitrary: gs rule: show_groups.induct)
  case (1 i)
  then show ?case by (simp add: read_groups.simps)
next
  case (2 i g gs2)
  let ?s = "show_groups i (g # gs2)"
  have no4: "read_separator (CHR '':'') i read_ipv4_octets ?s = None"
    using show_groups_no_dot [of i "g # gs2"] by (rule read_separator_no_dot)
  have "read_number 16 65535 4 True (show_num 16 (unat g) @ show_groups (Suc i) gs2)
      = Some (unat g, show_groups (Suc i) gs2)"
  proof (rule read_number_show_num [of _ _ _ 3])
    have "unat g < 2 ^ 16" using unsigned_less [of g] by simp
    then show "unat g \<le> 65535" and "unat g < 16 ^ Suc 3" by simp_all
    show "stops 16 (show_groups (Suc i) gs2)" by (simp add: stops_show_groups)
  qed simp_all
  then have "read_separator (CHR '':'') i (read_number 16 65535 4 True) ?s
      = Some (unat g, show_groups (Suc i) gs2)"
    by (cases "i = 0") (simp_all add: read_separator_def read_given_char_def)
  with 2 no4 show ?case
    by (subst read_groups.simps) (simp del: show_groups.simps)
qed

lemma parse_show_ip [simp]: "parse_ip (show_ip a) = Some a"
proof (cases a)
  case (V4 x)
  then show ?thesis by (simp add: parse_ip_def read_ipv4_show)
next
  case (V6 x)
  let ?s = "show_groups 0 (arr8_list x)"
  have len: "length (arr8_list x) = 8" and arr: "arr8_of_list (arr8_list x) = x"
    by (cases x; simp add: arr8_of_list_def)+
  have "read_ipv4_addr ?s = None"
    using show_groups_no_dot [of 0 "arr8_list x"] by (simp add: read_ipv4_addr_def read_ipv4_no_dot)
  moreover have "read_ipv6_addr ?s = Some (x, [])"
    using read_groups_show [of 0 "arr8_list x" "[]"] len arr by (simp add: read_ipv6_addr_def)
  ultimately show ?thesis using V6 by (simp add: parse_ip_def)
qed

end
