(* ===== verification/Filter_Parser.thy ===== *)
theory Filter_Parser
  imports Filter_Lang Ip_Text
begin

text \<open>
  The grammar of \<^verbatim>\<open>ptraf-filter/src/frontend.rs\<close>, rule by rule, under the meaning of
  a parsing expression grammar: sequence, ordered choice without backtracking into a
  chosen alternative, greedy repetition; a rule whose action returns an error fails.
  \<^verbatim>\<open>precedence!\<close> is precedence climbing: an atom, then a loop over the infix
  operators of a level at or above the minimum precedence, each right operand parsed
  one level up.

  A rule maps the input to the value and the rest of the input. The recursive rules take
  fuel: \<open>OutOfFuel\<close> is kept apart from a failure of the grammar, and
  \<open>Suc (length s)\<close> units are proved to be enough for an input \<open>s\<close>.
  The position carried by a parse error is not modelled.
\<close>

section \<open>Lexical rules\<close>

definition is_blank :: "char \<Rightarrow> bool" where
  "is_blank c \<longleftrightarrow> c = CHR '' '' \<or> c = CHR 0x09"

definition ws :: "string \<Rightarrow> string" where
  "ws s = dropWhile is_blank s"

fun lit :: "string \<Rightarrow> string \<Rightarrow> string option" where
  "lit [] s = Some s"
| "lit (k # ks) [] = None"
| "lit (k # ks) (c # cs) = (if k = c then lit ks cs else None)"

definition lit_or :: "string \<Rightarrow> string \<Rightarrow> string \<Rightarrow> string option" where
  "lit_or k1 k2 s = (case lit k1 s of Some r \<Rightarrow> Some r | None \<Rightarrow> lit k2 s)"

definition many1 :: "(char \<Rightarrow> bool) \<Rightarrow> string reader" where
  "many1 p s = (if takeWhile p s = [] then None else Some (takeWhile p s, dropWhile p s))"

definition is_dec :: "char \<Rightarrow> bool" where
  "is_dec c \<longleftrightarrow> 48 \<le> (of_char c :: nat) \<and> (of_char c :: nat) \<le> 57"

definition is_addr_char :: "char \<Rightarrow> bool" where
  "is_addr_char c \<longleftrightarrow> is_dec c \<or> 97 \<le> (of_char c :: nat) \<and> (of_char c :: nat) \<le> 102
     \<or> 65 \<le> (of_char c :: nat) \<and> (of_char c :: nat) \<le> 70 \<or> c = CHR '':'' \<or> c = CHR ''.''"

definition choice :: "'a reader \<Rightarrow> 'a reader \<Rightarrow> 'a reader" where
  "choice p q s = (case p s of Some r \<Rightarrow> Some r | None \<Rightarrow> q s)"

section \<open>Operands\<close>

text \<open>\<open>_ "key" _\<close> and \<open>_ "key[" n "]" _\<close>.\<close>

definition keyword :: "string \<Rightarrow> Expr \<Rightarrow> Expr reader" where
  "keyword k e s = (case lit k (ws s) of None \<Rightarrow> None | Some r \<Rightarrow> Some (e, ws r))"

definition bracketed :: "string \<Rightarrow> 'a reader \<Rightarrow> ('a \<Rightarrow> Expr option) \<Rightarrow> Expr reader" where
  "bracketed k p act s =
     (case lit k (ws s) of None \<Rightarrow> None | Some s1 \<Rightarrow>
      (case p s1 of None \<Rightarrow> None | Some (n, s2) \<Rightarrow>
       (case lit '']'' s2 of None \<Rightarrow> None | Some s3 \<Rightarrow>
        (case act n of None \<Rightarrow> None | Some e \<Rightarrow> Some (e, ws s3)))))"

definition pid_rule :: "Expr reader" where
  "pid_rule = bracketed ''pid['' (many1 is_dec)
     (\<lambda>n. map_option (\<lambda>v. E_Pid (of_nat v)) (parse_uint 32 n))"

definition udp_rule :: "Expr reader" where
  "udp_rule = keyword ''udp'' (E_Protocol Udp)"

definition tcp_rule :: "Expr reader" where
  "tcp_rule = keyword ''tcp'' (E_Protocol Tcp)"

definition ipv4_rule :: "Expr reader" where
  "ipv4_rule = keyword ''ipv4'' (E_IpVersion IpV4)"

definition ipv6_rule :: "Expr reader" where
  "ipv6_rule = keyword ''ipv6'' (E_IpVersion IpV6)"

definition port_number :: "u16 reader" where
  "port_number s =
     (case many1 is_dec s of None \<Rightarrow> None | Some (n, r) \<Rightarrow>
       (case parse_uint 16 n of None \<Rightarrow> None | Some v \<Rightarrow> Some (of_nat v, r)))"

definition port_rule :: "Expr reader" where
  "port_rule = bracketed ''port['' port_number (Some \<circ> E_Port)"

definition local_port_rule :: "Expr reader" where
  "local_port_rule = bracketed ''lport['' port_number (Some \<circ> E_LocalPort)"

definition remote_port_rule :: "Expr reader" where
  "remote_port_rule = bracketed ''rport['' port_number (Some \<circ> E_RemotePort)"

definition ports_rule :: "Expr reader" where
  "ports_rule = choice port_rule (choice local_port_rule remote_port_rule)"

definition addr_any :: "StdIpAddr reader" where
  "addr_any s =
     (case many1 is_addr_char s of None \<Rightarrow> None | Some (n, r) \<Rightarrow>
       (case parse_ip n of None \<Rightarrow> None | Some v \<Rightarrow> Some (v, r)))"

definition addr_rule :: "Expr reader" where
  "addr_rule = bracketed ''addr['' addr_any (Some \<circ> E_Addr)"

definition local_addr_rule :: "Expr reader" where
  "local_addr_rule = bracketed ''laddr['' addr_any (Some \<circ> E_LocalAddr)"

definition remote_addr_rule :: "Expr reader" where
  "remote_addr_rule = bracketed ''raddr['' addr_any (Some \<circ> E_RemoteAddr)"

definition addrs_rule :: "Expr reader" where
  "addrs_rule = choice addr_rule (choice local_addr_rule remote_addr_rule)"

definition operand :: "Expr reader" where
  "operand = choice pid_rule (choice udp_rule (choice tcp_rule (choice ipv4_rule
     (choice ipv6_rule (choice ports_rule addrs_rule)))))"

section \<open>Precedence climbing\<close>

datatype 'a presult = Matched 'a string | Failed | OutOfFuel

text \<open>
  The pieces of the recursive rule take the parser they call as an argument.
  \<open>logic_paren\<close> is \<open>"(" _ e:logic() _ ")"\<close>, which two alternatives share;
  \<open>logic_atom\<close> is the ordered choice of the four alternatives without \<open>@\<close>;
  \<open>logic_infix\<close> is one infix operator after its left operand, and \<open>logic_loop\<close> the loop
  over them: their level is the lowest, 0, so it is tried only when the minimum
  precedence is 0.
\<close>

definition logic_paren :: "(string \<Rightarrow> Expr presult) \<Rightarrow> string \<Rightarrow> Expr presult" where
  "logic_paren rec s =
     (case lit ''('' s of
        None \<Rightarrow> Failed
      | Some s1 \<Rightarrow>
          (case rec (ws s1) of
             Matched e s2 \<Rightarrow>
               (case lit '')'' (ws s2) of Some s3 \<Rightarrow> Matched e s3 | None \<Rightarrow> Failed)
           | r \<Rightarrow> r))"

definition operand_or_paren :: "(string \<Rightarrow> Expr presult) \<Rightarrow> string \<Rightarrow> Expr presult" where
  "operand_or_paren rec s =
     (case operand s of Some (e, s2) \<Rightarrow> Matched e s2 | None \<Rightarrow> logic_paren rec s)"

definition logic_atom :: "(string \<Rightarrow> Expr presult) \<Rightarrow> string \<Rightarrow> Expr presult" where
  "logic_atom rec s =
     (case lit_or ''not'' ''!'' s of
        Some s1 \<Rightarrow>
          (case operand (ws s1) of
             Some (e, s2) \<Rightarrow> Matched (E_Not e) (ws s2)
           | None \<Rightarrow>
             (case logic_paren rec (ws s1) of
                Matched e s2 \<Rightarrow> Matched (E_Not e) (ws s2)
              | OutOfFuel \<Rightarrow> OutOfFuel
              | Failed \<Rightarrow> operand_or_paren rec s))
      | None \<Rightarrow> operand_or_paren rec s)"

definition logic_infix ::
  "(string \<Rightarrow> Expr presult) \<Rightarrow> string \<Rightarrow> string \<Rightarrow> (Expr \<Rightarrow> Expr) \<Rightarrow> string \<Rightarrow> Expr presult" where
  "logic_infix rec k1 k2 mk s =
     (case lit_or k1 k2 (ws s) of
        None \<Rightarrow> Failed
      | Some s1 \<Rightarrow>
          (case rec (ws s1) of Matched b s2 \<Rightarrow> Matched (mk b) s2 | r \<Rightarrow> r))"

text \<open>One round of the loop: the two operators of the level, in the order of the grammar.\<close>

definition logic_level :: "(string \<Rightarrow> Expr presult) \<Rightarrow> Expr \<Rightarrow> string \<Rightarrow> Expr presult" where
  "logic_level rec lhs s =
     (case logic_infix rec ''or'' ''||'' (E_Or lhs) s of
        Failed \<Rightarrow> logic_infix rec ''and'' ''&&'' (E_And lhs) s
      | r \<Rightarrow> r)"

primrec logic_loop ::
  "nat \<Rightarrow> (string \<Rightarrow> Expr presult) \<Rightarrow> nat \<Rightarrow> Expr \<Rightarrow> string \<Rightarrow> Expr presult" where
  "logic_loop 0 rec min_prec lhs s = OutOfFuel"
| "logic_loop (Suc fuel) rec min_prec lhs s =
     (if 0 < min_prec then Matched lhs s
      else case logic_level rec lhs s of
          Matched e s1 \<Rightarrow> logic_loop fuel rec min_prec e s1
        | OutOfFuel \<Rightarrow> OutOfFuel
        | Failed \<Rightarrow> Matched lhs s)"

primrec logic :: "nat \<Rightarrow> nat \<Rightarrow> string \<Rightarrow> Expr presult" where
  "logic 0 min_prec s = OutOfFuel"
| "logic (Suc fuel) min_prec s =
     (case logic_atom (logic fuel 0) s of
        Matched e s1 \<Rightarrow> logic_loop (Suc (length s1)) (logic fuel 1) min_prec e s1
      | r \<Rightarrow> r)"

text \<open>\<^verbatim>\<open>parser::filter\<close> accepts an input that \<open>logic\<close> matches up to its end;
  \<^verbatim>\<open>Interpretor::parse\<close> wraps the expression.\<close>

definition filter_rule :: "string \<Rightarrow> Expr option" where
  "filter_rule input =
     (case logic (Suc (length input)) 0 input of
        Matched e rest \<Rightarrow> if rest = [] then Some e else None
      | Failed \<Rightarrow> None
      | OutOfFuel \<Rightarrow> None)"

definition Interpretor_parse :: "string \<Rightarrow> Interpretor option" where
  "Interpretor_parse input = map_option (\<lambda>expr. \<lparr>ast = expr\<rparr>) (filter_rule input)"

section \<open>Every rule consumes input\<close>

lemma length_ws: "length (ws s) \<le> length s"
  by (simp add: ws_def length_dropWhile_le)

lemma lit_Some: "lit k s = Some r \<Longrightarrow> s = k @ r"
  by (induction k s rule: lit.induct) (auto split: if_splits)

lemma lit_append [simp]: "lit k (k @ r) = Some r"
  by (induction k) auto

lemma lit_or_length:
  "lit_or k1 k2 s = Some r \<Longrightarrow> k1 \<noteq> [] \<Longrightarrow> k2 \<noteq> [] \<Longrightarrow> length r < length s"
  by (auto simp: lit_or_def dest!: lit_Some split: option.splits)

lemma many1_length: "many1 p s = Some (n, r) \<Longrightarrow> length r < length s"
  by (metis many1_def length_append length_greater_0_conv less_add_same_cancel2 option.distinct(1)
      option.inject prod.inject takeWhile_dropWhile_id)

lemma keyword_length:
  assumes "keyword k e s = Some (x, r)" "k \<noteq> []"
  shows "length r < length s"
proof -
  obtain s1 where "ws s = k @ s1" "r = ws s1"
    using assms(1) by (auto simp: keyword_def dest!: lit_Some split: option.splits)
  then show ?thesis
    using assms(2) length_ws [of s] length_ws [of s1] by (cases k) auto
qed

lemma bracketed_length: "bracketed k p act s = Some (x, r) \<Longrightarrow> k \<noteq> [] \<Longrightarrow>
   (\<And>n t u. p t = Some (n, u) \<Longrightarrow> length u < length t) \<Longrightarrow> length r < length s"
proof -
  assume b: "bracketed k p act s = Some (x, r)" and k: "k \<noteq> []"
    and p: "\<And>n t u. p t = Some (n, u) \<Longrightarrow> length u < length t"
  then obtain s1 n s2 s3 where "lit k (ws s) = Some s1" "p s1 = Some (n, s2)"
      "lit '']'' s2 = Some s3" "r = ws s3"
    by (auto simp: bracketed_def split: option.splits)
  then show ?thesis
    using k length_ws [of s] length_ws [of s3] p [of s1 n s2] by (auto dest!: lit_Some)
qed

lemma port_number_length: "port_number s = Some (n, r) \<Longrightarrow> length r < length s"
  by (auto simp: port_number_def dest: many1_length split: option.splits)

lemma addr_any_length: "addr_any s = Some (n, r) \<Longrightarrow> length r < length s"
  by (auto simp: addr_any_def dest: many1_length split: option.splits)

lemmas rule_defs = pid_rule_def udp_rule_def tcp_rule_def ipv4_rule_def ipv6_rule_def
  ports_rule_def port_rule_def local_port_rule_def remote_port_rule_def
  addrs_rule_def addr_rule_def local_addr_rule_def remote_addr_rule_def

lemma choice_Some: "choice p q s = Some r \<Longrightarrow> p s = Some r \<or> q s = Some r"
  by (auto simp: choice_def split: option.splits)

lemma operand_length: "operand s = Some (e, r) \<Longrightarrow> length r < length s"
  unfolding operand_def rule_defs
  by (auto dest!: choice_Some
      dest: keyword_length bracketed_length [OF _ _ many1_length]
        bracketed_length [OF _ _ port_number_length] bracketed_length [OF _ _ addr_any_length])

section \<open>The contract of the parser a rule calls\<close>

text \<open>
  Each piece of the recursive rule relies on this of the parser it is given: a match
  consumes input, and inputs shorter than a bound do not run out of fuel. The pieces
  then keep the contract for inputs up to that bound, which closes the recursion.
\<close>

locale sub_parser =
  fixes rec :: "string \<Rightarrow> Expr presult" and bound :: nat
  assumes consumes: "rec s = Matched e r \<Longrightarrow> length r < length s"
    and in_fuel: "length s < bound \<Longrightarrow> rec s \<noteq> OutOfFuel"
begin

lemma paren_consumes:
  assumes "logic_paren rec s = Matched e r"
  shows "length r < length s"
proof -
  obtain s1 s2 where "lit ''('' s = Some s1" "rec (ws s1) = Matched e s2" "lit '')'' (ws s2) = Some r"
    using assms by (auto simp: logic_paren_def split: option.splits presult.splits)
  then show ?thesis
    using consumes [of "ws s1" e s2] length_ws [of s1] length_ws [of s2] by (auto dest!: lit_Some)
qed

lemma paren_in_fuel:
  assumes "length s \<le> bound"
  shows "logic_paren rec s \<noteq> OutOfFuel"
proof -
  have "rec (ws s1) \<noteq> OutOfFuel" if "lit ''('' s = Some s1" for s1
    using assms lit_Some [OF that] length_ws [of s1] by (intro in_fuel) simp
  then show ?thesis
    by (auto simp: logic_paren_def split: option.splits presult.splits)
qed

lemma operand_or_paren_consumes: "operand_or_paren rec s = Matched e r \<Longrightarrow> length r < length s"
  by (auto simp: operand_or_paren_def split: option.splits intro: operand_length paren_consumes)

lemma operand_or_paren_in_fuel: "length s \<le> bound \<Longrightarrow> operand_or_paren rec s \<noteq> OutOfFuel"
  by (auto simp: operand_or_paren_def paren_in_fuel split: option.splits)

lemma negation_shorter: "lit_or ''not'' ''!'' s = Some s1 \<Longrightarrow> length (ws s1) < length s"
  using lit_or_length [of "''not''" "''!''" s s1] length_ws [of s1] by simp

lemma atom_consumes:
  assumes "logic_atom rec s = Matched e r"
  shows "length r < length s"
proof (cases "lit_or ''not'' ''!'' s")
  case None
  with assms show ?thesis by (auto simp: logic_atom_def intro: operand_or_paren_consumes)
next
  case (Some s1)
  then have "length (ws s1) < length s" by (rule negation_shorter)
  with Some assms show ?thesis
    by (auto simp: logic_atom_def split: option.splits presult.splits
        dest!: operand_length paren_consumes operand_or_paren_consumes
        intro: le_less_trans [OF length_ws])
qed

lemma atom_in_fuel:
  assumes "length s \<le> bound"
  shows "logic_atom rec s \<noteq> OutOfFuel"
  using assms operand_or_paren_in_fuel negation_shorter [of s] paren_in_fuel
  by (fastforce simp: logic_atom_def split: option.splits presult.splits)

lemma infix_consumes:
  assumes "logic_infix rec k1 k2 mk s = Matched e r" "k1 \<noteq> []" "k2 \<noteq> []"
  shows "length r < length s"
proof -
  obtain s1 b where "lit_or k1 k2 (ws s) = Some s1" "rec (ws s1) = Matched b r"
    using assms(1) by (auto simp: logic_infix_def split: option.splits presult.splits)
  then show ?thesis
    using consumes [of "ws s1" b r] length_ws [of s] length_ws [of s1]
      lit_or_length [of k1 k2 "ws s" s1] assms(2,3) by simp
qed

lemma infix_in_fuel:
  assumes "length s \<le> bound" "k1 \<noteq> []" "k2 \<noteq> []"
  shows "logic_infix rec k1 k2 mk s \<noteq> OutOfFuel"
proof -
  have "rec (ws s1) \<noteq> OutOfFuel" if "lit_or k1 k2 (ws s) = Some s1" for s1
    using lit_or_length [OF that assms(2,3)] length_ws [of s] length_ws [of s1] assms(1)
    by (intro in_fuel) simp
  then show ?thesis
    by (auto simp: logic_infix_def split: option.splits presult.splits)
qed

lemma level_consumes: "logic_level rec lhs s = Matched e r \<Longrightarrow> length r < length s"
  by (auto simp: logic_level_def split: presult.splits intro: infix_consumes)

lemma level_in_fuel: "length s \<le> bound \<Longrightarrow> logic_level rec lhs s \<noteq> OutOfFuel"
  using infix_in_fuel by (auto simp: logic_level_def split: presult.splits)

lemma loop_consumes: "logic_loop n rec mp lhs s = Matched e r \<Longrightarrow> length r \<le> length s"
proof (induction n arbitrary: lhs s)
  case (Suc n)
  then show ?case
    by (fastforce split: if_splits presult.splits dest: level_consumes)
qed simp

lemma loop_in_fuel: "length s \<le> bound \<Longrightarrow> length s < n \<Longrightarrow> logic_loop n rec mp lhs s \<noteq> OutOfFuel"
proof (induction n arbitrary: lhs s)
  case (Suc n)
  have "logic_loop n rec mp e r \<noteq> OutOfFuel" if "logic_level rec lhs s = Matched e r" for e r
    using Suc level_consumes [OF that] by simp
  with Suc.prems level_in_fuel [of s lhs] show ?case
    by (auto split: presult.splits)
qed simp

end

lemma sub_parser_logic: "sub_parser (logic n mp) n"
proof (induction n arbitrary: mp)
  case 0
  show ?case by unfold_locales simp_all
next
  case (Suc n)
  show ?case
  proof
    fix s e r
    assume "logic (Suc n) mp s = Matched e r"
    then obtain a s1 where "logic_atom (logic n 0) s = Matched a s1"
        "logic_loop (Suc (length s1)) (logic n 1) mp a s1 = Matched e r"
      by (auto split: presult.splits simp del: logic_loop.simps)
    then have "length s1 < length s" "length r \<le> length s1"
      using sub_parser.atom_consumes [OF Suc] sub_parser.loop_consumes [OF Suc] by blast+
    then show "length r < length s" by simp
  next
    fix s :: string
    assume "length s < Suc n"
    then have len: "length s \<le> n" by simp
    have loop: "logic_loop (Suc (length s1)) (logic n 1) mp a s1 \<noteq> OutOfFuel"
      if "logic_atom (logic n 0) s = Matched a s1" for a s1
      using sub_parser.atom_consumes [OF Suc that] len
      by (intro sub_parser.loop_in_fuel [OF Suc]) simp_all
    with sub_parser.atom_in_fuel [OF Suc len] show "logic (Suc n) mp s \<noteq> OutOfFuel"
      by (auto split: presult.splits simp del: logic_loop.simps)
  qed
qed

interpretation lg: sub_parser "logic n mp" n
  by (rule sub_parser_logic)

section \<open>Text of an expression\<close>

text \<open>
  A fully parenthesised text for every expression, the reference the parser is
  proved to invert, and the flat text of a chain of \<open>and\<close> and \<open>or\<close>.
\<close>

fun show_expr :: "Expr \<Rightarrow> string" where
  "show_expr (E_Pid p) = ''pid['' @ show_num 10 (unat p) @ '']''"
| "show_expr (E_Protocol Udp) = ''udp''"
| "show_expr (E_Protocol Tcp) = ''tcp''"
| "show_expr (E_IpVersion IpV4) = ''ipv4''"
| "show_expr (E_IpVersion IpV6) = ''ipv6''"
| "show_expr (E_Addr a) = ''addr['' @ show_ip a @ '']''"
| "show_expr (E_LocalAddr a) = ''laddr['' @ show_ip a @ '']''"
| "show_expr (E_RemoteAddr a) = ''raddr['' @ show_ip a @ '']''"
| "show_expr (E_Port p) = ''port['' @ show_num 10 (unat p) @ '']''"
| "show_expr (E_LocalPort p) = ''lport['' @ show_num 10 (unat p) @ '']''"
| "show_expr (E_RemotePort p) = ''rport['' @ show_num 10 (unat p) @ '']''"
| "show_expr (E_And a b) = ''('' @ show_expr a @ '') and ('' @ show_expr b @ '')''"
| "show_expr (E_Or a b) = ''('' @ show_expr a @ '') or ('' @ show_expr b @ '')''"
| "show_expr (E_Not a) = ''not ('' @ show_expr a @ '')''"

fun is_leaf :: "Expr \<Rightarrow> bool" where
  "is_leaf (E_And a b) = False"
| "is_leaf (E_Or a b) = False"
| "is_leaf (E_Not a) = False"
| "is_leaf e = True"

definition atom_text :: "Expr \<Rightarrow> string" where
  "atom_text e = (if is_leaf e then show_expr e else ''('' @ show_expr e @ '')'')"

definition op_text :: "bool \<Rightarrow> string" where
  "op_text is_or = (if is_or then '' or '' else '' and '')"

definition mk_op :: "bool \<Rightarrow> Expr \<Rightarrow> Expr \<Rightarrow> Expr" where
  "mk_op is_or = (if is_or then E_Or else E_And)"

fun chain_text :: "(bool \<times> Expr) list \<Rightarrow> string" where
  "chain_text [] = []"
| "chain_text ((is_or, e) # xs) = op_text is_or @ atom_text e @ chain_text xs"

fun chain_expr :: "Expr \<Rightarrow> (bool \<times> Expr) list \<Rightarrow> Expr" where
  "chain_expr lhs [] = lhs"
| "chain_expr lhs ((is_or, e) # xs) = chain_expr (mk_op is_or lhs e) xs"

section \<open>Operands read back\<close>

lemma digit_char_classes:
  "d < 10 \<Longrightarrow> is_dec (digit_char d)"
  "d < 16 \<Longrightarrow> is_addr_char (digit_char d)"
  by (simp_all add: is_dec_def is_addr_char_def of_char_digit_char)

lemma show_num_is_dec: "c \<in> set (show_num 10 n) \<Longrightarrow> is_dec c"
  using show_num_digits [of 10 c n] digit_char_classes(1) by auto

lemma show_num_is_addr: "c \<in> set (show_num 10 n) \<Longrightarrow> is_addr_char c"
    "c \<in> set (show_num 16 n) \<Longrightarrow> is_addr_char c"
  using show_num_digits [of 10 c n] show_num_digits [of 16 c n] digit_char_classes(2) by force+

lemma is_addr_char_punct: "is_addr_char (CHR ''.'')" "is_addr_char (CHR '':'')"
  by (simp_all add: is_addr_char_def)

lemma show_groups_is_addr: "c \<in> set (show_groups i gs) \<Longrightarrow> is_addr_char c"
  by (induction i gs rule: show_groups.induct)
    (auto simp: is_addr_char_punct show_num_is_addr split: if_splits)

lemma show_ip_is_addr: "c \<in> set (show_ip a) \<Longrightarrow> is_addr_char c"
  by (cases a) (auto simp: show_ipv4_def is_addr_char_punct show_groups_is_addr show_num_is_addr)

lemma show_ip_ne: "show_ip a \<noteq> []"
  by (cases a rule: StdIpAddr.exhaust; (cases "case a of V6 x \<Rightarrow> x | V4 _ \<Rightarrow> undefined")?)
    (auto simp: show_ipv4_def)

lemma many1_append:
  assumes "\<And>c. c \<in> set xs \<Longrightarrow> p c" "xs \<noteq> []" "\<not> p c"
  shows "many1 p (xs @ c # rest) = Some (xs, c # rest)"
  using assms by (simp add: many1_def takeWhile_append dropWhile_append)

lemma many1_show_num: "many1 is_dec (show_num 10 n @ CHR '']'' # rest) = Some (show_num 10 n, CHR '']'' # rest)"
  by (rule many1_append) (simp_all add: show_num_is_dec, simp add: is_dec_def)

lemma many1_show_ip: "many1 is_addr_char (show_ip a @ CHR '']'' # rest) = Some (show_ip a, CHR '']'' # rest)"
  by (rule many1_append) (simp_all add: show_ip_is_addr show_ip_ne, simp add: is_addr_char_def is_dec_def)

lemma port_number_show: "port_number (show_num 10 (unat p) @ CHR '']'' # rest) = Some (p, CHR '']'' # rest)"
  using unat_u16 [of p] by (simp add: port_number_def many1_show_num parse_uint_show_num)

lemma addr_any_show: "addr_any (show_ip a @ CHR '']'' # rest) = Some (a, CHR '']'' # rest)"
  by (simp add: addr_any_def many1_show_ip)

lemma pid_action_show: "parse_uint 32 (show_num 10 (unat p)) = Some (unat p)" for p :: u32
  using unat_u32 [of p] by (simp add: parse_uint_show_num)

lemma ws_nonblank [simp]: "\<not> is_blank c \<Longrightarrow> ws (c # s) = c # s"
  by (simp add: ws_def)

lemma ws_Nil [simp]: "ws [] = []"
  by (simp add: ws_def)

lemma ws_ws [simp]: "ws (ws s) = ws s"
  by (simp add: ws_def)

lemma ws_space [simp]: "ws (CHR '' '' # s) = ws s"
  by (simp add: ws_def is_blank_def)

lemmas operand_unfold = operand_def choice_def rule_defs keyword_def bracketed_def

lemma operand_show: "is_leaf e \<Longrightarrow> operand (show_expr e @ rest) = Some (e, ws rest)"
  by (induction e rule: show_expr.induct)
    (simp_all add: operand_unfold is_blank_def many1_show_num port_number_show addr_any_show
      pid_action_show)

lemma operand_paren: "operand (CHR ''('' # s) = None"
  by (simp add: operand_unfold is_blank_def)

lemma show_expr_head:
  obtains c cs where "show_expr e = c # cs" "\<not> is_blank c"
  by (cases e rule: show_expr.cases) (auto simp: is_blank_def)

lemma ws_show_expr [simp]: "ws (show_expr e @ r) = show_expr e @ r"
  by (cases e rule: show_expr_head) auto

lemma ws_show_expr_paren [simp]: "ws (CHR ''('' # r) = CHR ''('' # r" "ws (CHR '')'' # r) = CHR '')'' # r"
  by (simp_all add: is_blank_def)

lemma lit_or_not_leaf: "is_leaf e \<Longrightarrow> lit_or ''not'' ''!'' (show_expr e @ r) = None"
  by (cases e rule: show_expr.cases) (auto simp: lit_or_def)

section \<open>Expressions read back\<close>

text \<open>What may follow an expression: the end of the input or a closing parenthesis.\<close>

definition closes :: "string \<Rightarrow> bool" where
  "closes s \<longleftrightarrow> s = [] \<or> (\<exists>r. s = CHR '')'' # r)"

lemma ws_closes: "closes s \<Longrightarrow> ws s = s"
  by (auto simp: closes_def)

lemma level_closes: "closes s \<Longrightarrow> logic_level rec lhs s = Failed"
  by (auto simp: closes_def logic_level_def logic_infix_def lit_or_def)

lemma loop_closes: "closes s \<Longrightarrow> logic_loop (Suc k) rec mp lhs s = Matched lhs s"
  by (simp add: level_closes)

lemma paren_show:
  assumes "rec (show_expr e @ CHR '')'' # rest) = Matched e (CHR '')'' # rest)"
  shows "logic_paren rec (CHR ''('' # show_expr e @ CHR '')'' # rest) = Matched e rest"
  using assms by (simp add: logic_paren_def)

lemma atom_paren:
  assumes "rec (show_expr e @ CHR '')'' # rest) = Matched e (CHR '')'' # rest)"
  shows "logic_atom rec (CHR ''('' # show_expr e @ CHR '')'' # rest) = Matched e rest"
  using paren_show [of rec e rest, OF assms]
  by (simp add: logic_atom_def lit_or_def operand_or_paren_def operand_paren)

lemma atom_leaf: "is_leaf e \<Longrightarrow> logic_atom rec (show_expr e @ rest) = Matched e (ws rest)"
  by (simp add: logic_atom_def operand_or_paren_def lit_or_not_leaf operand_show)

lemma logic_paren_operand:
  assumes "logic n 0 (show_expr e @ CHR '')'' # rest) = Matched e (CHR '')'' # rest)"
  shows "logic (Suc n) 1 (CHR ''('' # show_expr e @ CHR '')'' # rest) = Matched e rest"
  using atom_paren [of "logic n 0" e rest, OF assms] by simp

lemma level_op:
  assumes "rec (ws s) = Matched b rest"
  shows "logic_level rec a (op_text is_or @ s) = Matched (mk_op is_or a b) rest"
  using assms by (simp add: logic_level_def logic_infix_def lit_or_def is_blank_def op_text_def mk_op_def)

lemma logic_show_leaf:
  assumes "is_leaf e" "0 < n" "closes rest"
  shows "logic n 0 (show_expr e @ rest) = Matched e rest"
proof -
  obtain m where "n = Suc m" using assms(2) by (cases n) auto
  with assms show ?thesis by (simp add: atom_leaf ws_closes level_closes)
qed

lemma logic_show_binary:
  assumes a: "\<And>rest. length (show_expr a @ rest) < Suc m \<Longrightarrow> closes rest \<Longrightarrow>
      logic (Suc m) 0 (show_expr a @ rest) = Matched a rest"
    and b: "\<And>rest. length (show_expr b @ rest) < m \<Longrightarrow> closes rest \<Longrightarrow>
      logic m 0 (show_expr b @ rest) = Matched b rest"
    and inp: "s = ''('' @ show_expr a @ '')'' @ op_text is_or @ ''('' @ show_expr b @ '')'' @ rest"
    and "length s < Suc (Suc m)" "closes rest"
  shows "logic (Suc (Suc m)) 0 s = Matched (mk_op is_or a b) rest"
proof -
  let ?rest = "op_text is_or @ ''('' @ show_expr b @ '')'' @ rest"
  have "logic (Suc m) 0 (show_expr a @ CHR '')'' # ?rest) = Matched a (CHR '')'' # ?rest)"
    using assms(4) by (intro a) (simp_all add: closes_def inp)
  then have atom: "logic_atom (logic (Suc m) 0) s = Matched a ?rest"
    using atom_paren [of "logic (Suc m) 0" a ?rest] by (simp add: inp del: logic.simps)
  have "logic m 0 (show_expr b @ CHR '')'' # rest) = Matched b (CHR '')'' # rest)"
    using assms(4) by (intro b) (simp_all add: closes_def inp)
  then have "logic (Suc m) 1 (ws (''('' @ show_expr b @ '')'' @ rest)) = Matched b rest"
    using logic_paren_operand [of m b rest] by (simp del: logic.simps)
  then have "logic_level (logic (Suc m) 1) a ?rest = Matched (mk_op is_or a b) rest"
    by (rule level_op)
  with atom show ?thesis
    by (subst logic.simps) (simp add: level_closes assms(5) del: logic.simps)
qed

lemma logic_show:
  assumes "length (show_expr e @ rest) < n" "closes rest"
  shows "logic n 0 (show_expr e @ rest) = Matched e rest"
  using assms
proof (induction e arbitrary: n rest)
  case (E_And a b)
  then obtain m where n: "n = Suc (Suc m)" by (cases n rule: nat.exhaust; cases "n - 1") auto
  have "logic (Suc (Suc m)) 0 (show_expr (E_And a b) @ rest) = Matched (mk_op False a b) rest"
    by (rule logic_show_binary [OF E_And.IH]) (use E_And.prems n in \<open>simp_all add: op_text_def\<close>)
  with n show ?case by (simp add: mk_op_def del: logic.simps)
next
  case (E_Or a b)
  then obtain m where n: "n = Suc (Suc m)" by (cases n rule: nat.exhaust; cases "n - 1") auto
  have "logic (Suc (Suc m)) 0 (show_expr (E_Or a b) @ rest) = Matched (mk_op True a b) rest"
    by (rule logic_show_binary [OF E_Or.IH]) (use E_Or.prems n in \<open>simp_all add: op_text_def\<close>)
  with n show ?case by (simp add: mk_op_def del: logic.simps)
next
  case (E_Not a)
  then obtain m where n: "n = Suc m" by (cases n) auto
  have "logic m 0 (show_expr a @ CHR '')'' # rest) = Matched a (CHR '')'' # rest)"
    using E_Not.prems n by (intro E_Not.IH) (simp_all add: closes_def)
  then have "logic_paren (logic m 0) (CHR ''('' # show_expr a @ CHR '')'' # rest) = Matched a rest"
    by (rule paren_show)
  then have "logic_atom (logic m 0) (show_expr (E_Not a) @ rest) = Matched (E_Not a) rest"
    using E_Not.prems(2) by (simp add: logic_atom_def lit_or_def operand_paren ws_closes)
  with n E_Not.prems(2) show ?case
    by (simp add: level_closes)
qed (rule logic_show_leaf; simp)+

section \<open>Chains of operators\<close>

lemma logic_atom_text:
  assumes "length (atom_text e @ rest) \<le> n"
  shows "\<exists>r. logic_atom (logic n 0) (atom_text e @ rest) = Matched e r \<and> (r = rest \<or> r = ws rest)"
proof (cases "is_leaf e")
  case True
  then show ?thesis by (simp add: atom_text_def atom_leaf)
next
  case False
  then have "logic n 0 (show_expr e @ CHR '')'' # rest) = Matched e (CHR '')'' # rest)"
    using assms by (intro logic_show) (simp_all add: atom_text_def closes_def)
  with False show ?thesis
    using atom_paren [of "logic n 0" e rest] by (simp add: atom_text_def)
qed

lemma infix_ws: "logic_infix rec k1 k2 mk (ws s) = logic_infix rec k1 k2 mk s"
  by (simp add: logic_infix_def)

lemma level_ws: "logic_level rec lhs (ws s) = logic_level rec lhs s"
  unfolding logic_level_def infix_ws ..

lemma ws_atom_text [simp]: "ws (atom_text e @ s) = atom_text e @ s"
  by (simp add: atom_text_def)

lemma length_op_text: "3 < length (op_text is_or)"
  by (simp add: op_text_def)

lemma loop_chain:
  assumes "length (chain_text xs) \<le> Suc n" "length xs < k" "s = chain_text xs \<or> s = ws (chain_text xs)"
  shows "logic_loop k (logic n 1) 0 lhs s = Matched (chain_expr lhs xs) []"
  using assms
proof (induction xs arbitrary: lhs s k)
  case Nil
  then obtain j where "k = Suc j" by (cases k) auto
  moreover have "closes []" by (simp add: closes_def)
  ultimately show ?case using Nil by (auto simp: level_closes)
next
  case (Cons x xs)
  obtain is_or e where x: "x = (is_or, e)" by fastforce
  let ?rest = "chain_text xs"
  have len: "length (atom_text e @ ?rest) \<le> n - 1" "0 < n"
    using Cons.prems(1) x length_op_text [of is_or] by simp_all
  then obtain m where n: "n = Suc m" by (cases n) auto
  obtain r where atom: "logic_atom (logic m 0) (atom_text e @ ?rest) = Matched e r"
      and r: "r = ?rest \<or> r = ws ?rest"
    using logic_atom_text [of e ?rest m] len(1) n by auto
  then have "logic n 1 (ws (atom_text e @ ?rest)) = Matched e r"
    by (simp add: n)
  then have "logic_level (logic n 1) lhs (chain_text (x # xs)) = Matched (mk_op is_or lhs e) r"
    unfolding x chain_text.simps by (rule level_op)
  then have lev: "logic_level (logic n 1) lhs s = Matched (mk_op is_or lhs e) r"
    using Cons.prems(3) level_ws by metis
  obtain j where k: "k = Suc j" using Cons.prems(2) by (cases k) auto
  have "logic_loop j (logic n 1) 0 (mk_op is_or lhs e) r = Matched (chain_expr (mk_op is_or lhs e) xs) []"
    using Cons.prems k r len(1) by (intro Cons.IH) auto
  with lev k x show ?case by simp
qed

lemma length_chain_text: "length xs \<le> length (chain_text xs)"
  using length_op_text by (induction xs rule: chain_text.induct) (auto simp: op_text_def)

lemma length_ws_chain: "length xs \<le> length (ws (chain_text xs))"
proof (cases xs)
  case (Cons x ys)
  obtain is_or e where x: "x = (is_or, e)" by fastforce
  have "length ys \<le> length (chain_text ys)" by (rule length_chain_text)
  with Cons x show ?thesis by (simp add: op_text_def is_blank_def)
qed simp

lemma filter_rule_chain: "filter_rule (atom_text e @ chain_text xs) = Some (chain_expr e xs)"
proof -
  let ?s = "atom_text e @ chain_text xs"
  obtain r where atom: "logic_atom (logic (length ?s) 0) ?s = Matched e r"
      and r: "r = chain_text xs \<or> r = ws (chain_text xs)"
    using logic_atom_text [of e "chain_text xs" "length ?s"] by auto
  have "length xs < Suc (length r)"
    using r length_chain_text [of xs] length_ws_chain [of xs] by auto
  then have "logic_loop (Suc (length r)) (logic (length ?s) 1) 0 e r = Matched (chain_expr e xs) []"
    using r by (intro loop_chain) simp_all
  with atom show ?thesis
    by (simp add: filter_rule_def del: logic_loop.simps)
qed

lemma filter_rule_show: "filter_rule (show_expr e) = Some e"
  using logic_show [of e "[]" "Suc (length (show_expr e))"]
  by (simp add: filter_rule_def closes_def del: logic.simps)

section \<open>The unit tests\<close>

record Packet =
  pk_pid :: u32
  pk_protocol :: Protocol
  pk_ip_version :: FilterIpVersion
  pk_local_address :: StdIpAddr
  pk_remote_address :: StdIpAddr
  pk_local_port :: u16
  pk_remote_port :: u16

definition Packet_filterable :: "Packet Filterable" where
  "Packet_filterable =
     \<lparr>f_pid = pk_pid, f_protocol = (\<lambda>p. Some (pk_protocol p)), f_ip_version = pk_ip_version,
      f_local_address = pk_local_address, f_remote_address = pk_remote_address,
      f_local_port = pk_local_port, f_remote_port = pk_remote_port\<rparr>"

definition packet0 :: Packet where
  "packet0 =
     \<lparr>pk_pid = 213, pk_protocol = Tcp, pk_ip_version = IpV4, pk_local_address = V4 (octets_value 127 0 0 1),
      pk_remote_address = V4 (octets_value 1 1 1 1), pk_local_port = 12382, pk_remote_port = 443\<rparr>"

definition packet1 :: Packet where
  "packet1 = packet0\<lparr>pk_remote_port := 8443\<rparr>"

definition test_filter :: string where
  "test_filter = ''tcp and (laddr[127.0.0.1] or laddr[192.168.1.32]) and rport[443]''"

section \<open>Properties\<close>

text \<open>C10. Every filter expression reads back from its text.\<close>

theorem filter_text_roundtrip: "map_option ast (Interpretor_parse (show_expr e)) = Some e"
  by (simp add: Interpretor_parse_def filter_rule_show)

text \<open>C11. The parser always answers: whatever the input, the recursion of the grammar ends
  before the length of the input is used up.\<close>

theorem filter_terminates: "logic (Suc (length input)) min_prec input \<noteq> OutOfFuel"
  by (rule lg.in_fuel) simp

text \<open>C12. A chain of operands joined by \<open>and\<close> and \<open>or\<close> groups to the left, with no precedence
  between the two.\<close>

theorem filter_chain_left: "filter_rule (atom_text e @ chain_text xs) = Some (chain_expr e xs)"
  by (rule filter_rule_chain)

lemma logic_numeral:
  "logic (numeral k) mp s = logic (Suc (pred_numeral k)) mp s"
  "logic_loop (numeral k) rec mp lhs s = logic_loop (Suc (pred_numeral k)) rec mp lhs s"
  by (simp_all only: numeral_eq_Suc)

lemma parse_uint_443: "parse_uint 16 ''443'' = Some 443"
proof -
  have "show_num 10 443 = ''443''" by code_simp
  then show ?thesis using parse_uint_show_num [of 443 16] by simp
qed

lemmas parse_defs = filter_rule_def logic_atom_def logic_level_def logic_infix_def operand_or_paren_def
  logic_paren_def operand_def choice_def pid_rule_def udp_rule_def tcp_rule_def ipv4_rule_def ipv6_rule_def
  ports_rule_def port_rule_def local_port_rule_def remote_port_rule_def addrs_rule_def addr_rule_def
  local_addr_rule_def remote_addr_rule_def keyword_def bracketed_def ws_def is_blank_def lit_or_def many1_def
  is_dec_def is_addr_char_def port_number_def addr_any_def parse_ip_def parse_uint_443 read_ipv4_addr_def
  read_ipv4_octets_def read_octet_def read_separator_def read_given_char_def read_number_def to_digit_def
  Let_def logic_numeral

lemma test_filter_parse:
  "filter_rule test_filter =
     Some (E_And (E_And (E_Protocol Tcp)
       (E_Or (E_LocalAddr (V4 (octets_value 127 0 0 1))) (E_LocalAddr (V4 (octets_value 192 168 1 32)))))
       (E_RemotePort 443))"
  unfolding test_filter_def by (simp add: parse_defs)

text \<open>The unit test of the interpreter: the filter of the test keeps the packet to port
  443 and drops the one to port 8443.\<close>

theorem interpretor_unit_test:
  "map_option (\<lambda>i. (interpretor_filter i Packet_filterable packet0, interpretor_filter i Packet_filterable packet1))
     (Interpretor_parse test_filter) = Some (True, False)"
  by (simp add: Interpretor_parse_def test_filter_parse interpretor_filter_def Packet_filterable_def
      packet0_def packet1_def)

end
