(* ===== verification/Ui_Common.thy ===== *)
theory Ui_Common
  imports Store_Segment Filter_Parser
begin

text \<open>
  \<^verbatim>\<open>ptraf/src/ui.rs\<close>, the vocabulary of the user interface: terminal events, the events
  views answer with, the filter a view is opened with and the custom filter the user
  typed. The keys the views do not look at are one constructor.
\<close>

datatype KeyCode = Char char | Enter | Esc | Up | Down | Backspace | OtherKey nat

datatype Event = Key KeyCode bool | OtherEvent nat

text \<open>The second argument of \<^term>\<open>Key\<close> tells whether control is held.\<close>

datatype Filter = NoFilter | Process u32 | RemoteIpFilter StdIpAddr

definition Filter_default :: Filter where
  "Filter_default = NoFilter"

definition filter_interest :: "Filter \<Rightarrow> Interest" where
  "filter_interest self =
     (case self of NoFilter \<Rightarrow> All | Process pid \<Rightarrow> Pid pid | RemoteIpFilter a \<Rightarrow> RemoteIp a)"

record CustomFilter =
  cf_content :: string
  cf_interpretor :: Interpretor

datatype UiEvent =
    Quit
  | Change
  | Back
  | SelectProcess u32
  | SelectRemoteIp StdIpAddr
  | SetCustomFilter "CustomFilter option"

text \<open>The sockets a filter keeps are those whose messages are counted under its interest.\<close>

lemma filter_interest_not_local: "filter_interest f \<noteq> LocalSocket a"
  by (cases f) (simp_all add: filter_interest_def)

lemma match_filter_interest:
  "match_interest s (filter_interest f) \<longleftrightarrow>
     (case f of NoFilter \<Rightarrow> True | Process p \<Rightarrow> sk_pid s = p | RemoteIpFilter a \<Rightarrow> ip (sk_remote s) = a)"
  by (auto simp: match_interest_def filter_interest_def split: Filter.splits)

end
