(* ===== verification/Filter_Editor.thy ===== *)
theory Filter_Editor
  imports Ui_Common
begin

text \<open>
  \<^verbatim>\<open>ptraf/src/ui/filter_editor.rs\<close>: the filter line. It holds the filter in force and,
  while editing, a draft that is parsed after every change of the text.

  The text area is a library's: \<open>TextArea\<close> is the record of the operations used on it, and
  what the editor relies on is the locale \<open>text_area\<close>. How the line is drawn is in the theory of the panels.
\<close>

section \<open>The text area\<close>

datatype InputKey = IKey KeyCode | INull

record Input =
  in_key :: InputKey
  in_ctrl :: bool

record 'ta TextArea =
  ta_default :: 'ta
  ta_new :: "string list \<Rightarrow> 'ta"
  ta_end :: "'ta \<Rightarrow> 'ta"
  ta_lines :: "'ta \<Rightarrow> string list"
  ta_input :: "Input \<Rightarrow> 'ta \<Rightarrow> bool \<times> 'ta"
  ta_from_event :: "Event \<Rightarrow> Input"

section \<open>The editor\<close>

text \<open>A draft is \<open>Result<Option<Interpretor>, Error>\<close>: \<^term>\<open>None\<close> is the parse error.\<close>

record 'ta FilterView =
  committed_state :: "CustomFilter option"
  draft_interpretor :: "Interpretor option option"
  textarea :: 'ta
  editing :: bool

definition FilterView_default :: "'ta TextArea \<Rightarrow> 'ta FilterView" where
  "FilterView_default T =
     \<lparr>committed_state = None, draft_interpretor = Some None, textarea = ta_default T, editing = False\<rparr>"

definition with_filter :: "'ta TextArea \<Rightarrow> CustomFilter option \<Rightarrow> 'ta FilterView" where
  "with_filter T f =
     \<lparr>committed_state = f, draft_interpretor = Some None, textarea = ta_default T, editing = False\<rparr>"

definition committed_content :: "'ta FilterView \<Rightarrow> string option" where
  "committed_content self = map_option cf_content (committed_state self)"

definition committed_interpretor :: "'ta FilterView \<Rightarrow> Interpretor option" where
  "committed_interpretor self = map_option cf_interpretor (committed_state self)"

definition is_editing :: "'ta FilterView \<Rightarrow> bool" where
  "is_editing self = editing self"

definition unwrap_or_default :: "string option \<Rightarrow> string" where
  "unwrap_or_default s = (case s of Some x \<Rightarrow> x | None \<Rightarrow> [])"

definition set_editing :: "'ta TextArea \<Rightarrow> 'ta FilterView \<Rightarrow> 'ta FilterView" where
  "set_editing T self =
     self\<lparr>editing := True,
          draft_interpretor := Some (committed_interpretor self),
          textarea := ta_end T (ta_new T [unwrap_or_default (committed_content self)])\<rparr>"

definition first_line :: "'ta TextArea \<Rightarrow> 'ta \<Rightarrow> string option" where
  "first_line T ta = (case ta_lines T ta of [] \<Rightarrow> None | l # _ \<Rightarrow> if l = [] then None else Some l)"

definition commit :: "'ta TextArea \<Rightarrow> 'ta FilterView \<Rightarrow> 'ta FilterView" where
  "commit T self =
     (case draft_interpretor self of
        Some (Some draft) \<Rightarrow>
          self\<lparr>editing := False, draft_interpretor := Some None,
               committed_state := Some \<lparr>cf_content = unwrap_or_default (first_line T (textarea self)),
                                       cf_interpretor = draft\<rparr>\<rparr>
      | _ \<Rightarrow> self\<lparr>editing := False, committed_state := None\<rparr>)"

definition abort :: "'ta TextArea \<Rightarrow> 'ta FilterView \<Rightarrow> 'ta FilterView" where
  "abort T self =
     self\<lparr>editing := False, draft_interpretor := Some None,
          textarea := ta_new T [unwrap_or_default (committed_content self)]\<rparr>"

definition fv_interpretor :: "'ta FilterView \<Rightarrow> Interpretor option" where
  "fv_interpretor self =
     (if is_editing self then (case draft_interpretor self of Some d \<Rightarrow> d | None \<Rightarrow> None)
      else committed_interpretor self)"

definition is_valid :: "'ta FilterView \<Rightarrow> bool" where
  "is_valid self \<longleftrightarrow> draft_interpretor self \<noteq> None"

definition draft_content :: "'ta TextArea \<Rightarrow> 'ta FilterView \<Rightarrow> string option" where
  "draft_content T self = first_line T (textarea self)"

definition fv_update :: "'ta TextArea \<Rightarrow> 'ta FilterView \<Rightarrow> 'ta FilterView" where
  "fv_update T self =
     self\<lparr>draft_interpretor :=
       (case draft_content T self of None \<Rightarrow> Some None | Some s \<Rightarrow> map_option Some (Interpretor_parse s))\<rparr>"

definition fv_handle_event ::
  "'ta TextArea \<Rightarrow> Event \<Rightarrow> 'ta FilterView \<Rightarrow> UiEvent option \<times> 'ta FilterView" where
  "fv_handle_event T event self =
     (if \<not> is_editing self then (None, self)
      else let input = ta_from_event T event in
        if in_key input = IKey Esc then (None, abort T self)
        else if in_key input = IKey (Char (CHR ''m'')) \<and> in_ctrl input \<or> in_key input = IKey Enter then
          (if is_valid self then
             (let self' = commit T self in (Some (SetCustomFilter (committed_state self')), self'))
           else (None, self))
        else
          (case ta_input T input (textarea self) of
             (changed, ta) \<Rightarrow>
               (let self' = self\<lparr>textarea := ta\<rparr>
                in (Some Change, if changed then fv_update T self' else self'))))"

section \<open>Invariant\<close>

text \<open>The filter in force was parsed from its text, and while editing the draft is the
  parse of the line as it stands.\<close>

definition custom_ok :: "CustomFilter \<Rightarrow> bool" where
  "custom_ok f \<longleftrightarrow> cf_content f \<noteq> [] \<and> Interpretor_parse (cf_content f) = Some (cf_interpretor f)"

definition draft_of :: "string option \<Rightarrow> Interpretor option option" where
  "draft_of s = (case s of None \<Rightarrow> Some None | Some x \<Rightarrow> map_option Some (Interpretor_parse x))"

definition fv_inv :: "'ta TextArea \<Rightarrow> 'ta FilterView \<Rightarrow> bool" where
  "fv_inv T v \<longleftrightarrow> (\<forall>f. committed_state v = Some f \<longrightarrow> custom_ok f)
     \<and> (editing v \<longrightarrow> draft_interpretor v = draft_of (draft_content T v))"

section \<open>What the editor relies on\<close>

text \<open>
  The documented behaviour of the text area: a new one holds the lines it is given, moving
  the cursor does not change them, and an input that reports no change made none. A key
  event is the input of that key.
\<close>

locale text_area =
  fixes T :: "'ta TextArea"
  assumes lines_new: "ls \<noteq> [] \<Longrightarrow> ta_lines T (ta_new T ls) = ls"
    and lines_end: "ta_lines T (ta_end T ta) = ta_lines T ta"
    and input_unchanged: "ta_input T i ta = (False, ta') \<Longrightarrow> ta_lines T ta' = ta_lines T ta"
    and from_key: "ta_from_event T (Key k c) = \<lparr>in_key = IKey k, in_ctrl = c\<rparr>"
begin

lemma fv_inv_with_filter: "(\<And>x. f = Some x \<Longrightarrow> custom_ok x) \<Longrightarrow> fv_inv T (with_filter T f)"
  by (simp add: fv_inv_def with_filter_def)

lemma fv_inv_default: "fv_inv T (FilterView_default T)"
  by (simp add: fv_inv_def FilterView_default_def)

lemma first_line_new: "first_line T (ta_end T (ta_new T [s])) = (if s = [] then None else Some s)"
  by (simp add: first_line_def lines_end lines_new)

lemma fv_inv_set_editing: "fv_inv T v \<Longrightarrow> fv_inv T (set_editing T v)"
  by (cases "committed_state v")
    (auto simp: fv_inv_def set_editing_def draft_content_def first_line_new draft_of_def custom_ok_def
      committed_interpretor_def committed_content_def unwrap_or_default_def)

lemma fv_inv_abort: "fv_inv T v \<Longrightarrow> fv_inv T (abort T v)"
  by (simp add: fv_inv_def abort_def)

lemma commit_custom:
  assumes "fv_inv T v" "editing v" "committed_state (commit T v) = Some f"
  shows "custom_ok f"
proof -
  obtain d where d: "draft_interpretor v = Some (Some d)"
    and f: "f = \<lparr>cf_content = unwrap_or_default (first_line T (textarea v)), cf_interpretor = d\<rparr>"
    using assms(3) by (auto simp: commit_def split: option.splits)
  have "draft_of (first_line T (textarea v)) = Some (Some d)"
    using assms(1,2) d by (simp add: fv_inv_def draft_content_def)
  then obtain x where "first_line T (textarea v) = Some x" "Interpretor_parse x = Some d"
    by (auto simp: draft_of_def split: option.splits)
  moreover from this have "x \<noteq> []" by (auto simp: first_line_def split: list.splits if_splits)
  ultimately show ?thesis by (simp add: f custom_ok_def unwrap_or_default_def)
qed

lemma fv_inv_commit: "fv_inv T v \<Longrightarrow> editing v \<Longrightarrow> fv_inv T (commit T v)"
proof -
  assume v: "fv_inv T v" "editing v"
  have "\<not> editing (commit T v)" by (simp add: commit_def split: option.splits)
  then show ?thesis using commit_custom [OF v] by (simp add: fv_inv_def)
qed

lemma fv_inv_input:
  assumes "fv_inv T v" "ta_input T i (textarea v) = (ch, ta)"
  shows "fv_inv T (if ch then fv_update T (v\<lparr>textarea := ta\<rparr>) else v\<lparr>textarea := ta\<rparr>)"
proof (cases ch)
  case True
  then show ?thesis
    using assms(1) by (simp add: fv_inv_def fv_update_def draft_of_def draft_content_def)
next
  case False
  then have "ta_lines T ta = ta_lines T (textarea v)"
    using assms(2) input_unchanged by simp
  then show ?thesis using assms(1) False by (simp add: fv_inv_def draft_content_def first_line_def)
qed

lemma fv_inv_event: "fv_inv T v \<Longrightarrow> fv_inv T (snd (fv_handle_event T e v))"
  using fv_inv_abort fv_inv_commit fv_inv_input
  by (auto simp: fv_handle_event_def is_editing_def Let_def split: prod.splits)

text \<open>What the editor answers with: never to quit, go back or open a view; and every
  custom filter it announces parses to its interpreter.\<close>

lemma fv_event_answers:
  assumes "fv_inv T v" "fst (fv_handle_event T e v) = Some u"
  shows "u = Change \<or> (\<exists>f. u = SetCustomFilter f \<and> (\<forall>x. f = Some x \<longrightarrow> custom_ok x)
    \<and> committed_state (snd (fv_handle_event T e v)) = f)"
  using assms commit_custom [OF assms(1)]
  by (auto simp: fv_handle_event_def is_editing_def Let_def split: if_splits prod.splits)

end

section \<open>A text area\<close>

text \<open>Lines with the cursor at the end of the last one.\<close>

definition line_input :: "Input \<Rightarrow> string list \<Rightarrow> bool \<times> string list" where
  "line_input i ls =
     (case in_key i of
        IKey (Char c) \<Rightarrow> if in_ctrl i then (False, ls) else (True, butlast ls @ [(if ls = [] then [] else last ls) @ [c]])
      | IKey Backspace \<Rightarrow> if ls = [] \<or> last ls = [] then (False, ls) else (True, butlast ls @ [butlast (last ls)])
      | _ \<Rightarrow> (False, ls))"

definition line_area :: "string list TextArea" where
  "line_area =
     \<lparr>ta_default = [[]], ta_new = (\<lambda>ls. ls), ta_end = (\<lambda>ls. ls), ta_lines = (\<lambda>ls. ls),
      ta_input = line_input,
      ta_from_event = (\<lambda>e. case e of Key k c \<Rightarrow> \<lparr>in_key = IKey k, in_ctrl = c\<rparr>
                              | OtherEvent n \<Rightarrow> \<lparr>in_key = INull, in_ctrl = False\<rparr>)\<rparr>"

interpretation la: text_area line_area
  by unfold_locales (auto simp: line_area_def line_input_def split: InputKey.splits KeyCode.splits if_splits)

section \<open>Properties\<close>

fun fv_events :: "'ta TextArea \<Rightarrow> Event list \<Rightarrow> 'ta FilterView \<Rightarrow> 'ta FilterView" where
  "fv_events T [] v = v"
| "fv_events T (e # es) v = fv_events T es (snd (fv_handle_event T e v))"

lemma fv_events_inv: "text_area T \<Longrightarrow> fv_inv T v \<Longrightarrow> fv_inv T (fv_events T es v)"
  by (induction es arbitrary: v) (simp_all add: text_area.fv_inv_event)

text \<open>C23. Whatever is typed, from the moment the filter line is opened: the draft is the parse
  of the line as it stands, and a filter that is put in force was parsed from its text.\<close>

theorem editor_filter_parsed:
  assumes "text_area T" "fv_inv T v" "w = fv_events T es (set_editing T v)"
  shows "(editing w \<longrightarrow> draft_interpretor w = draft_of (draft_content T w))
    \<and> (\<forall>f. committed_state w = Some f \<longrightarrow> Interpretor_parse (cf_content f) = Some (cf_interpretor f))"
  using fv_events_inv [OF assms(1) text_area.fv_inv_set_editing [OF assms(1,2)], of es] assms(3)
  by (auto simp: fv_inv_def custom_ok_def)

theorem editor_filter_parsed_witness:
  "let w = fv_events line_area [Key (Char (CHR ''t'')) False, Key (Char (CHR ''c'')) False, Key (Char (CHR ''p'')) False]
             (set_editing line_area (FilterView_default line_area))
   in editing w \<and> draft_content line_area w = Some ''tcp'' \<and> draft_interpretor w = draft_of (Some ''tcp'')"
proof -
  let ?w = "fv_events line_area [Key (Char (CHR ''t'')) False, Key (Char (CHR ''c'')) False, Key (Char (CHR ''p'')) False]
             (set_editing line_area (FilterView_default line_area))"
  have w: "editing ?w" "draft_content line_area ?w = Some ''tcp''"
    by (simp_all add: line_area_def line_input_def set_editing_def FilterView_default_def fv_handle_event_def
        is_editing_def fv_update_def committed_content_def unwrap_or_default_def draft_content_def first_line_def Let_def)
  then show ?thesis
    using editor_filter_parsed [OF la.text_area_axioms la.fv_inv_default refl, of
        "[Key (Char (CHR ''t'')) False, Key (Char (CHR ''c'')) False, Key (Char (CHR ''p'')) False]"]
    by (simp add: Let_def)
qed

end
