(* ===== verification/Socket_Table.thy ===== *)
theory Socket_Table
  imports Store_Window Filter_Editor
begin

text \<open>
  \<^verbatim>\<open>ptraf/src/ui/socktable.rs\<close>: the table of sockets. A collection walks the segments from
  the newest to the oldest and sums, per local address, the traffic of the sockets the
  filter keeps; a view adds the selected row and the filter line.

  The hash map of a collection is the list of its entries in the order they were first
  inserted. The orders in which the concurrent set and the hash map are iterated are
  arguments (\<open>ord\<close>, \<open>vals\<close>). Drawing the rows is not modelled, the data they show is.
\<close>

section \<open>The table\<close>

record SocketTableConfig =
  cfg_filter :: Filter
  cfg_collection_window :: Duration
  cfg_rate_window :: Duration

definition SocketTableConfig_default :: SocketTableConfig where
  "SocketTableConfig_default =
     \<lparr>cfg_filter = Filter_default, cfg_collection_window = from_secs 300, cfg_rate_window = from_secs 1\<rparr>"

definition config_filter :: "Filter \<Rightarrow> SocketTableConfig \<Rightarrow> SocketTableConfig" where
  "config_filter f self = self\<lparr>cfg_filter := f\<rparr>"

definition config_rate_window :: "Duration \<Rightarrow> SocketTableConfig \<Rightarrow> SocketTableConfig" where
  "config_rate_window w self = self\<lparr>cfg_rate_window := w\<rparr>"

definition config_collection_window :: "Duration \<Rightarrow> SocketTableConfig \<Rightarrow> SocketTableConfig" where
  "config_collection_window w self = self\<lparr>cfg_collection_window := w\<rparr>"

record Entry =
  e_socket :: Socket
  e_stat :: Stat
  e_last_activity :: SystemTime
  e_rate_stat :: Stat
  e_pid :: u32

record SocketTable =
  t_filter :: Filter
  t_dataset :: "Entry list"
  t_rate_range :: "(Timestamp \<times> Timestamp) option"
  t_config :: SocketTableConfig

definition SocketTable_new :: "SocketTableConfig \<Rightarrow> SocketTable" where
  "SocketTable_new config =
     \<lparr>t_filter = cfg_filter config, t_dataset = [], t_rate_range = None, t_config = config\<rparr>"

definition config_build :: "SocketTableConfig \<Rightarrow> SocketTable" where
  "config_build self = SocketTable_new self"

definition table_len :: "SocketTable \<Rightarrow> nat" where
  "table_len self = length (t_dataset self)"

section \<open>Collecting one segment\<close>

record SocketTableCollector =
  co_filter :: Filter
  co_interpretor :: "Interpretor option"
  co_cache :: "(SocketAddr \<times> Entry) list"
  co_oldest :: "Timestamp option"
  co_oldest_rate :: "Timestamp option"
  co_rate_until :: Timestamp

definition Collector_new :: "Filter \<Rightarrow> Interpretor option \<Rightarrow> Timestamp \<Rightarrow> SocketTableCollector" where
  "Collector_new f interp rate_until =
     \<lparr>co_filter = f, co_interpretor = interp, co_cache = [], co_oldest = None, co_oldest_rate = None,
      co_rate_until = rate_until\<rparr>"

text \<open>\<open>entry(key).and_modify(..).or_insert_with(..)\<close>; the modification may panic.\<close>

fun upsert :: "'k \<Rightarrow> ('v \<Rightarrow> 'v exec) \<Rightarrow> 'v \<Rightarrow> ('k \<times> 'v) list \<Rightarrow> ('k \<times> 'v) list exec" where
  "upsert k f d [] = Inr [(k, d)]"
| "upsert k f d ((k', v) # kvs) =
     (if k' = k then rmap (\<lambda>v'. (k', v') # kvs) (f v) else rmap (Cons (k', v)) (upsert k f d kvs))"

definition entry_merge :: "bool \<Rightarrow> bool \<Rightarrow> Stat \<Rightarrow> Entry \<Rightarrow> Entry exec" where
  "entry_merge oc rate stat e =
     rbind (Stat_merge oc (e_stat e) stat) (\<lambda>s.
       if rate then rmap (\<lambda>r. e\<lparr>e_stat := s, e_rate_stat := r\<rparr>) (Stat_merge oc (e_rate_stat e) stat)
       else Inr (e\<lparr>e_stat := s\<rparr>))"

definition entry_new :: "ClockNano \<Rightarrow> Timestamp \<Rightarrow> bool \<Rightarrow> Stat \<Rightarrow> Socket \<Rightarrow> Entry" where
  "entry_new clock ts rate stat socket =
     \<lparr>e_socket = socket, e_stat = stat, e_last_activity = wall_time clock ts,
      e_rate_stat = (if rate then stat else Stat_default), e_pid = sk_pid socket\<rparr>"

definition socket_kept :: "Filter \<Rightarrow> Interpretor option \<Rightarrow> Socket \<Rightarrow> bool" where
  "socket_kept f interp socket \<longleftrightarrow>
     match_interest socket (filter_interest f)
   \<and> (case interp of None \<Rightarrow> True | Some i \<Rightarrow> interpretor_filter i Socket_filterable socket)"

definition collect_socket ::
  "bool \<Rightarrow> ClockNano \<Rightarrow> TimeSegment \<Rightarrow> bool \<Rightarrow> Socket \<Rightarrow> SocketTableCollector \<Rightarrow> SocketTableCollector exec" where
  "collect_socket oc clock time_segment rate socket self =
     (if \<not> socket_kept (co_filter self) (co_interpretor self) socket then Inr self
      else
        let stat = (case stat_by_interest (ts_segment time_segment) (LocalSocket (sk_local socket)) of
                      Some s \<Rightarrow> s | None \<Rightarrow> Stat_default)
        in rmap (\<lambda>c. self\<lparr>co_cache := c\<rparr>)
             (upsert (sk_local socket) (entry_merge oc rate stat)
                (entry_new clock (ts_ts time_segment) rate stat socket) (co_cache self)))"

definition collector_collect ::
  "bool \<Rightarrow> (Socket list \<Rightarrow> Socket list) \<Rightarrow> ClockNano \<Rightarrow> TimeSegment \<Rightarrow> SocketTableCollector
    \<Rightarrow> SocketTableCollector exec" where
  "collector_collect oc ord clock time_segment self =
     (let is_rate_eligible = (co_rate_until self \<le> ts_ts time_segment);
          self1 = self\<lparr>co_oldest := Some (ts_ts time_segment)\<rparr>;
          self2 = (if is_rate_eligible then self1\<lparr>co_oldest_rate := Some (ts_ts time_segment)\<rparr> else self1)
      in for_each_socket ord (collect_socket oc clock time_segment is_rate_eligible)
           (ts_segment time_segment) self2)"

section \<open>Collecting the store\<close>

definition rate_start :: "Duration \<Rightarrow> Duration \<Rightarrow> Timestamp \<Rightarrow> Timestamp exec" where
  "rate_start rate_window window ts = trunc (max (ts - rate_window) window) window"

definition table_collect ::
  "bool \<Rightarrow> (Socket list \<Rightarrow> Socket list) \<Rightarrow> (Entry list \<Rightarrow> Entry list) \<Rightarrow> Timestamp \<Rightarrow> ClockNano \<Rightarrow> Store
    \<Rightarrow> Interpretor option \<Rightarrow> SocketTable \<Rightarrow> SocketTable exec" where
  "table_collect oc ord vals ts0 clock store interp self =
     (let window = store_window store in
      rbind (trunc ts0 window) (\<lambda>ts.
      rbind (rate_start (cfg_rate_window (t_config self)) window ts) (\<lambda>rate_until.
      rmap (\<lambda>collector.
          self\<lparr>t_rate_range := Some (case co_oldest_rate collector of Some t \<Rightarrow> t | None \<Rightarrow> ts, ts),
               t_dataset := vals (map snd (co_cache collector))\<rparr>)
        (rfold (collector_collect oc ord clock)
           (takeWhile (\<lambda>s. saturating_elapsed_since (ts_ts s) ts \<le> cfg_collection_window (t_config self))
              (rev (view_iter (segments_view store))))
           (Collector_new (t_filter self) interp rate_until)))))"

section \<open>The view: selection and events\<close>

record 'ta SocketTableView =
  v_table :: SocketTable
  v_selected :: "nat option"
  v_filter_view :: "'ta FilterView"

definition SocketTableView_default :: "'ta TextArea \<Rightarrow> 'ta SocketTableView" where
  "SocketTableView_default T =
     \<lparr>v_table = config_build SocketTableConfig_default, v_selected = None, v_filter_view = FilterView_default T\<rparr>"

definition SocketTableView_new :: "'ta TextArea \<Rightarrow> SocketTable \<Rightarrow> CustomFilter option \<Rightarrow> 'ta SocketTableView" where
  "SocketTableView_new T table f =
     \<lparr>v_table = table, v_selected = None, v_filter_view = with_filter T f\<rparr>"

definition view_rows :: "'ta SocketTableView \<Rightarrow> nat" where
  "view_rows self = table_len (v_table self)"

definition view_no_rows :: "'ta SocketTableView \<Rightarrow> bool" where
  "view_no_rows self \<longleftrightarrow> view_rows self = 0"

definition view_down :: "'ta SocketTableView \<Rightarrow> 'ta SocketTableView" where
  "view_down self =
     self\<lparr>v_selected :=
       (if view_no_rows self then None
        else Some (case v_selected self of None \<Rightarrow> 0 | Some s \<Rightarrow> min (s + 1) (view_rows self - 1)))\<rparr>"

definition view_up :: "'ta SocketTableView \<Rightarrow> 'ta SocketTableView" where
  "view_up self =
     self\<lparr>v_selected :=
       (if view_no_rows self then None
        else case v_selected self of None \<Rightarrow> None | Some s \<Rightarrow> Some (min (s - 1) (view_rows self - 1)))\<rparr>"

definition nth_opt :: "'a list \<Rightarrow> nat \<Rightarrow> 'a option" where
  "nth_opt xs i = (if i < length xs then Some (xs ! i) else None)"

definition view_selected :: "'ta SocketTableView \<Rightarrow> Entry option" where
  "view_selected self =
     (case v_selected self of None \<Rightarrow> None | Some s \<Rightarrow> nth_opt (t_dataset (v_table self)) s)"

definition view_selected_pid :: "'ta SocketTableView \<Rightarrow> u32 option" where
  "view_selected_pid self =
     (case v_selected self of None \<Rightarrow> None
      | Some s \<Rightarrow> map_option e_pid (nth_opt (t_dataset (v_table self)) s))"

definition table_handle_event ::
  "'ta TextArea \<Rightarrow> Event \<Rightarrow> 'ta SocketTableView \<Rightarrow> UiEvent option \<times> 'ta SocketTableView" where
  "table_handle_event T event self =
     (if is_editing (v_filter_view self) then
        (case fv_handle_event T event (v_filter_view self) of (u, fv) \<Rightarrow> (u, self\<lparr>v_filter_view := fv\<rparr>))
      else
        case event of
          Key (Char c) ctrl \<Rightarrow>
            if c = CHR ''/'' then (Some Change, self\<lparr>v_filter_view := set_editing T (v_filter_view self)\<rparr>)
            else (None, self)
        | _ \<Rightarrow> (None, self))"

text \<open>The part of \<^verbatim>\<open>render\<close> that changes the view: a collection, unless the display is paused.\<close>

definition table_refresh ::
  "bool \<Rightarrow> (Socket list \<Rightarrow> Socket list) \<Rightarrow> (Entry list \<Rightarrow> Entry list) \<Rightarrow> bool \<Rightarrow> Timestamp \<Rightarrow> ClockNano
    \<Rightarrow> Store \<Rightarrow> 'ta SocketTableView \<Rightarrow> 'ta SocketTableView exec" where
  "table_refresh oc ord vals paused ts clock store self =
     (if paused then Inr self
      else rmap (\<lambda>t. self\<lparr>v_table := t\<rparr>)
             (table_collect oc ord vals ts clock store (fv_interpretor (v_filter_view self)) (v_table self)))"

definition rate_duration :: "SocketTable \<Rightarrow> Duration option" where
  "rate_duration self =
     (case t_rate_range self of
        None \<Rightarrow> None
      | Some (range_start, range_end) \<Rightarrow>
          (let d = saturating_elapsed_since range_start range_end in if d = 0 then None else Some d))"

section \<open>A collection as a ledger\<close>

fun upsert_pure :: "'k \<Rightarrow> ('v \<Rightarrow> 'v) \<Rightarrow> 'v \<Rightarrow> ('k \<times> 'v) list \<Rightarrow> ('k \<times> 'v) list" where
  "upsert_pure k f d [] = [(k, d)]"
| "upsert_pure k f d ((k', v) # kvs) = (if k' = k then (k', f v) # kvs else (k', v) # upsert_pure k f d kvs)"

definition entry_add :: "bool \<Rightarrow> Stat \<Rightarrow> Entry \<Rightarrow> Entry" where
  "entry_add rate stat e = e\<lparr>e_stat := e_stat e + stat, e_rate_stat := e_rate_stat e + (if rate then stat else 0)\<rparr>"

type_synonym visit = "TimeSegment \<times> bool \<times> Socket"

definition cache_post ::
  "Filter \<Rightarrow> Interpretor option \<Rightarrow> ClockNano \<Rightarrow> visit \<Rightarrow> (SocketAddr \<times> Entry) list \<Rightarrow> (SocketAddr \<times> Entry) list" where
  "cache_post f i clock = (\<lambda>(seg, rate, k) cache.
     if socket_kept f i k then
       (let stat = stat_of (ts_segment seg) (LocalSocket (sk_local k))
        in upsert_pure (sk_local k) (entry_add rate stat) (entry_new clock (ts_ts seg) rate stat k) cache)
     else cache)"

definition visit_weight :: "Filter \<Rightarrow> Interpretor option \<Rightarrow> visit \<Rightarrow> SocketAddr \<Rightarrow> Stat" where
  "visit_weight f i = (\<lambda>(seg, rate, k) a.
     if socket_kept f i k \<and> sk_local k = a then stat_of (ts_segment seg) (LocalSocket a) else 0)"

definition visit_rate_weight :: "Filter \<Rightarrow> Interpretor option \<Rightarrow> visit \<Rightarrow> SocketAddr \<Rightarrow> Stat" where
  "visit_rate_weight f i = (\<lambda>(seg, rate, k) a. if rate then visit_weight f i (seg, rate, k) a else 0)"

definition cache_stat :: "(Entry \<Rightarrow> Stat) \<Rightarrow> (SocketAddr \<times> Entry) list \<Rightarrow> SocketAddr \<Rightarrow> Stat" where
  "cache_stat sel cache a = (case map_of cache a of None \<Rightarrow> 0 | Some e \<Rightarrow> sel e)"

lemma map_of_upsert_pure:
  "map_of (upsert_pure k f d kvs) a =
     (if a = k then Some (case map_of kvs k of None \<Rightarrow> d | Some v \<Rightarrow> f v) else map_of kvs a)"
  by (induction kvs) auto

lemma Stat_default_zero: "Stat_default = 0"
  by (simp add: zero_Stat_def)

interpretation table_ledger: ledger "cache_post f i clock" "cache_stat e_stat" "visit_weight f i"
  by unfold_locales
    (auto simp: cache_post_def cache_stat_def visit_weight_def map_of_upsert_pure entry_add_def entry_new_def
      Let_def split: option.splits if_splits)

interpretation rate_ledger: ledger "cache_post f i clock" "cache_stat e_rate_stat" "visit_rate_weight f i"
  by unfold_locales
    (auto simp: cache_post_def cache_stat_def visit_weight_def visit_rate_weight_def map_of_upsert_pure entry_add_def
      entry_new_def Let_def Stat_default_zero split: option.splits if_splits)

section \<open>The code collects as the ledger does\<close>

lemma upsert_Inr:
  assumes "upsert k f d kvs = Inr kvs'" "\<And>v v'. f v = Inr v' \<Longrightarrow> v' = g v"
  shows "kvs' = upsert_pure k g d kvs"
  using assms(1)
proof (induction kvs arbitrary: kvs')
  case (Cons p kvs)
  then show ?case using assms(2) by (cases p) (auto simp: exec_elims split: if_splits)
qed simp

lemma upsert_total:
  assumes "\<And>v. f v = Inr (g v)"
  shows "upsert k f d kvs = Inr (upsert_pure k g d kvs)"
  using assms by (induction kvs) auto

lemma entry_merge_Inr: "entry_merge oc rate stat e = Inr e' \<Longrightarrow> e' = entry_add rate stat e"
  by (auto simp: entry_merge_def entry_add_def exec_elims split: if_splits dest!: Stat_merge_Inr)

lemma entry_merge_release: "entry_merge False rate stat e = Inr (entry_add rate stat e)"
  by (simp add: entry_merge_def entry_add_def Stat_merge_release)

lemma stat_unwrap: "(case stat_by_interest seg i of Some s \<Rightarrow> s | None \<Rightarrow> Stat_default) = stat_of seg i"
  by (simp add: stat_of_def Stat_default_zero split: option.splits)

definition collector_post :: "ClockNano \<Rightarrow> visit \<Rightarrow> SocketTableCollector \<Rightarrow> SocketTableCollector" where
  "collector_post clock v c = c\<lparr>co_cache := cache_post (co_filter c) (co_interpretor c) clock v (co_cache c)\<rparr>"

lemma collect_socket_Inr:
  "collect_socket oc clock seg rate k c = Inr c' \<Longrightarrow> c' = collector_post clock (seg, rate, k) c"
  by (auto simp: collect_socket_def collector_post_def cache_post_def stat_unwrap Let_def exec_elims
      dest!: upsert_Inr [where g = "entry_add rate _"] entry_merge_Inr split: if_splits)

lemma collect_socket_release:
  "collect_socket False clock seg rate k c = Inr (collector_post clock (seg, rate, k) c)"
  by (simp add: collect_socket_def collector_post_def cache_post_def stat_unwrap Let_def
      upsert_total [where g = "entry_add rate _", OF entry_merge_release])

definition seg_visits :: "(Socket list \<Rightarrow> Socket list) \<Rightarrow> Timestamp \<Rightarrow> TimeSegment \<Rightarrow> visit list" where
  "seg_visits ord rate_until seg = map (\<lambda>k. (seg, rate_until \<le> ts_ts seg, k)) (ord (seg_socks (ts_segment seg)))"

definition same_setup :: "SocketTableCollector \<Rightarrow> SocketTableCollector \<Rightarrow> bool" where
  "same_setup c d \<longleftrightarrow> co_filter c = co_filter d \<and> co_interpretor c = co_interpretor d \<and> co_rate_until c = co_rate_until d"

lemma fold_collector_post:
  "co_cache (fold (collector_post clock) vs c) = fold (cache_post (co_filter c) (co_interpretor c) clock) vs (co_cache c)"
  "same_setup (fold (collector_post clock) vs c) c"
  by (induction vs arbitrary: c) (simp_all add: collector_post_def same_setup_def)

lemma rfold_collect_Inr:
  "rfold (collect_socket oc clock seg rate) ks c = Inr c' \<Longrightarrow>
   c' = fold (collector_post clock) (map (\<lambda>k. (seg, rate, k)) ks) c"
  by (induction ks arbitrary: c) (auto split: sum.splits dest: collect_socket_Inr)

lemma rfold_collect_release:
  "rfold (collect_socket False clock seg rate) ks c =
   Inr (fold (collector_post clock) (map (\<lambda>k. (seg, rate, k)) ks) c)"
  by (induction ks arbitrary: c) (simp_all add: collect_socket_release)

lemma collector_collect_Inr:
  assumes "collector_collect oc ord clock seg c = Inr c'"
  shows "co_cache c' = fold (cache_post (co_filter c) (co_interpretor c) clock)
      (seg_visits ord (co_rate_until c) seg) (co_cache c)" "same_setup c' c"
proof -
  let ?r = "co_rate_until c \<le> ts_ts seg"
  let ?c = "if ?r then c\<lparr>co_oldest := Some (ts_ts seg), co_oldest_rate := Some (ts_ts seg)\<rparr>
    else c\<lparr>co_oldest := Some (ts_ts seg)\<rparr>"
  have "c' = fold (collector_post clock) (seg_visits ord (co_rate_until c) seg) ?c"
    using assms unfolding collector_collect_def for_each_socket_def seg_visits_def Let_def
    by (auto dest!: rfold_collect_Inr split: if_splits)
  then show "co_cache c' = fold (cache_post (co_filter c) (co_interpretor c) clock)
      (seg_visits ord (co_rate_until c) seg) (co_cache c)" "same_setup c' c"
    using fold_collector_post [of clock "seg_visits ord (co_rate_until c) seg" ?c]
    by (auto simp: same_setup_def)
qed

lemma rfold_collector_Inr:
  assumes "rfold (collector_collect oc ord clock) segs c = Inr c'"
  shows "co_cache c' = fold (cache_post (co_filter c) (co_interpretor c) clock)
      (concat (map (seg_visits ord (co_rate_until c)) segs)) (co_cache c)"
  using assms
proof (induction segs arbitrary: c)
  case (Cons seg segs)
  then obtain d where d: "collector_collect oc ord clock seg c = Inr d" "rfold (collector_collect oc ord clock) segs d = Inr c'"
    by (auto split: sum.splits)
  show ?case using Cons.IH [OF d(2)] collector_collect_Inr [OF d(1)] by (simp add: same_setup_def)
qed simp

lemma rfold_collector_release: "\<exists>c'. rfold (collector_collect False ord clock) segs c = Inr c'"
  by (induction segs arbitrary: c)
    (simp_all add: collector_collect_def for_each_socket_def rfold_collect_release Let_def)

text \<open>The segments a collection looks at, newest first.\<close>

definition collected :: "Duration \<Rightarrow> Timestamp \<Rightarrow> Store \<Rightarrow> TimeSegment list" where
  "collected window ts store =
     takeWhile (\<lambda>s. saturating_elapsed_since (ts_ts s) ts \<le> window) (rev (st_segments store))"

lemma table_collect_Inr:
  assumes "table_collect oc ord vals ts0 clock store interp t = Inr t'"
  obtains ts until cache where
    "trunc ts0 (st_window store) = Inr ts"
    "rate_start (cfg_rate_window (t_config t)) (st_window store) ts = Inr until"
    "t_dataset t' = vals (map snd cache)"
    "cache = fold (cache_post (t_filter t) interp clock)
       (concat (map (seg_visits ord until) (collected (cfg_collection_window (t_config t)) ts store))) []"
  using assms
  by (auto simp: table_collect_def exec_elims collected_def view_iter_def segments_view_def store_window_def
      Let_def Collector_new_def dest!: rfold_collector_Inr)

section \<open>Keys of a collection\<close>

definition cache_inv :: "(SocketAddr \<times> Entry) list \<Rightarrow> bool" where
  "cache_inv cache \<longleftrightarrow> distinct (map fst cache) \<and> (\<forall>(a, e) \<in> set cache. sk_local (e_socket e) = a
     \<and> e_pid e = sk_pid (e_socket e))"

lemma upsert_pure_keys: "fst ` set (upsert_pure k f d kvs) = insert k (fst ` set kvs)"
  by (induction k f d kvs rule: upsert_pure.induct) (simp_all add: insert_commute)

lemma upsert_pure_distinct: "distinct (map fst kvs) \<Longrightarrow> distinct (map fst (upsert_pure k f d kvs))"
proof (induction kvs)
  case (Cons p kvs)
  obtain k' v where p: "p = (k', v)" by (cases p)
  show ?case using Cons by (cases "k' = k") (simp_all add: p upsert_pure_keys)
qed simp

lemma upsert_pure_mem: "(a, e) \<in> set (upsert_pure k f d kvs) \<Longrightarrow>
   (a, e) \<in> set kvs \<or> (a, e) = (k, d) \<or> (\<exists>v. (a, v) \<in> set kvs \<and> e = f v)"
  by (induction kvs) (auto split: if_splits)

lemma cache_inv_post: "cache_inv cache \<Longrightarrow> cache_inv (cache_post f i clock v cache)"
proof -
  assume c: "cache_inv cache"
  obtain seg rate k where v: "v = (seg, rate, k)" by (cases v)
  let ?s = "stat_of (ts_segment seg) (LocalSocket (sk_local k))"
  have "sk_local (e_socket e) = a \<and> e_pid e = sk_pid (e_socket e)"
    if "(a, e) \<in> set (upsert_pure (sk_local k) (entry_add rate ?s) (entry_new clock (ts_ts seg) rate ?s k) cache)" for a e
    using upsert_pure_mem [OF that] c by (auto simp: cache_inv_def entry_add_def entry_new_def)
  then show ?thesis
    using c by (auto simp: v cache_post_def Let_def cache_inv_def upsert_pure_distinct)
qed

lemma cache_inv_fold: "cache_inv cache \<Longrightarrow> cache_inv (fold (cache_post f i clock) vs cache)"
  by (induction vs arbitrary: cache) (simp_all add: cache_inv_post)

lemma cache_keys_fold:
  "fst ` set (fold (cache_post f i clock) vs cache) =
   fst ` set cache \<union> {sk_local k | seg rate k. (seg, rate, k) \<in> set vs \<and> socket_kept f i k}"
proof (induction vs arbitrary: cache)
  case (Cons v vs)
  obtain seg rate k where v: "v = (seg, rate, k)" by (cases v)
  show ?case
    unfolding fold_simps comp_apply Cons.IH
    by (auto simp: v cache_post_def Let_def upsert_pure_keys)
qed simp

section \<open>What the rows add up to\<close>

text \<open>What a segment contributes to the row of a local address.\<close>

definition seg_share :: "Filter \<Rightarrow> Interpretor option \<Rightarrow> Segment \<Rightarrow> SocketAddr \<Rightarrow> Stat" where
  "seg_share f i seg a =
     (if \<exists>k \<in> set (seg_socks seg). socket_kept f i k \<and> sk_local k = a then stat_of seg (LocalSocket a) else 0)"

definition permutes_list :: "('a list \<Rightarrow> 'a list) \<Rightarrow> bool" where
  "permutes_list ord \<longleftrightarrow> (\<forall>xs. mset (ord xs) = mset xs)"

lemma permutes_sum: "permutes_list ord \<Longrightarrow> sum_list (map g (ord xs)) = sum_list (map g xs)"
  for g :: "'a \<Rightarrow> 'v::comm_monoid_add"
  by (simp add: permutes_list_def flip: sum_mset_sum_list)

lemma permutes_set: "permutes_list ord \<Longrightarrow> set (ord xs) = set xs"
  unfolding permutes_list_def using mset_eq_setD by blast

lemma sum_list_concat: "sum_list (map g (concat xss)) = sum_list (map (\<lambda>xs. sum_list (map g xs)) xss)"
  for g :: "'a \<Rightarrow> 'v::comm_monoid_add"
  by (induction xss) simp_all

lemma kept_share_sum:
  assumes "distinct (map sk_local ks)"
  shows "sum_list (map (\<lambda>k. if P k \<and> sk_local k = a then w else 0) ks) =
    (if \<exists>k \<in> set ks. P k \<and> sk_local k = a then w else (0::Stat))"
proof (cases "\<exists>k \<in> set ks. P k \<and> sk_local k = a")
  case True
  then obtain k0 where k0: "k0 \<in> set ks" "P k0" "sk_local k0 = a" by blast
  have "P k \<and> sk_local k = a \<longleftrightarrow> sk_local k = a" if "k \<in> set ks" for k
    using assms k0 that by (auto simp: distinct_map inj_on_def)
  then have "map (\<lambda>k. if P k \<and> sk_local k = a then w else 0) ks = map (\<lambda>k. if sk_local k = a then w else 0) ks"
    by (intro map_cong) auto
  moreover have "sum_list (map (\<lambda>k. if sk_local k = a then w else 0) ks) = w"
    using assms k0 by (intro sum_list_key) auto
  ultimately show ?thesis using True by (simp only: if_True)
next
  case False
  then have "map (\<lambda>k. if P k \<and> sk_local k = a then w else 0) ks = map (\<lambda>k. 0) ks"
    by (intro map_cong) auto
  then have "sum_list (map (\<lambda>k. if P k \<and> sk_local k = a then w else 0) ks) = 0"
    by (simp only: sum_list_0)
  then show ?thesis using False by (simp only: if_False)
qed

lemma seg_visits_share:
  assumes "permutes_list ord" "distinct (map sk_local (seg_socks (ts_segment seg)))"
  shows "sum_list (map (\<lambda>v. visit_weight f i v a) (seg_visits ord u seg)) = seg_share f i (ts_segment seg) a"
  using kept_share_sum [of "seg_socks (ts_segment seg)"] assms(2)
  by (simp add: seg_visits_def visit_weight_def comp_def permutes_sum [OF assms(1)] seg_share_def)

lemma seg_visits_rate_share:
  assumes "permutes_list ord" "distinct (map sk_local (seg_socks (ts_segment seg)))"
  shows "sum_list (map (\<lambda>v. visit_rate_weight f i v a) (seg_visits ord u seg)) =
    (if u \<le> ts_ts seg then seg_share f i (ts_segment seg) a else 0)"
  using seg_visits_share [OF assms, of f i a u]
  by (cases "u \<le> ts_ts seg") (simp_all add: seg_visits_def visit_rate_weight_def comp_def)

text \<open>Each row shows the traffic of its address over the segments collected, and its rate
  column that of the segments of the rate window.\<close>

lemma cache_rows:
  assumes ord: "permutes_list ord"
    and inv: "\<And>s. s \<in> set segs \<Longrightarrow> distinct (map sk_local (seg_socks (ts_segment s)))"
    and cache: "cache = fold (cache_post f i clock) (concat (map (seg_visits ord u) segs)) []"
    and row: "(a, e) \<in> set cache"
  shows "e_stat e = sum_list (map (\<lambda>s. seg_share f i (ts_segment s) a) segs)"
    "e_rate_stat e = sum_list (map (\<lambda>s. if u \<le> ts_ts s then seg_share f i (ts_segment s) a else 0) segs)"
proof -
  have "cache_inv cache" unfolding cache by (rule cache_inv_fold) (simp add: cache_inv_def)
  then have m: "map_of cache a = Some e" using row by (simp add: cache_inv_def)
  have "e_stat e = cache_stat e_stat cache a" using m by (simp add: cache_stat_def)
  also have "\<dots> = sum_list (map (\<lambda>v. visit_weight f i v a) (concat (map (seg_visits ord u) segs)))"
    unfolding cache table_ledger.balance_fold by (simp add: cache_stat_def)
  also have "\<dots> = sum_list (map (\<lambda>s. seg_share f i (ts_segment s) a) segs)"
    unfolding sum_list_concat using inv seg_visits_share [OF ord] by (simp add: comp_def cong: map_cong)
  finally show "e_stat e = sum_list (map (\<lambda>s. seg_share f i (ts_segment s) a) segs)" .
  have "e_rate_stat e = cache_stat e_rate_stat cache a" using m by (simp add: cache_stat_def)
  also have "\<dots> = sum_list (map (\<lambda>v. visit_rate_weight f i v a) (concat (map (seg_visits ord u) segs)))"
    unfolding cache rate_ledger.balance_fold by (simp add: cache_stat_def)
  also have "\<dots> = sum_list (map (\<lambda>s. if u \<le> ts_ts s then seg_share f i (ts_segment s) a else 0) segs)"
    unfolding sum_list_concat using inv seg_visits_rate_share [OF ord] by (simp add: comp_def cong: map_cong)
  finally show "e_rate_stat e = sum_list (map (\<lambda>s. if u \<le> ts_ts s then seg_share f i (ts_segment s) a else 0) segs)" .
qed

text \<open>Without a filter the rows add up to the whole traffic of the segments collected.\<close>

lemma socket_kept_all [simp]: "socket_kept NoFilter None k"
  by (simp add: socket_kept_def match_interest_def filter_interest_def)

lemma seg_share_sum:
  assumes "distinct (map sk_local (seg_socks seg))" "finite K" "sk_local ` set (seg_socks seg) \<subseteq> K"
  shows "(\<Sum>a \<in> K. seg_share NoFilter None seg a)
    = sum_list (map (\<lambda>s. stat_of seg (LocalSocket (sk_local s))) (seg_socks seg))"
proof -
  let ?L = "sk_local ` set (seg_socks seg)"
  have "(\<Sum>a \<in> K. seg_share NoFilter None seg a) = (\<Sum>a \<in> ?L. seg_share NoFilter None seg a)"
    using assms(2,3) by (intro sum.mono_neutral_right) (auto simp: seg_share_def)
  also have "\<dots> = (\<Sum>a \<in> ?L. stat_of seg (LocalSocket a))"
    by (intro sum.cong) (auto simp: seg_share_def)
  also have "\<dots> = sum_list (map (\<lambda>a. stat_of seg (LocalSocket a)) (map sk_local (seg_socks seg)))"
    using assms(1) by (subst sum_list_distinct_conv_sum_set) simp_all
  finally show ?thesis by (simp add: comp_def)
qed

lemma sum_of_sum_list: "(\<Sum>a \<in> K. sum_list (map (\<lambda>s. g s a) xs)) = sum_list (map (\<lambda>s. \<Sum>a \<in> K. g s a) xs)"
  for g :: "'s \<Rightarrow> 'a \<Rightarrow> 'v::comm_monoid_add"
  by (induction xs) (simp_all add: sum.distrib)

lemma visits_mem:
  assumes "permutes_list ord"
  shows "(seg, rate, k) \<in> set (concat (map (seg_visits ord u) segs)) \<longleftrightarrow>
    seg \<in> set segs \<and> rate = (u \<le> ts_ts seg) \<and> k \<in> set (seg_socks (ts_segment seg))"
  by (auto simp: seg_visits_def permutes_set [OF assms])

lemma cache_keys:
  assumes "permutes_list ord"
  shows "fst ` set (fold (cache_post f i clock) (concat (map (seg_visits ord u) segs)) []) =
    {sk_local k | k s. s \<in> set segs \<and> k \<in> set (seg_socks (ts_segment s)) \<and> socket_kept f i k}"
  unfolding cache_keys_fold visits_mem [OF assms] by auto

lemma cache_shares:
  assumes ord: "permutes_list ord"
    and inv: "\<And>s. s \<in> set segs \<Longrightarrow> distinct (map sk_local (seg_socks (ts_segment s)))"
    and cache: "cache = fold (cache_post NoFilter None clock) (concat (map (seg_visits ord u) segs)) []"
  shows "sum_list (map e_stat (map snd cache))
    = sum_list (map (\<lambda>s. \<Sum>a \<in> fst ` set cache. seg_share NoFilter None (ts_segment s) a) segs)"
    "\<And>s. s \<in> set segs \<Longrightarrow> sk_local ` set (seg_socks (ts_segment s)) \<subseteq> fst ` set cache"
proof -
  have ci: "cache_inv cache" unfolding cache by (rule cache_inv_fold) (simp add: cache_inv_def)
  let ?K = "fst ` set cache"
  let ?share = "\<lambda>a. sum_list (map (\<lambda>s. seg_share NoFilter None (ts_segment s) a) segs)"
  show "sk_local ` set (seg_socks (ts_segment s)) \<subseteq> ?K" if "s \<in> set segs" for s
    using that unfolding cache cache_keys [OF ord] by auto
  have row: "e_stat (snd p) = ?share (fst p)" if "p \<in> set cache" for p
    using that by (intro cache_rows(1) [OF ord inv cache]) simp_all
  have "map e_stat (map snd cache) = map ?share (map fst cache)"
    unfolding map_map comp_def by (intro map_cong refl row)
  then have "sum_list (map e_stat (map snd cache)) = sum_list (map ?share (map fst cache))" by (rule arg_cong)
  also have "\<dots> = (\<Sum>a \<in> ?K. ?share a)"
    using ci by (subst sum_list_distinct_conv_sum_set) (simp_all add: cache_inv_def)
  also have "\<dots> = sum_list (map (\<lambda>s. \<Sum>a \<in> ?K. seg_share NoFilter None (ts_segment s) a) segs)"
    by (rule sum_of_sum_list)
  finally show "sum_list (map e_stat (map snd cache))
    = sum_list (map (\<lambda>s. \<Sum>a \<in> ?K. seg_share NoFilter None (ts_segment s) a) segs)" .
qed

lemma store_inv_locals:
  "store_inv store \<Longrightarrow> s \<in> set (st_segments store) \<Longrightarrow> distinct (map sk_local (seg_socks (ts_segment s)))"
  using store_invD(6) by (simp add: seg_inv_def seg_keys_def)

lemma collected_subset: "set (collected w ts st) \<subseteq> set (st_segments st)"
  unfolding collected_def by (auto dest: set_takeWhileD)

lemma table_collect_total_locals:
  assumes inv: "\<And>s. s \<in> set (st_segments store) \<Longrightarrow> distinct (map sk_local (seg_socks (ts_segment s)))"
    and perm: "permutes_list ord" "permutes_list vals"
    and run: "table_collect oc ord vals ts0 clock store None t = Inr t'" and f: "t_filter t = NoFilter"
  shows "\<exists>ts. trunc ts0 (st_window store) = Inr ts \<and> sum_list (map e_stat (t_dataset t')) =
    sum_list (map (\<lambda>s. sum_list (map (\<lambda>k. stat_of (ts_segment s) (LocalSocket (sk_local k))) (seg_socks (ts_segment s))))
      (collected (cfg_collection_window (t_config t)) ts store))"
proof -
  obtain ts u cache where r: "trunc ts0 (st_window store) = Inr ts" "t_dataset t' = vals (map snd cache)"
    "cache = fold (cache_post NoFilter None clock)
       (concat (map (seg_visits ord u) (collected (cfg_collection_window (t_config t)) ts store))) []"
    using run f by (elim table_collect_Inr) simp
  have d: "\<And>s. s \<in> set (collected (cfg_collection_window (t_config t)) ts store)
      \<Longrightarrow> distinct (map sk_local (seg_socks (ts_segment s)))"
    using collected_subset inv by blast
  note C = cache_shares [OF perm(1) d r(3)]
  show ?thesis
    using r(1,2) permutes_sum [OF perm(2), of e_stat] C(1) seg_share_sum [OF d _ C(2)] by (simp cong: map_cong)
qed

lemma table_collect_total_stat:
  assumes inv: "store_inv store" and perm: "permutes_list ord" "permutes_list vals"
    and run: "table_collect oc ord vals ts0 clock store None t = Inr t'" and f: "t_filter t = NoFilter"
  shows "\<exists>ts. trunc ts0 (st_window store) = Inr ts \<and> sum_list (map e_stat (t_dataset t')) =
    sum_list (map (\<lambda>s. stat_of (ts_segment s) All) (collected (cfg_collection_window (t_config t)) ts store))"
proof -
  have "stat_of (ts_segment s) All
      = sum_list (map (\<lambda>k. stat_of (ts_segment s) (LocalSocket (sk_local k))) (seg_socks (ts_segment s)))"
    if "s \<in> set (collected (cfg_collection_window (t_config t)) ts store)" for s ts
    using store_invD(6) [OF inv] collected_subset that unfolding seg_inv_def seg_conserves_def by blast
  then show ?thesis
    using table_collect_total_locals [OF store_inv_locals [OF inv] perm run f] by (simp cong: map_cong)
qed

text \<open>The rows: one per local address, for the sockets the filters keep, with their traffic.\<close>

lemma table_collect_rows:
  assumes inv: "\<And>s. s \<in> set (st_segments store) \<Longrightarrow> distinct (map sk_local (seg_socks (ts_segment s)))"
    and perm: "permutes_list ord" "permutes_list vals"
    and run: "table_collect oc ord vals ts0 clock store i t = Inr t'"
  shows "\<exists>ts segs recent. trunc ts0 (st_window store) = Inr ts
    \<and> segs = collected (cfg_collection_window (t_config t)) ts store
    \<and> distinct (map (\<lambda>e. sk_local (e_socket e)) (t_dataset t'))
    \<and> (\<lambda>e. sk_local (e_socket e)) ` set (t_dataset t')
        = {sk_local k | k s. s \<in> set segs \<and> k \<in> set (seg_socks (ts_segment s)) \<and> socket_kept (t_filter t) i k}
    \<and> rate_start (cfg_rate_window (t_config t)) (st_window store) ts = Inr recent
    \<and> (\<forall>e \<in> set (t_dataset t').
         e_stat e = sum_list (map (\<lambda>s. seg_share (t_filter t) i (ts_segment s) (sk_local (e_socket e))) segs)
       \<and> e_rate_stat e = sum_list (map (\<lambda>s. if recent \<le> ts_ts s
             then seg_share (t_filter t) i (ts_segment s) (sk_local (e_socket e)) else 0) segs))"
proof -
  obtain ts u cache where r: "trunc ts0 (st_window store) = Inr ts" "t_dataset t' = vals (map snd cache)"
    "cache = fold (cache_post (t_filter t) i clock)
       (concat (map (seg_visits ord u) (collected (cfg_collection_window (t_config t)) ts store))) []"
    "rate_start (cfg_rate_window (t_config t)) (st_window store) ts = Inr u"
    using run by (elim table_collect_Inr)
  let ?segs = "collected (cfg_collection_window (t_config t)) ts store"
  have si: "\<And>s. s \<in> set ?segs \<Longrightarrow> distinct (map sk_local (seg_socks (ts_segment s)))"
    using collected_subset inv by blast
  have ci: "cache_inv cache" unfolding r(3) by (rule cache_inv_fold) (simp add: cache_inv_def)
  have loc: "map (\<lambda>e. sk_local (e_socket e)) (map snd cache) = map fst cache"
    using ci by (auto simp: cache_inv_def)
  have ds: "mset (t_dataset t') = mset (map snd cache)" using r(2) perm(2) by (simp add: permutes_list_def)
  have m: "mset (map (\<lambda>e. sk_local (e_socket e)) (t_dataset t')) = mset (map fst cache)"
    unfolding loc [symmetric] mset_map ds ..
  have "distinct (map (\<lambda>e. sk_local (e_socket e)) (t_dataset t'))"
    using ci mset_eq_imp_distinct_iff [OF m] by (simp add: cache_inv_def)
  moreover have "(\<lambda>e. sk_local (e_socket e)) ` set (t_dataset t') = fst ` set cache"
    using mset_eq_setD [OF m] by simp
  moreover have "fst ` set cache = {sk_local k | k s. s \<in> set ?segs \<and> k \<in> set (seg_socks (ts_segment s)) \<and> socket_kept (t_filter t) i k}"
    unfolding r(3) by (rule cache_keys [OF perm(1)])
  moreover have "e_stat e = sum_list (map (\<lambda>s. seg_share (t_filter t) i (ts_segment s) (sk_local (e_socket e))) ?segs)
      \<and> e_rate_stat e = sum_list (map (\<lambda>s. if u \<le> ts_ts s
            then seg_share (t_filter t) i (ts_segment s) (sk_local (e_socket e)) else 0) ?segs)"
    if "e \<in> set (t_dataset t')" for e
  proof -
    have "e \<in> set (map snd cache)" using that mset_eq_setD [OF ds] by simp
    then obtain a where "(a, e) \<in> set cache" by auto
    then show ?thesis using cache_rows [OF perm(1) si r(3)] ci by (auto simp: cache_inv_def)
  qed
  ultimately show ?thesis
    using r(1,4) by (intro exI [of _ ts] exI [of _ ?segs] exI [of _ u]) simp
qed

lemma table_collect_release:
  assumes D: "0 < st_window store" "u64_range (st_window store)" and ts0: "u64_range ts0"
  shows "\<exists>t'. table_collect False ord vals ts0 clock store i t = Inr t'"
proof -
  obtain ts where ts: "trunc ts0 (st_window store) = Inr ts"
    using clk.bucket_total [OF ts0 D(2,1)] by blast
  have "u64_range (max (ts - cfg_rate_window (t_config t)) (st_window store))"
    using trunc_u64 [OF ts] D(2) by (auto simp: max_def)
  then obtain u where "rate_start (cfg_rate_window (t_config t)) (st_window store) ts = Inr u"
    unfolding rate_start_def using clk.bucket_total [OF _ D(2,1)] by blast
  moreover obtain c' where "rfold (collector_collect False ord clock)
      (takeWhile (\<lambda>s. saturating_elapsed_since (ts_ts s) ts \<le> cfg_collection_window (t_config t))
        (rev (view_iter (segments_view store)))) (Collector_new (t_filter t) i u) = Inr c'"
    using rfold_collector_release by blast
  ultimately show ?thesis using ts by (simp add: table_collect_def store_window_def)
qed

section \<open>The selected row\<close>

definition selection_ok :: "'ta SocketTableView \<Rightarrow> bool" where
  "selection_ok v \<longleftrightarrow> (case v_selected v of None \<Rightarrow> True | Some s \<Rightarrow> s < view_rows v)"

lemma view_move_ok: "selection_ok (view_down v)" "selection_ok (view_up v)"
  by (auto simp: selection_ok_def view_down_def view_up_def view_rows_def view_no_rows_def split: option.splits)

lemma view_down_selects: "view_rows v \<noteq> 0 \<Longrightarrow> view_selected (view_down v) \<noteq> None"
proof -
  assume r: "view_rows v \<noteq> 0"
  then obtain i where i: "v_selected (view_down v) = Some i" by (simp add: view_down_def view_no_rows_def)
  then have "i < view_rows (view_down v)" using view_move_ok(1) [of v] by (simp add: selection_ok_def)
  then show ?thesis using i by (simp add: view_selected_def nth_opt_def view_rows_def table_len_def)
qed

lemma view_rows_down [simp]: "view_rows (view_down v) = view_rows v"
  by (simp add: view_down_def view_rows_def)

text \<open>Going down from no selection visits every row in order and stays on the last.\<close>

lemma view_down_run:
  assumes "view_rows v = Suc n" "v_selected v = None"
  shows "v_selected ((view_down ^^ Suc k) v) = Some (min k n)"
proof (induction k)
  case 0
  then show ?case using assms by (simp add: view_down_def view_no_rows_def)
next
  case (Suc k)
  define w where "w = (view_down ^^ Suc k) v"
  have "view_rows ((view_down ^^ m) v) = Suc n" for m by (induction m) (simp_all add: assms)
  then have "view_rows w = Suc n" "v_selected w = Some (min k n)" using Suc unfolding w_def by blast+
  then have "v_selected (view_down w) = Some (min (Suc k) n)"
    by (simp add: view_down_def view_no_rows_def)
  then show ?case by (simp add: w_def)
qed

lemma view_selected_pid_eq: "view_selected_pid v = map_option e_pid (view_selected v)"
  by (simp add: view_selected_pid_def view_selected_def split: option.splits)

section \<open>Properties\<close>

lemma sample_collection:
  obtains st t' where
    "run_updates Little True create_updates (Store_new (from_millis 100) 16) = Some (Inr st)" "store_inv st"
    "table_collect False id id (from_millis 401) \<lparr>clock_start = 0, clock_wall_time = 0\<rparr> st None
       (SocketTable_new SocketTableConfig_default) = Inr t'"
proof -
  have w: "0 < from_millis 100" "u64_range (from_millis 100)" by (simp_all add: from_millis_def)
  obtain st where st: "run_updates Little True create_updates (Store_new (from_millis 100) 16) = Some (Inr st)" "store_inv st"
    using run_updates_refines [OF Store_new_inv [OF w, of 16] represents_empty, where us = create_updates]
      create_updates_ok by blast
  have "u64_range (from_millis 401)" by (simp add: from_millis_def)
  then obtain t' where "table_collect False id id (from_millis 401) \<lparr>clock_start = 0, clock_wall_time = 0\<rparr> st None
       (SocketTable_new SocketTableConfig_default) = Inr t'"
    using table_collect_release [OF store_invD(1,2) [OF st(2)]] by blast
  then show thesis using that st by blast
qed



text \<open>C17. Without a filter the table accounts for all the traffic: the traffic of its rows adds
  up to the traffic of the segments within the collection window.\<close>

theorem table_total:
  assumes "store_inv store" "permutes_list ord" "permutes_list vals"
    and "table_collect oc ord vals ts0 clock store None t = Inr t'" "t_filter t = NoFilter"
  shows "\<exists>ts. trunc ts0 (st_window store) = Inr ts \<and> sum_list (map e_stat (t_dataset t')) =
    sum_list (map (\<lambda>s. stat_of (ts_segment s) All) (collected (cfg_collection_window (t_config t)) ts store))"
  by (rule table_collect_total_stat [OF assms])

theorem table_total_witness:
  "\<exists>st t' ts. run_updates Little True create_updates (Store_new (from_millis 100) 16) = Some (Inr st)
     \<and> table_collect False id id (from_millis 401) \<lparr>clock_start = 0, clock_wall_time = 0\<rparr> st None
         (SocketTable_new SocketTableConfig_default) = Inr t'
     \<and> sum_list (map e_stat (t_dataset t')) = sum_list (map (\<lambda>s. stat_of (ts_segment s) All) (collected (from_secs 300) ts st))"
proof -
  obtain st t' where s: "run_updates Little True create_updates (Store_new (from_millis 100) 16) = Some (Inr st)"
      "store_inv st"
    "table_collect False id id (from_millis 401) \<lparr>clock_start = 0, clock_wall_time = 0\<rparr> st None
       (SocketTable_new SocketTableConfig_default) = Inr t'"
    by (rule sample_collection)
  have p: "permutes_list (id :: Socket list \<Rightarrow> Socket list)" "permutes_list (id :: Entry list \<Rightarrow> Entry list)"
    by (simp_all add: permutes_list_def)
  have t: "t_filter (SocketTable_new SocketTableConfig_default) = NoFilter"
    "cfg_collection_window (t_config (SocketTable_new SocketTableConfig_default)) = from_secs 300"
    by (simp_all add: SocketTable_new_def SocketTableConfig_default_def Filter_default_def)
  show ?thesis using table_total [OF s(2) p s(3) t(1)] s(1,3) t(2) by auto
qed

text \<open>C37. Moving the selection never leaves it on a row that does not exist, and moving down in
  a table with rows selects a row of the table.\<close>

theorem selection_valid:
  "selection_ok (view_down v) \<and> selection_ok (view_up v)
   \<and> (view_rows v = 0 \<or> (\<exists>e. view_selected (view_down v) = Some e \<and> e \<in> set (t_dataset (v_table v))))"
proof -
  have "\<exists>e. view_selected (view_down v) = Some e \<and> e \<in> set (t_dataset (v_table v))" if rows: "view_rows v \<noteq> 0"
  proof -
    obtain e where e: "view_selected (view_down v) = Some e" using view_down_selects [OF rows] by blast
    have "v_table (view_down v) = v_table v" by (simp add: view_down_def)
    then show ?thesis using e by (auto simp: view_selected_def nth_opt_def split: option.splits if_splits)
  qed
  then show ?thesis using view_move_ok by blast
qed

end
