(* ===== verification/Sparkline.thy ===== *)
theory Sparkline
  imports Store_Window Ui_Common
begin

text \<open>
  \<^verbatim>\<open>ptraf/src/ui/traffic_sparkline.rs\<close>: the series behind the traffic graph. A collection
  drops the points whose segments left the store, and adds a point for each segment
  completed since the last one.

  The interpolation of the series onto the width of the screen calls a library on floating
  point numbers; \<open>interpolate\<close> takes those operations as arguments. Drawing is not modelled.
\<close>

record DataPoint =
  dp_ts :: Timestamp
  dp_rx :: u64
  dp_tx :: u64

record TrafficSparkline =
  sp_filter :: Filter
  sp_dataset :: "DataPoint list"
  sp_reverse_buffer :: "DataPoint list"

definition TrafficSparkline_default :: TrafficSparkline where
  "TrafficSparkline_default = \<lparr>sp_filter = Filter_default, sp_dataset = [], sp_reverse_buffer = []\<rparr>"

definition spark_with_filter :: "Filter \<Rightarrow> TrafficSparkline" where
  "spark_with_filter f = TrafficSparkline_default\<lparr>sp_filter := f\<rparr>"

section \<open>Collection\<close>

definition opt_rx :: "Stat option \<Rightarrow> u64" where
  "opt_rx s = (case s of Some st \<Rightarrow> rx st | None \<Rightarrow> 0)"

definition opt_tx :: "Stat option \<Rightarrow> u64" where
  "opt_tx s = (case s of Some st \<Rightarrow> tx st | None \<Rightarrow> 0)"

definition point_add_socket ::
  "bool \<Rightarrow> Interpretor \<Rightarrow> Segment \<Rightarrow> Socket \<Rightarrow> DataPoint \<Rightarrow> DataPoint exec" where
  "point_add_socket oc interp seg socket dp =
     (if \<not> interpretor_filter interp Socket_filterable socket then Inr dp
      else
        let stat = stat_by_interest seg (LocalSocket (sk_local socket)) in
        rbind (add_u64 oc (dp_rx dp) (opt_rx stat)) (\<lambda>r.
        rmap (\<lambda>t. dp\<lparr>dp_rx := r, dp_tx := t\<rparr>) (add_u64 oc (dp_tx dp) (opt_tx stat))))"

definition make_point ::
  "bool \<Rightarrow> (Socket list \<Rightarrow> Socket list) \<Rightarrow> Filter \<Rightarrow> Interpretor option \<Rightarrow> TimeSegment \<Rightarrow> DataPoint exec" where
  "make_point oc ord f interp s =
     (let dp = \<lparr>dp_ts = ts_ts s, dp_rx = 0, dp_tx = 0\<rparr> in
      case interp of
        Some i \<Rightarrow> for_each_socket ord (point_add_socket oc i (ts_segment s)) (ts_segment s) dp
      | None \<Rightarrow>
          (let stat = stat_by_interest (ts_segment s) (filter_interest f)
           in Inr (dp\<lparr>dp_rx := opt_rx stat, dp_tx := opt_tx stat\<rparr>)))"

text \<open>The loop that pops outdated points from the front.\<close>

fun discard_outdated :: "Timestamp \<Rightarrow> DataPoint list \<Rightarrow> DataPoint list" where
  "discard_outdated oldest [] = []"
| "discard_outdated oldest (dp # dps) = (if dp_ts dp < oldest then discard_outdated oldest dps else dp # dps)"

definition spark_start :: "TrafficSparkline \<Rightarrow> Timestamp" where
  "spark_start self = (case deque_back (sp_dataset self) of Some dp \<Rightarrow> dp_ts dp | None \<Rightarrow> 0)"

definition push_point ::
  "bool \<Rightarrow> (Socket list \<Rightarrow> Socket list) \<Rightarrow> Filter \<Rightarrow> Interpretor option \<Rightarrow> TimeSegment \<Rightarrow> DataPoint list \<Rightarrow> DataPoint list exec" where
  "push_point oc ord f interp s buf = rmap (\<lambda>dp. buf @ [dp]) (make_point oc ord f interp s)"

definition spark_collect ::
  "bool \<Rightarrow> (Socket list \<Rightarrow> Socket list) \<Rightarrow> Store \<Rightarrow> Interpretor option \<Rightarrow> TrafficSparkline \<Rightarrow> TrafficSparkline exec" where
  "spark_collect oc ord store interp self =
     (let view = segments_view store;
          dataset = (case view_oldest view of
                       Some s \<Rightarrow> discard_outdated (ts_ts s) (sp_dataset self)
                     | None \<Rightarrow> sp_dataset self)
      in rmap (\<lambda>buf. self\<lparr>sp_dataset := dataset @ rev (drop 1 buf), sp_reverse_buffer := []\<rparr>)
           (rfold (push_point oc ord (sp_filter self) interp)
              (takeWhile (\<lambda>s. spark_start self < ts_ts s) (rev (view_iter view)))
              (sp_reverse_buffer self)))"

text \<open>\<^verbatim>\<open>interpolate\<close>: \<open>at\<close> is \<open>output_interval * idx + start\<close>, \<open>interp\<close> the library's
  interpolation.\<close>

definition interpolate ::
  "('x \<Rightarrow> 'x \<Rightarrow> nat \<Rightarrow> 'x) \<Rightarrow> ('x list \<Rightarrow> 'x list \<Rightarrow> 'x \<Rightarrow> 'x) \<Rightarrow> 'x list \<Rightarrow> 'x list \<Rightarrow> 'x list \<Rightarrow> 'x \<Rightarrow> 'x list" where
  "interpolate at interp input_ts input_val output_buf output_interval =
     (if output_buf = [] \<or> input_ts = [] \<or> input_val = [] then output_buf
      else map (\<lambda>idx. interp input_ts input_val (at output_interval (hd input_ts) idx)) [0..<length output_buf])"

section \<open>The points of a collection\<close>

definition point_of :: "(Socket list \<Rightarrow> Socket list) \<Rightarrow> Filter \<Rightarrow> Interpretor option \<Rightarrow> TimeSegment \<Rightarrow> DataPoint" where
  "point_of ord f interp s =
     (case interp of
        None \<Rightarrow> \<lparr>dp_ts = ts_ts s, dp_rx = rx (stat_of (ts_segment s) (filter_interest f)),
                 dp_tx = tx (stat_of (ts_segment s) (filter_interest f))\<rparr>
      | Some i \<Rightarrow>
          (let ks = filter (interpretor_filter i Socket_filterable) (ord (seg_socks (ts_segment s)));
               st = sum_list (map (\<lambda>k. stat_of (ts_segment s) (LocalSocket (sk_local k))) ks)
           in \<lparr>dp_ts = ts_ts s, dp_rx = rx st, dp_tx = tx st\<rparr>))"

lemma opt_stat_of: "opt_rx (stat_by_interest seg i) = rx (stat_of seg i)" "opt_tx (stat_by_interest seg i) = tx (stat_of seg i)"
  by (simp_all add: opt_rx_def opt_tx_def stat_of_def split: option.splits)

lemma add_u64_Inr: "add_u64 oc a b = Inr c \<Longrightarrow> c = a + b"
  by (simp add: add_u64_def split: if_splits)

lemma add_u64_release: "add_u64 False a b = Inr (a + b)"
  by (simp add: add_u64_def)

lemma point_add_socket_Inr:
  assumes "point_add_socket oc i seg k dp = Inr d"
  shows "d = (let st = (if interpretor_filter i Socket_filterable k then stat_of seg (LocalSocket (sk_local k)) else 0)
    in dp\<lparr>dp_rx := dp_rx dp + rx st, dp_tx := dp_tx dp + tx st\<rparr>)"
  using assms
  by (auto simp: point_add_socket_def opt_stat_of exec_elims Let_def split: if_splits dest!: add_u64_Inr)

lemma point_fold:
  "rfold (point_add_socket oc i seg) ks dp = Inr dp' \<Longrightarrow>
   dp' = (let st = sum_list (map (\<lambda>k. stat_of seg (LocalSocket (sk_local k))) (filter (interpretor_filter i Socket_filterable) ks))
    in dp\<lparr>dp_rx := dp_rx dp + rx st, dp_tx := dp_tx dp + tx st\<rparr>)"
proof (induction ks arbitrary: dp)
  case (Cons k ks)
  then obtain d where d: "point_add_socket oc i seg k dp = Inr d" "rfold (point_add_socket oc i seg) ks d = Inr dp'"
    by (auto split: sum.splits)
  show ?case using Cons.IH [OF d(2)] point_add_socket_Inr [OF d(1)] by (simp add: Let_def add.assoc)
qed simp

lemma make_point_Inr: "make_point oc ord f interp s = Inr dp \<Longrightarrow> dp = point_of ord f interp s"
  by (auto simp: make_point_def point_of_def for_each_socket_def opt_stat_of Let_def split: option.splits
      dest!: point_fold)

lemma dp_ts_point_of [simp]: "dp_ts (point_of ord f interp s) = ts_ts s"
  by (simp add: point_of_def Let_def split: option.splits)

lemma push_points_Inr:
  "rfold (push_point oc ord f interp) ss buf = Inr buf' \<Longrightarrow> buf' = buf @ map (point_of ord f interp) ss"
proof (induction ss arbitrary: buf)
  case (Cons s ss)
  then obtain b where b: "push_point oc ord f interp s buf = Inr b" "rfold (push_point oc ord f interp) ss b = Inr buf'"
    by (auto split: sum.splits)
  then obtain dp where dp: "make_point oc ord f interp s = Inr dp" "rfold (push_point oc ord f interp) ss (buf @ [dp]) = Inr buf'"
    by (auto simp: push_point_def [of oc ord f interp s buf] exec_elims)
  show ?case using Cons.IH [OF dp(2)] make_point_Inr [OF dp(1)] by simp
qed simp

lemma point_fold_release: "\<exists>dp'. rfold (point_add_socket False i seg) ks dp = Inr dp'"
proof (induction ks arbitrary: dp)
  case (Cons k ks)
  have "\<exists>d. point_add_socket False i seg k dp = Inr d"
    by (simp add: point_add_socket_def add_u64_release Let_def)
  then show ?case using Cons.IH by auto
qed simp

lemma push_points_release: "\<exists>buf'. rfold (push_point False ord f interp) ss buf = Inr buf'"
proof (induction ss arbitrary: buf)
  case (Cons s ss)
  have "\<exists>dp. make_point False ord f interp s = Inr dp"
    using point_fold_release by (auto simp: make_point_def for_each_socket_def Let_def split: option.splits)
  then show ?case using Cons.IH by (auto simp: push_point_def)
qed simp

section \<open>The series follows the store\<close>

lemma discard_dropWhile: "discard_outdated oldest dps = dropWhile (\<lambda>dp. dp_ts dp < oldest) dps"
  by (induction dps) simp_all

text \<open>
  What links the series to the store between two collections: the points are the completed
  segments up to the last one collected, after points of segments that left the store.
\<close>

definition known :: "Timestamp \<Rightarrow> TimeSegment list \<Rightarrow> TimeSegment list" where
  "known u segs = filter (\<lambda>s. 0 < ts_ts s \<and> ts_ts s \<le> u) segs"

definition spark_inv ::
  "(Socket list \<Rightarrow> Socket list) \<Rightarrow> Interpretor option \<Rightarrow> Store \<Rightarrow> TrafficSparkline \<Rightarrow> bool" where
  "spark_inv ord i st sp \<longleftrightarrow>
     sp_reverse_buffer sp = []
   \<and> (\<exists>old. sp_dataset sp = old @ map (point_of ord (sp_filter sp) i) (known (spark_start sp) (st_segments st))
        \<and> (\<forall>s \<in> set (st_segments st). \<forall>p \<in> set old. dp_ts p < ts_ts s))
   \<and> (sp_dataset sp = [] \<or> st_segments st \<noteq> [] \<and> spark_start sp < ts_ts (last (st_segments st)))"

lemma known_0 [simp]: "known 0 segs = []"
  by (auto simp: known_def filter_empty_conv)

lemma spark_inv_init: "spark_inv ord i st (spark_with_filter f)"
  by (simp add: spark_inv_def spark_with_filter_def TrafficSparkline_default_def spark_start_def deque_back_def)

lemma spaced_sorted: "spaced w xs \<Longrightarrow> sorted xs"
proof (induction xs)
  case (Cons x xs)
  then show ?case by (cases xs) (auto simp: spaced_Cons)
qed simp

lemma spaced_strict: "spaced w xs \<Longrightarrow> 0 < w \<Longrightarrow> sorted_wrt (<) xs"
proof (induction xs)
  case (Cons x xs)
  then have IH: "sorted_wrt (<) xs" by (simp add: spaced_Cons)
  show ?case
  proof (cases xs)
    case (Cons y ys)
    then have "x < y" using Cons.prems \<open>0 < w\<close> by simp
    then show ?thesis using IH Cons by auto
  qed simp
qed simp

lemma takeWhile_rev_sorted:
  "sorted (map key xs) \<Longrightarrow> takeWhile (\<lambda>x. u < key x) (rev xs) = rev (filter (\<lambda>x. u < key x) xs)"
proof (induction xs rule: rev_induct)
  case (snoc x xs)
  then have "u < key x \<or> filter (\<lambda>x. u < key x) xs = []"
    by (auto simp: sorted_append filter_empty_conv not_less)
  with snoc show ?case by (auto simp: sorted_append)
qed simp

lemma sorted_filter_split:
  "sorted (map key xs) \<Longrightarrow> xs = filter (\<lambda>x. key x \<le> u) xs @ filter (\<lambda>x. (u::nat) < key x) xs"
proof (induction xs)
  case (Cons x xs)
  then show ?case
  proof (cases "key x \<le> u")
    case False
    then have "filter (\<lambda>x. key x \<le> u) xs = []" "filter (\<lambda>x. u < key x) xs = xs"
      using Cons.prems by (auto simp: filter_empty_conv filter_id_conv)
    then show ?thesis using False by simp
  qed simp
qed simp

text \<open>The segments completed so far: all but the newest. A segment at time zero never is,
  since the first collection starts after time zero.\<close>

definition completed :: "TimeSegment list \<Rightarrow> TimeSegment list" where
  "completed segs = filter (\<lambda>s. 0 < ts_ts s) (butlast segs)"

lemma completed_split:
  assumes "sorted_wrt (<) (map ts_ts segs)" "segs = [] \<or> u = 0 \<or> u < ts_ts (last segs)"
  shows "completed segs = known u segs @ butlast (filter (\<lambda>s. u < ts_ts s) segs)"
proof (cases "filter (\<lambda>s. u < ts_ts s) segs = []")
  case True
  then have "\<not> u < ts_ts (last segs)" if "segs \<noteq> []" using that by (simp add: filter_empty_conv)
  then have "segs = [] \<or> u = 0" using assms(2) by blast
  with True have "completed segs = []"
    by (auto simp: completed_def filter_empty_conv dest: in_set_butlastD)
  moreover have "known u segs = []"
    using \<open>segs = [] \<or> u = 0\<close> by (auto simp: known_def filter_empty_conv)
  ultimately show ?thesis using True by simp
next
  case False
  let ?A = "filter (\<lambda>s. ts_ts s \<le> u) segs" and ?B = "filter (\<lambda>s. u < ts_ts s) segs"
  have "sorted (map ts_ts segs)" using assms(1) strict_sorted_iff by blast
  then have "segs = ?A @ ?B" by (rule sorted_filter_split)
  then have "butlast segs = ?A @ butlast ?B" using False by (metis butlast_append)
  moreover have "filter (\<lambda>s. 0 < ts_ts s) (butlast ?B) = butlast ?B"
    by (auto simp: filter_id_conv dest!: in_set_butlastD)
  ultimately show ?thesis by (simp add: completed_def known_def conj_commute)
qed

lemma known_self:
  assumes "sorted_wrt (<) (map ts_ts segs)" "c = completed segs" "c \<noteq> []"
  shows "known (ts_ts (last c)) segs = c" "ts_ts (last c) < ts_ts (last segs)"
proof -
  have ne: "segs \<noteq> []" using assms(2,3) by (auto simp: completed_def)
  have b: "map ts_ts segs = map ts_ts (butlast segs) @ [ts_ts (last segs)]"
    using ne by (metis append_butlast_last_id list.simps(8) list.simps(9) map_append)
  have mem: "last c \<in> set (butlast segs)" using assms(2,3) last_in_set [of c] by (auto simp: completed_def)
  have bel: "\<And>s. s \<in> set (butlast segs) \<Longrightarrow> ts_ts s < ts_ts (last segs)"
    using assms(1) unfolding b by (auto simp: sorted_wrt_append)
  show "ts_ts (last c) < ts_ts (last segs)" using bel mem by blast
  have "sorted (map ts_ts c)"
    using assms(1) unfolding b assms(2) completed_def
    by (intro sorted_filter) (simp add: sorted_wrt_append strict_sorted_iff)
  then have le: "\<And>s. s \<in> set c \<Longrightarrow> ts_ts s \<le> ts_ts (last c)"
    using assms(3) by (cases c rule: rev_cases) (auto simp: sorted_append)
  have "known (ts_ts (last c)) (butlast segs @ [last segs]) = filter (\<lambda>s. 0 < ts_ts s \<and> ts_ts s \<le> ts_ts (last c)) (butlast segs)"
    using bel [OF mem] by (simp add: known_def)
  also have "\<dots> = c"
    unfolding assms(2) completed_def using le [unfolded assms(2) completed_def]
    by (intro filter_cong) auto
  finally show "known (ts_ts (last c)) segs = c" using ne by simp
qed

lemma dropWhile_none: "(\<And>x. x \<in> set xs \<Longrightarrow> \<not> P x) \<Longrightarrow> dropWhile P xs = xs"
  by (cases xs) auto

lemma store_inv_strict: "store_inv st \<Longrightarrow> sorted_wrt (<) (times st)"
  using store_invD(1,4) spaced_strict by blast

lemma store_inv_distinct: "store_inv st \<Longrightarrow> distinct (times st)"
  using store_inv_strict strict_sorted_iff by blast

text \<open>A collection leaves exactly one point per completed segment, in order.\<close>

lemma spark_collect_completed:
  assumes sw: "sorted_wrt (<) (times st)" and inv: "spark_inv ord i st sp" and run: "spark_collect oc ord st i sp = Inr sp'"
  shows "sp_dataset sp' = map (point_of ord (sp_filter sp) i) (completed (st_segments st))"
    "spark_inv ord i st sp'" "sp_filter sp' = sp_filter sp"
proof -
  let ?segs = "st_segments st" and ?u = "spark_start sp" and ?pt = "point_of ord (sp_filter sp) i"
  have sorted: "sorted (map ts_ts ?segs)" using sw strict_sorted_iff by blast
  obtain old where old: "sp_dataset sp = old @ map ?pt (known ?u ?segs)"
    "\<And>s p. s \<in> set ?segs \<Longrightarrow> p \<in> set old \<Longrightarrow> dp_ts p < ts_ts s"
    and rb: "sp_reverse_buffer sp = []"
    and start: "sp_dataset sp = [] \<or> ?segs \<noteq> [] \<and> ?u < ts_ts (last ?segs)"
    using inv by (auto simp: spark_inv_def)
  have u: "?segs = [] \<or> ?u = 0 \<or> ?u < ts_ts (last ?segs)"
    using start by (auto simp: spark_start_def deque_back_def)
  let ?ds = "case view_oldest ?segs of Some s \<Rightarrow> discard_outdated (ts_ts s) (sp_dataset sp) | None \<Rightarrow> sp_dataset sp"
  have ds: "?ds = map ?pt (known ?u ?segs)"
  proof (cases ?segs)
    case Nil
    then show ?thesis using start by (simp add: view_oldest_def known_def)
  next
    case (Cons s ss)
    have ge: "ts_ts s \<le> ts_ts x" if "x \<in> set ?segs" for x using that sorted Cons by auto
    have "dropWhile (\<lambda>dp. dp_ts dp < ts_ts s) (map ?pt (known ?u ?segs)) = map ?pt (known ?u ?segs)"
      by (rule dropWhile_none) (use ge in \<open>auto simp: known_def not_less\<close>)
    moreover have "dropWhile (\<lambda>dp. dp_ts dp < ts_ts s) (old @ map ?pt (known ?u ?segs))
        = dropWhile (\<lambda>dp. dp_ts dp < ts_ts s) (map ?pt (known ?u ?segs))"
      using old(2) [of s] Cons by (intro dropWhile_append2) simp
    ultimately show ?thesis using Cons old(1) by (simp add: view_oldest_def discard_dropWhile)
  qed
  have ds': "sp_dataset sp' = ?ds @ rev (drop 1 (map ?pt (rev (filter (\<lambda>s. ?u < ts_ts s) ?segs))))"
    and f: "sp_filter sp' = sp_filter sp" and rb': "sp_reverse_buffer sp' = []"
    using run rb takeWhile_rev_sorted [OF sorted, of ?u]
    by (auto simp: spark_collect_def segments_view_def view_iter_def Let_def exec_elims dest!: push_points_Inr)
  have "rev (drop 1 (map ?pt (rev (filter (\<lambda>s. ?u < ts_ts s) ?segs)))) = map ?pt (butlast (filter (\<lambda>s. ?u < ts_ts s) ?segs))"
    by (simp add: drop_map rev_map drop_Suc butlast_rev [symmetric] flip: map_butlast)
  then show d: "sp_dataset sp' = map ?pt (completed ?segs)"
    unfolding ds' ds completed_split [OF sw u] by simp
  show "sp_filter sp' = sp_filter sp" by (rule f)
  show "spark_inv ord i st sp'"
  proof (cases "completed ?segs = []")
    case True
    then show ?thesis using d rb' by (simp add: spark_inv_def spark_start_def deque_back_def)
  next
    case False
    then have "spark_start sp' = ts_ts (last (completed ?segs))"
      by (simp add: spark_start_def deque_back_def d last_map)
    then show ?thesis
      using known_self [OF sw refl False] d rb' f False by (auto simp: spark_inv_def completed_def)
  qed
qed

text \<open>An update of the store keeps the link: it changes the newest segment only, opens later
  ones and drops the oldest ones.\<close>

lemma spark_inv_evolve:
  assumes sw: "sorted_wrt (<) (map ts_ts (segs @ E))" and ne: "segs \<noteq> []"
    and x: "ts_ts x = ts_ts (last segs)"
    and st: "st_segments st = segs" "st_segments st' = drop m (butlast segs @ x # E)"
    and ne': "st_segments st' \<noteq> []"
    and inv: "spark_inv ord i st sp"
  shows "spark_inv ord i st' sp"
proof -
  let ?u = "spark_start sp" and ?pt = "point_of ord (sp_filter sp) i"
  obtain old where old: "sp_dataset sp = old @ map ?pt (known ?u segs)"
    "\<And>s p. s \<in> set segs \<Longrightarrow> p \<in> set old \<Longrightarrow> dp_ts p < ts_ts s"
    and rb: "sp_reverse_buffer sp = []"
    and start: "sp_dataset sp = [] \<or> ?u < ts_ts (last segs)"
    using inv st(1) by (auto simp: spark_inv_def)
  show ?thesis
  proof (cases "sp_dataset sp = []")
    case True
    then show ?thesis using rb by (simp add: spark_inv_def spark_start_def deque_back_def)
  next
    case False
    let ?all = "butlast segs @ x # E"
    have ul: "?u < ts_ts (last segs)" using start False by blast
    have lastE: "ts_ts (last segs) < ts_ts e" if "e \<in> set E" for e
      using sw ne that by (auto simp: sorted_wrt_append)
    have segs: "segs = butlast segs @ [last segs]" using ne by simp
    have "map ts_ts ?all = map ts_ts ((butlast segs @ [last segs]) @ E)" using x by simp
    then have sw': "sorted_wrt (<) (map ts_ts ?all)" using sw unfolding segs [symmetric] by (simp only:)
    have "known ?u (x # E) = []" using ul x lastE by (force simp: known_def filter_empty_conv)
    then have kall: "known ?u ?all = known ?u (butlast segs)" by (simp add: known_def)
    have kseg: "known ?u segs = known ?u (butlast segs)"
      by (subst segs) (use ul in \<open>simp add: known_def\<close>)
    have split: "known ?u ?all = known ?u (take m ?all) @ known ?u (drop m ?all)"
      by (metis append_take_drop_id filter_append known_def)
    let ?old = "old @ map ?pt (known ?u (take m ?all))"
    have "sp_dataset sp = ?old @ map ?pt (known ?u (st_segments st'))"
      unfolding st(2) append_assoc map_append [symmetric] split [symmetric] kall kseg [symmetric] by (rule old(1))
    moreover have "dp_ts p < ts_ts s" if sm: "s \<in> set (st_segments st')" and pm: "p \<in> set ?old" for s p
    proof (cases "p \<in> set old")
      case True
      have "ts_ts (hd segs) \<le> ts_ts s"
      proof -
        have "s \<in> set ?all" using sm st(2) by (auto dest: in_set_dropD)
        then consider "s \<in> set (butlast segs)" | "s = x" | "s \<in> set E" by auto
        then have "\<exists>y \<in> set segs. ts_ts y \<le> ts_ts s"
          using x lastE [of s] last_in_set [OF ne]
          by cases (metis in_set_butlastD order_refl, metis order_refl, metis less_imp_le)
        then obtain y where "y \<in> set segs" "ts_ts y \<le> ts_ts s" by blast
        moreover have "ts_ts (hd segs) \<le> ts_ts y"
          using sw \<open>y \<in> set segs\<close> by (cases segs) (auto simp: less_imp_le)
        ultimately show ?thesis by simp
      qed
      then show ?thesis using old(2) [of "hd segs" p] True ne by simp
    next
      case False
      then obtain y where y: "y \<in> set (take m ?all)" "p = ?pt y" using pm by (auto simp: known_def)
      have "sorted_wrt (<) (map ts_ts (take m ?all) @ map ts_ts (drop m ?all))"
        using sw' by (simp only: append_take_drop_id flip: map_append)
      then have "ts_ts y < ts_ts s"
        using y(1) sm unfolding st(2) sorted_wrt_append by (simp only: set_map) blast
      then show ?thesis using y(2) by simp
    qed
    moreover have "?u < ts_ts (last (st_segments st'))"
    proof -
      have "m < length ?all" using ne' unfolding st(2) by (simp only: drop_eq_Nil not_le)
      then have "last (st_segments st') = last (x # E)"
        unfolding st(2) by (subst last_drop) (simp_all only: last_appendR list.distinct, simp)
      then have "last (st_segments st') \<in> set (x # E)" by (metis last_in_set list.distinct(1))
      then show ?thesis using ul x lastE by (auto intro: less_trans)
    qed
    ultimately show ?thesis using rb ne' by (simp only: spark_inv_def) blast
  qed
qed

lemma spark_inv_update:
  assumes inv: "store_inv st" and ts: "u64_range ts" and np: "\<And>m. m \<in> set ms \<Longrightarrow> msg_no_panic oc m"
    and run: "store_batch_update en oc ts ms st = Some (Inr st')" and sp: "spark_inv ord i st sp"
  shows "spark_inv ord i st' sp"
proof (cases "st_segments st = []")
  case True
  then have "sp_dataset sp = []" "sp_reverse_buffer sp = []" using sp by (auto simp: spark_inv_def)
  then show ?thesis by (simp add: spark_inv_def spark_start_def deque_back_def)
next
  case False
  let ?segs = "st_segments st" and ?w = "st_window st"
  obtain b where st': "st' = record_back en ms (advance b st)"
    using store_update_eq [OF inv ts np] run by (metis option.inject sum.inject(2))
  define s' where "s' = (let s = last (st_segments (advance b st)) in s\<lparr>ts_segment := fold (segment_apply en) ms (ts_segment s)\<rparr>)"
  define N where "N = after (ts_ts (last ?segs)) ?w ((b - ts_ts (last ?segs)) div ?w)"
  define m where "m = length (?segs @ map new_segment N) - retention st"
  have adv: "st_segments (advance b st) = drop m (?segs @ map new_segment N)"
    using False by (simp add: advance_def Let_def lastn_def N_def m_def)
  have st's: "st_segments st' = butlast (st_segments (advance b st)) @ [s']"
    by (simp add: st' record_back_def set_back_def s'_def Let_def)
  have ts': "ts_ts s' = ts_ts (last (st_segments (advance b st)))" by (simp add: s'_def Let_def)
  have m: "m < length (?segs @ map new_segment N)" using False by (simp add: m_def)
  have sorted: "sorted_wrt (<) (map ts_ts (?segs @ map new_segment N))"
  proof -
    have "map ts_ts (?segs @ map new_segment N) = times st @ after (last (times st)) ?w ((b - ts_ts (last ?segs)) div ?w)"
      using False by (simp add: N_def last_map comp_def)
    then show ?thesis
      using spaced_strict [OF spaced_append_after] store_invD(1,4) [OF inv] False by simp
  qed
  show ?thesis
  proof (cases "N = []")
    case True
    then have "m = 0" using store_invD(3) [OF inv] by (simp add: m_def)
    then show ?thesis
      using True adv st's ts' sorted False
      by (intro spark_inv_evolve [where segs = ?segs and E = "[]" and x = s' and m = 0, OF _ _ _ _ _ _ sp]) simp_all
  next
    case N: False
    let ?E = "butlast (map new_segment N) @ [s']"
    have "last (drop m (?segs @ map new_segment N)) = last (map new_segment N)" 
      using last_drop [OF m] N by simp
    then have "map ts_ts (?segs @ ?E) = map ts_ts (?segs @ butlast (map new_segment N) @ [last (map new_segment N)])"
      using ts' adv by simp
    then have sE: "sorted_wrt (<) (map ts_ts (?segs @ ?E))" using sorted N by simp
    have eq: "st_segments st' = drop m (butlast ?segs @ last ?segs # ?E)"
    proof -
      have "st_segments st' = drop m (butlast (?segs @ map new_segment N)) @ [s']"
        using st's adv by (simp add: butlast_drop drop_butlast)
      also have "\<dots> = drop m (butlast (?segs @ map new_segment N) @ [s'])" using m by simp
      also have "butlast (?segs @ map new_segment N) @ [s'] = ?segs @ ?E" using N by (simp add: butlast_append)
      also have "\<dots> = butlast ?segs @ last ?segs # ?E" using False by simp
      finally show ?thesis .
    qed
    show ?thesis
      by (rule spark_inv_evolve [OF sE False refl refl eq _ sp]) (simp add: st's)
  qed
qed

section \<open>A run of updates and collections\<close>

datatype spark_op = Update Timestamp "SockMsgEvent list" | Collect

fun spark_run ::
  "endian \<Rightarrow> (Socket list \<Rightarrow> Socket list) \<Rightarrow> Interpretor option \<Rightarrow> spark_op list \<Rightarrow> Store \<Rightarrow> TrafficSparkline
    \<Rightarrow> (Store \<times> TrafficSparkline) exec option" where
  "spark_run en ord i [] st sp = Some (Inr (st, sp))"
| "spark_run en ord i (Update ts ms # ops) st sp =
     (case store_batch_update en False ts ms st of
        None \<Rightarrow> None
      | Some (Inl p) \<Rightarrow> Some (Inl p)
      | Some (Inr st') \<Rightarrow> spark_run en ord i ops st' sp)"
| "spark_run en ord i (Collect # ops) st sp =
     (case spark_collect False ord st i sp of
        Inl p \<Rightarrow> Some (Inl p)
      | Inr sp' \<Rightarrow> spark_run en ord i ops st sp')"

lemma spark_collect_release: "\<exists>sp'. spark_collect False ord st i sp = Inr sp'"
proof -
  obtain buf where "rfold (push_point False ord (sp_filter sp) i)
      (takeWhile (\<lambda>s. spark_start sp < ts_ts s) (rev (view_iter (segments_view st)))) (sp_reverse_buffer sp) = Inr buf"
    using push_points_release by blast
  then show ?thesis by (simp add: spark_collect_def)
qed

definition op_ok :: "spark_op \<Rightarrow> bool" where
  "op_ok op = (case op of Update ts ms \<Rightarrow> u64_range ts | Collect \<Rightarrow> True)"

lemma spark_run_inv:
  assumes "store_inv st" "spark_inv ord i st sp" "list_all op_ok ops"
  shows "\<exists>st' sp'. spark_run en ord i ops st sp = Some (Inr (st', sp')) \<and> store_inv st' \<and> spark_inv ord i st' sp'
    \<and> sp_filter sp' = sp_filter sp"
  using assms
proof (induction ops arbitrary: st sp)
  case (Cons op ops)
  show ?case
  proof (cases op)
    case (Update ts ms)
    have ts: "u64_range ts" and np: "\<And>m. m \<in> set ms \<Longrightarrow> msg_no_panic False m"
      using Cons.prems(3) Update by (simp_all add: op_ok_def msg_no_panic_def)
    obtain b where b: "st_window st dvd b" "u64_range b"
      "store_batch_update en False ts ms st = Some (Inr (record_back en ms (advance b st)))"
      using store_update_eq [OF Cons.prems(1) ts np] by metis
    let ?st = "record_back en ms (advance b st)"
    have "store_inv ?st"
      using store_inv_record_back [OF store_inv_advance [OF Cons.prems(1) b(1,2)]] by simp
    moreover have "spark_inv ord i ?st sp" by (rule spark_inv_update [OF Cons.prems(1) ts np b(3) Cons.prems(2)])
    ultimately show ?thesis using Cons.IH Cons.prems(3) by (simp add: Update b(3))
  next
    case Collect
    obtain sp' where sp': "spark_collect False ord st i sp = Inr sp'" using spark_collect_release by blast
    note C = spark_collect_completed [OF store_inv_strict [OF Cons.prems(1)] Cons.prems(2) sp']
    show ?thesis
      using Cons.IH [OF Cons.prems(1) C(2)] Cons.prems(3) by (simp add: Collect sp' C(3))
  qed
qed simp

lemma spark_run_append:
  "spark_run en ord i (xs @ ys) st sp =
     (case spark_run en ord i xs st sp of Some (Inr (st', sp')) \<Rightarrow> spark_run en ord i ys st' sp' | r \<Rightarrow> r)"
  by (induction en ord i xs st sp rule: spark_run.induct) (auto split: option.splits sum.splits)

text \<open>However updates of the store and redraws interleave, the traffic graph never panics in
  a release build, and after a redraw its points are exactly the completed segments of the
  store, in order, each with the traffic of the filter in that segment.\<close>

theorem sparkline_shows_completed:
  assumes "0 < w" "u64_range w" "list_all op_ok ops"
  shows "\<exists>st sp. spark_run en ord i (ops @ [Collect]) (Store_new w cap) (spark_with_filter f) = Some (Inr (st, sp))
    \<and> sp_dataset sp = map (point_of ord f i) (completed (st_segments st))"
proof -
  obtain st sp where r: "spark_run en ord i ops (Store_new w cap) (spark_with_filter f) = Some (Inr (st, sp))"
    "store_inv st" "spark_inv ord i st sp" "sp_filter sp = f"
    using spark_run_inv [OF Store_new_inv [OF assms(1,2)] spark_inv_init assms(3)]
    by (metis TrafficSparkline.select_convs(1) TrafficSparkline.surjective TrafficSparkline.update_convs(1) spark_with_filter_def)
  obtain sp' where sp': "spark_collect False ord st i sp = Inr sp'" using spark_collect_release by blast
  then show ?thesis
    using spark_collect_completed(1) [OF store_inv_strict [OF r(2)] r(3) sp'] r(1,4) by (simp add: spark_run_append)
qed

theorem sparkline_shows_completed_witness:
  "\<exists>st sp. spark_run Little id None [Update 150 create_messages, Update 250 create_messages, Collect]
       (Store_new 100 8) (spark_with_filter NoFilter) = Some (Inr (st, sp))
     \<and> sp_dataset sp = map (point_of id NoFilter None) (completed (st_segments st))"
  using sparkline_shows_completed [of 100 "[Update 150 create_messages, Update 250 create_messages]"]
  by (simp add: op_ok_def)

end
