(* ===== verification/Store_View.thy ===== *)
theory Store_View
  imports Store_Linear Socket_Table Sparkline
begin

text \<open>
  Views of the store while it is updated. A view and the tasks that record batches hold the
  read lock of \<^verbatim>\<open>ptraf/src/store.rs\<close> together, so the table of \<^verbatim>\<open>ptraf/src/ui/socktable.rs\<close> and
  the graph of \<^verbatim>\<open>ptraf/src/ui/traffic_sparkline.rs\<close> may be collected between any two atomic
  operations of the tasks, with batches and even messages recorded in part.

  The table then shows what has been recorded under local sockets so far. The graph leaves out
  the latest segment, the only one a task may be recording in, and is exact. A collection is one
  step: what it would miss or see of the operations performed while it reads the latest segment
  is not distinguished.
\<close>

section \<open>Sockets are listed before they are counted\<close>

text \<open>The sockets inserted, by window and local address.\<close>

definition inserted :: "(Timestamp \<times> seg_op) list \<Rightarrow> (Timestamp \<times> SocketAddr) set" where
  "inserted es = {(v, sk_local k) | v k. (v, InsertSock k) \<in> set es}"

fun guarded :: "(Timestamp \<times> SocketAddr) set \<Rightarrow> (Timestamp \<times> seg_op) list \<Rightarrow> bool" where
  "guarded S [] \<longleftrightarrow> True"
| "guarded S ((v, InsertSock k) # es) \<longleftrightarrow> guarded (insert (v, sk_local k) S) es"
| "guarded S ((v, AddEntry i ch len) # es) \<longleftrightarrow> (\<forall>a. i = LocalSocket a \<longrightarrow> (v, a) \<in> S) \<and> guarded S es"

lemma inserted_simps [simp]:
  "inserted [] = {}" "inserted (xs @ ys) = inserted xs \<union> inserted ys"
  "inserted ((v, InsertSock k) # es) = insert (v, sk_local k) (inserted es)"
  "inserted ((v, AddEntry i ch len) # es) = inserted es"
  by (auto simp: inserted_def)

lemma guarded_mono: "guarded S es \<Longrightarrow> S \<subseteq> S' \<Longrightarrow> guarded S' es"
  by (induction S es arbitrary: S' rule: guarded.induct) (auto dest: insert_mono)

lemma guarded_append: "guarded S (xs @ ys) \<longleftrightarrow> guarded S xs \<and> guarded (S \<union> inserted xs) ys"
  by (induction S xs rule: guarded.induct) auto

lemma guarded_concat: "(\<And>xs. xs \<in> set xss \<Longrightarrow> guarded {} xs) \<Longrightarrow> guarded S (concat xss)"
  by (induction xss arbitrary: S) (auto simp: guarded_append intro: guarded_mono)

lemma guarded_mem:
  "guarded S es \<Longrightarrow> (v, AddEntry (LocalSocket a) ch len) \<in> set es \<Longrightarrow> (v, a) \<in> S \<union> inserted es"
  by (induction S es rule: guarded.induct) auto

lemma guarded_due: "guarded {} (due_of en a)"
proof -
  have "guarded {} (map (Pair v) (ops_of en m))" for v m
    by (simp add: ops_of_def msg_ops_def interests_from_msg_def Socket_from_msg_def)
  then have "guarded {} (map (Pair v) (concat (map (ops_of en) ms)))" for v ms
    unfolding map_concat map_map comp_def by (intro guarded_concat) auto
  then show ?thesis by (cases a) simp_all
qed

lemma inserted_mono: "set xs \<subseteq> set ys \<Longrightarrow> inserted xs \<subseteq> inserted ys"
  by (auto simp: inserted_def)

lemma log_guarded:
  assumes "work_inv en tr s" "(v, AddEntry (LocalSocket a) ch len) \<in> set (sy_log s)"
  shows "(v, a) \<in> inserted (sy_log s)"
proof -
  have log: "sy_log s = all_of done_of tr" using assms(1) by (simp add: work_inv_def)
  obtain t where t: "(v, AddEntry (LocalSocket a) ch len) \<in> set (task_of done_of t tr)"
    using assms(2) unfolding log by (fastforce simp: all_of_def task_of_def)
  have sub: "set (task_of done_of t tr) \<subseteq> set (sy_log s)"
    unfolding log by (auto simp: all_of_def task_of_def)
  have "guarded {} (task_of (due_of en) t tr)"
    unfolding task_of_def all_of_def by (intro guarded_concat) (auto simp: guarded_due)
  moreover have "task_of done_of t tr @ left_of en (latest s) (sy_pc s t) = task_of (due_of en) t tr"
    using assms(1) by (simp add: work_inv_def)
  ultimately have "guarded {} (task_of done_of t tr)" by (metis guarded_append)
  from guarded_mem [OF this t] show ?thesis using inserted_mono [OF sub] by auto
qed

section \<open>What the sockets of a segment add up to\<close>

text \<open>What an operation adds under the local socket of its message.\<close>

definition local_stat :: "seg_op \<Rightarrow> Stat" where
  "local_stat op = (case op of AddEntry (LocalSocket a) ch len \<Rightarrow> channel_stat ch len | _ \<Rightarrow> 0)"

lemma local_weight:
  assumes d: "distinct (map sk_local ks)"
    and g: "\<And>a ch len. e = (u, AddEntry (LocalSocket a) ch len) \<Longrightarrow> a \<in> sk_local ` set ks"
  shows "sum_list (map (\<lambda>k. log_weight u (LocalSocket (sk_local k)) e) ks)
    = (if fst e = u then local_stat (snd e) else 0)"
proof (cases "\<exists>a ch len. e = (u, AddEntry (LocalSocket a) ch len)")
  case True
  then obtain a ch len where e: "e = (u, AddEntry (LocalSocket a) ch len)" by blast
  have eq: "map (\<lambda>k. log_weight u (LocalSocket (sk_local k)) e) ks
      = map (\<lambda>k. if sk_local k = a then channel_stat ch len else 0) ks"
    by (auto simp: e log_weight_def entry_weight_def)
  have "local_stat (snd e) = channel_stat ch len" "fst e = u" by (simp_all add: e local_stat_def)
  then show ?thesis unfolding eq sum_list_key [OF d g [OF e]] by simp
next
  case False
  then have z: "log_weight u (LocalSocket b) e = 0" for b
    by (cases e) (auto simp: log_weight_def entry_weight_def split: seg_op.splits)
  have "fst e = u \<Longrightarrow> local_stat (snd e) = 0"
    using False by (cases e) (auto simp: local_stat_def split: seg_op.splits Interest.splits)
  then show ?thesis by (simp add: z)
qed

lemma socks_stat:
  assumes inv: "sys_inv oc s" "contents_inv s" "work_inv en tr s" and x: "x \<in> set (segs s)"
  shows "sum_list (map (\<lambda>k. stat_of (ts_segment x) (LocalSocket (sk_local k))) (seg_socks (ts_segment x)))
    = sum_list (map (\<lambda>e. if fst e = ts_ts x then local_stat (snd e) else 0) (sy_log s))"
proof -
  let ?ks = "seg_socks (ts_segment x)"
  have C: "distinct (map sk_local ?ks)" "sk_local ` set ?ks = {sk_local k | k. (ts_ts x, InsertSock k) \<in> set (sy_log s)}"
    using inv(2) x unfolding contents_inv_def contents_ok_def by blast+
  have "stat_of (ts_segment x) i = sum_list (map (log_weight (ts_ts x) i) (sy_log s))" for i
    using inv(1) x by (simp add: sys_inv_def log_inv_def)
  then have "sum_list (map (\<lambda>k. stat_of (ts_segment x) (LocalSocket (sk_local k))) ?ks)
      = sum_list (map (\<lambda>k. sum_list (map (\<lambda>e. log_weight (ts_ts x) (LocalSocket (sk_local k)) e) (sy_log s))) ?ks)"
    by simp
  also have "\<dots> = sum_list (map (\<lambda>e. sum_list (map (\<lambda>k. log_weight (ts_ts x) (LocalSocket (sk_local k)) e) ?ks)) (sy_log s))"
    by (rule sum_list_swap)
  also have "\<dots> = sum_list (map (\<lambda>e. if fst e = ts_ts x then local_stat (snd e) else 0) (sy_log s))"
  proof (intro arg_cong [of _ _ sum_list] map_cong refl local_weight [OF C(1)])
    fix e a ch len
    assume "e \<in> set (sy_log s)" "e = (ts_ts x, AddEntry (LocalSocket a) ch len)"
    then have "(ts_ts x, a) \<in> inserted (sy_log s)" using log_guarded [OF inv(3)] by blast
    then show "a \<in> sk_local ` set ?ks" unfolding C(2) by (auto simp: inserted_def)
  qed
  finally show ?thesis .
qed

section \<open>The table during updates\<close>

text \<open>What has been recorded so far, under local sockets, in the given windows.\<close>

definition local_total :: "Timestamp set \<Rightarrow> (Timestamp \<times> seg_op) list \<Rightarrow> Stat" where
  "local_total us es = sum_list (map (\<lambda>e. if fst e \<in> us then local_stat (snd e) else 0) es)"

lemma collected_distinct:
  assumes "store_shape st"
  shows "distinct (map ts_ts (collected cw ts st))"
proof -
  have "sorted_wrt (<) (times st)" using assms spaced_strict by (auto simp: store_shape_def)
  then have "distinct (times st)" using strict_sorted_iff by blast
  then have "inj_on ts_ts (set (st_segments st))" "distinct (st_segments st)" by (simp_all add: distinct_map)
  then show ?thesis
    using collected_subset [of cw ts st] by (simp add: collected_def distinct_map inj_on_subset)
qed

lemma collected_locals:
  assumes inv: "sys_inv oc s" "contents_inv s" "work_inv en tr s"
  shows "sum_list (map (\<lambda>x. sum_list (map (\<lambda>k. stat_of (ts_segment x) (LocalSocket (sk_local k))) (seg_socks (ts_segment x))))
      (collected cw ts (sy_store s)))
    = local_total (ts_ts ` set (collected cw ts (sy_store s))) (sy_log s)"
proof -
  let ?xs = "collected cw ts (sy_store s)"
  have "map (\<lambda>x. sum_list (map (\<lambda>k. stat_of (ts_segment x) (LocalSocket (sk_local k))) (seg_socks (ts_segment x)))) ?xs
      = map (\<lambda>x. sum_list (map (\<lambda>e. if fst e = ts_ts x then local_stat (snd e) else 0) (sy_log s))) ?xs"
    using collected_subset by (intro map_cong refl socks_stat [OF inv]) blast
  then show ?thesis
    unfolding local_total_def by (simp only: sum_list_by_key [OF collected_distinct [OF sys_invD(2) [OF inv(1)]]])
qed

lemma contents_distinct: "contents_inv s \<Longrightarrow> x \<in> set (segs s) \<Longrightarrow> distinct (map sk_local (seg_socks (ts_segment x)))"
  by (simp add: contents_inv_def contents_ok_def)


text \<open>A task that has performed the operations of its batch and not yet ended it.\<close>

lemma partial_trace:
  "\<exists>tr s. trace Little oc (Sys_init (Store_new 100 4)) tr s \<and> sy_pc s = (\<lambda>_. Idle)(0 := Recording 0 [] [])"
proof -
  let ?m = "hd create_messages"
  have ok: "update_ok oc (0, [?m])" and len: "packet_size oc ?m = Inr (Inr 10)"
    by (simp_all add: update_ok_def create_messages_def msg_no_panic_def packet_size_def)
  obtain tr s where 1: "trace Little oc (Sys_init (Store_new 100 4)) tr s"
    "sy_pc s = (\<lambda>_. Idle)(0 := Recording 0 [] [?m])"
    using recording_trace [OF ok] by blast
  then have "lstep Little oc 0 s (goto 0 (Recording 0 (msg_ops Little ?m (ucast (10 :: u32))) []) s)"
    using len by (intro next_message) simp_all
  note 2 = trace_step [OF 1(1) this]
  have "sy_pc (goto 0 (Recording 0 (msg_ops Little ?m (ucast (10 :: u32))) []) s) 0
      = Recording 0 (msg_ops Little ?m (ucast (10 :: u32))) []" by (simp add: goto_def)
  from recording_performs [OF _ _ 2 this] show ?thesis by (auto simp: goto_def 1(2))
qed

lemma recording_not_quiet: "sy_pc s t = Recording b ops ms \<Longrightarrow> \<not> quiet s"
  by (auto simp: quiet_def intro!: exI [of _ t])


section \<open>The graph during updates\<close>

text \<open>A run of the tasks and of redraws of the graph by tasks that hold a view.\<close>

inductive graph_run ::
  "endian \<Rightarrow> (Socket list \<Rightarrow> Socket list) \<Rightarrow> Interpretor option \<Rightarrow> Sys \<Rightarrow> TrafficSparkline
    \<Rightarrow> (tid \<times> act) list \<Rightarrow> Sys \<Rightarrow> TrafficSparkline \<Rightarrow> bool" for en ord i s0 sp0 where
  graph_init: "graph_run en ord i s0 sp0 [] s0 sp0"
| graph_step: "graph_run en ord i s0 sp0 tr s sp \<Longrightarrow> lstep en False t s s'
    \<Longrightarrow> graph_run en ord i s0 sp0 (tr @ [(t, act_of t s s')]) s' sp"
| graph_redraw: "graph_run en ord i s0 sp0 tr s sp \<Longrightarrow> sy_pc s t = Viewing
    \<Longrightarrow> spark_collect False ord (sy_store s) i sp = Inr sp'
    \<Longrightarrow> graph_run en ord i s0 sp0 tr s sp'"

lemma shape_strict: "store_shape st \<Longrightarrow> sorted_wrt (<) (times st)"
  using spaced_strict by (auto simp: store_shape_def)

lemma spark_inv_empty: "spark_inv ord i st sp \<Longrightarrow> st_segments st = [] \<Longrightarrow> spark_inv ord i st' sp"
  by (auto simp: spark_inv_def spark_start_def deque_back_def)

lemma spark_inv_push:
  assumes shape: "store_shape st" and u: "next_segment_ts (st_window st) b (st_segments st) = Inr (Some u)"
    and sp: "spark_inv ord i st sp"
  shows "spark_inv ord i (st\<lparr>st_segments := push_segment cap u (st_segments st)\<rparr>) sp"
proof (cases "st_segments st = []")
  case True
  show ?thesis by (rule spark_inv_empty [OF sp True])
next
  case False
  let ?q = "st_segments st" and ?x = "last (st_segments st)"
  have l: "ts_ts ?x < u" using next_SomeD [OF u] False shape by (auto simp: store_shape_def)
  have "ts_ts y \<le> ts_ts ?x" if "y \<in> set ?q" for y
  proof (cases "y \<in> set (butlast ?q)")
    case True
    then show ?thesis using shape butlast_times_below by (fastforce simp: store_shape_def)
  next
    case False
    then have "y = ?x" using that by (cases ?q rule: rev_cases) auto
    then show ?thesis by simp
  qed
  then have sw: "sorted_wrt (<) (map ts_ts (?q @ [new_segment u]))"
    using shape_strict [OF shape] l by (fastforce simp: sorted_wrt_append new_segment_def)
  have "push_segment cap u ?q = drop (if cap \<le> length ?q then 1 else 0) (butlast ?q @ ?x # [new_segment u])"
  proof -
    have "butlast ?q @ ?x # [new_segment u] = ?q @ [new_segment u]" using False by simp
    then show ?thesis using False by (cases ?q) (simp_all only: push_segment_def, auto)
  qed
  then show ?thesis
    by (intro spark_inv_evolve [OF sw False refl refl _ _ sp]) (auto simp: push_segment_def)
qed

lemma spark_inv_step:
  assumes inv: "sys_inv oc s" and step: "lstep en oc t s s'" and sp: "spark_inv ord i (sy_store s) sp"
  shows "spark_inv ord i (sy_store s') sp"
  using step
proof cases
  case (create b ms u)
  then show ?thesis using spark_inv_push [OF sys_invD(2) [OF inv] create(3) sp] by (simp add: set_segments_def)
next
  case (perform b op ops ms s'')
  then have r: "reached b (segs s)" using sys_invD(3) [OF inv, of t] by (simp add: task_inv_def)
  let ?x = "last (segs s)\<lparr>ts_segment := seg_op_apply op (ts_segment (last (segs s)))\<rparr>"
  have ne: "segs s \<noteq> []" using r by (simp add: reached_def)
  have st: "sy_store s' = set_back ?x (sy_store s)"
    using perform(1) record_opD(1) [OF perform(3) r] by (simp add: goto_def)
  have "sorted_wrt (<) (map ts_ts (segs s @ []))" using shape_strict [OF sys_invD(2) [OF inv]] by simp
  then show ?thesis
    unfolding st
    by (rule spark_inv_evolve [where x = ?x and m = 0, OF _ ne _ refl _ _ sp]) (simp_all add: set_back_def)
qed (use sp in \<open>simp_all add: sys_defs\<close>)

lemma graph_run_trace: "graph_run en ord i s0 sp0 tr s sp \<Longrightarrow> trace en False s0 tr s"
  by (induction rule: graph_run.induct) (blast intro: trace.intros)+

lemma trace_graph_run: "trace en False s0 tr s \<Longrightarrow> graph_run en ord i s0 sp0 tr s sp0"
  by (induction rule: trace.induct) (blast intro: graph_run.intros)+

lemma graph_run_inv:
  assumes "0 < w" "u64_range w"
  shows "graph_run en ord i (Sys_init (Store_new w cap)) (spark_with_filter f) tr s sp
    \<Longrightarrow> spark_inv ord i (sy_store s) sp \<and> sp_filter sp = f"
proof (induction rule: graph_run.induct)
  case graph_init
  show ?case by (simp add: spark_inv_init) (simp add: spark_with_filter_def)
next
  case (graph_step tr s sp t s')
  note inv = reachable_inv [OF assms trace_reach [OF graph_run_trace [OF graph_step.hyps(1)]]]
  show ?case using spark_inv_step [OF inv graph_step.hyps(2)] graph_step.IH by blast
next
  case (graph_redraw tr s sp t sp')
  note inv = reachable_inv [OF assms trace_reach [OF graph_run_trace [OF graph_redraw.hyps(1)]]]
  show ?case
    using spark_collect_completed [OF shape_strict [OF sys_invD(2) [OF inv]] _ graph_redraw.hyps(3)] graph_redraw.IH by simp
qed

lemma completed_settled:
  assumes "store_shape (sy_store s)" "x \<in> set (completed (segs s))"
  shows "x \<in> set (segs s)" "settled s (ts_ts x)"
proof -
  have x: "x \<in> set (butlast (segs s))" using assms(2) by (simp add: completed_def)
  then show "x \<in> set (segs s)" by (rule in_set_butlastD)
  show "settled s (ts_ts x)"
    using assms(1) butlast_times_below [OF _ _ x] by (fastforce simp: store_shape_def settled_def)
qed


text \<open>A run in which one window is complete while a task records in the next.\<close>

lemma two_windows:
  "\<exists>tr s. trace Little oc (Sys_init (Store_new 100 4)) tr s
     \<and> sy_pc s = (\<lambda>_. Idle)(0 := Recording 200 [] create_messages) \<and> times (sy_store s) = [100, 200]"
proof -
  have ok: "update_ok oc (b, create_messages)" if "u64_range b" for b
    using that by (auto simp: update_ok_def create_messages_def msg_no_panic_def)
  have s0: "sy_pc (Sys_init (Store_new 100 4)) = (\<lambda>_. Idle)" "segs (Sys_init (Store_new 100 4)) = []"
    "next_segment_ts 100 100 (segs (Sys_init (Store_new 100 4))) = Inr (Some 100)"
    by (simp_all add: Sys_init_def Store_new_def next_segment_ts_def deque_back_def)
  obtain tr s where 1: "trace Little oc (Sys_init (Store_new 100 4)) tr s"
    "sy_pc s = (\<lambda>_. Idle)(0 := Recording 100 [] create_messages)" "times (sy_store s) = [100]"
    using opening_trace [OF _ _ trace_init s0(1) ok _ s0(3), where en = Little] s0(2)
    by (auto simp: push_segment_def new_segment_def)
  obtain tr' s' where 2: "trace Little oc (Sys_init (Store_new 100 4)) tr' s'" "sy_pc s' = (sy_pc s)(0 := Idle)"
    "times (sy_store s') = [100]"
    using recording_ends [OF _ _ 1(1), of 0] 1(2,3) by auto
  obtain x where x: "segs s' = [x]" "ts_ts x = 100" using 2(3) by auto
  have idle: "sy_pc s' = (\<lambda>_. Idle)" by (rule ext) (simp add: 1(2) 2(2))
  have "next_segment_ts 100 200 (segs s') = Inr (Some 200)"
    by (simp add: x next_segment_ts_def deque_back_def Timestamp_add_def duration_limit_def)
  then obtain tr2 s2 where 3: "trace Little oc (Sys_init (Store_new 100 4)) tr2 s2"
    "sy_pc s2 = (\<lambda>_. Idle)(0 := Recording 200 [] create_messages)" "segs s2 = push_segment 4 200 (segs s')"
    using opening_trace [OF _ _ 2(1) idle ok, of 200] by auto
  have "times (sy_store s2) = [100, 200]" by (simp add: 3(3) x push_segment_def new_segment_def)
  then show ?thesis using 3(1,2) by (intro exI conjI)
qed


end
