(* ===== verification/Store_Progress.thy ===== *)
theory Store_Progress
  imports Store_Locks
begin

text \<open>
  \<^verbatim>\<open>ptraf/src/store.rs\<close>, concurrency: operations in progress come to an end.

  Every step of a task that is in the middle of an operation lowers the rank of the system: the
  number of steps the tasks may still need, with the segments a slow path may have to create.
  A segment pushed by one task only brings the others closer to their window.
\<close>

section \<open>The rank of a system\<close>

text \<open>The segments between the latest one and the window of a task.\<close>

definition gap :: "Sys \<Rightarrow> Timestamp \<Rightarrow> nat" where
  "gap s b =
     (if segs s = [] then Suc (b div st_window (sy_store s))
      else (b - ts_ts (last (segs s))) div st_window (sy_store s))"

fun rank :: "Sys \<Rightarrow> pc \<Rightarrow> nat" where
  "rank s (Trying b ms) = 6 + 7 * length ms + gap s b"
| "rank s (Checking b ms) = 5 + 7 * length ms + gap s b"
| "rank s (Upgrading b ms) = 4 + 7 * length ms + gap s b"
| "rank s (Creating b ms) = 3 + 7 * length ms + gap s b"
| "rank s (Rereading b ms) = 2 + 7 * length ms"
| "rank s (Recording b ops ms) = 1 + 7 * length ms + length ops"
| "rank s Viewing = 1"
| "rank s _ = 0"

lemma gap_frame:
  assumes "st_window (sy_store s') = st_window (sy_store s)" "map ts_ts (segs s') = map ts_ts (segs s)"
  shows "gap s' b = gap s b"
proof -
  have "segs s' = [] \<longleftrightarrow> segs s = []" using arg_cong [OF assms(2), of length] by auto
  moreover have "segs s \<noteq> [] \<Longrightarrow> ts_ts (last (segs s')) = ts_ts (last (segs s))"
    using assms(2) by (metis calculation last_map)
  ultimately show ?thesis by (simp add: gap_def assms(1))
qed

lemma rank_frame: "(\<And>b. gap s' b = gap s b) \<Longrightarrow> rank s' p = rank s p"
  by (cases p) simp_all

lemma rank_mono: "(\<And>b. gap s' b \<le> gap s b) \<Longrightarrow> rank s' p \<le> rank s p"
  by (cases p) simp_all

lemma gap_push:
  assumes "next_segment_ts (st_window (sy_store s)) b (segs s) = Inr (Some u)"
  shows "gap (set_segments (push_segment cap u (segs s)) s) c \<le> gap s c"
proof -
  have l: "segs (set_segments (push_segment cap u (segs s)) s) \<noteq> []"
    "ts_ts (last (segs (set_segments (push_segment cap u (segs s)) s))) = u"
    by (simp_all add: set_segments_def push_segment_def)
  have "(c - u) div st_window (sy_store s) \<le> c div st_window (sy_store s)" by (intro div_le_mono) simp
  then have "(c - u) div st_window (sy_store s) \<le> gap s c"
    using next_SomeD [OF assms] by (auto simp: gap_def intro: div_le_mono)
  then show ?thesis using l by (simp add: gap_def [of "set_segments _ _"]) (simp add: set_segments_def)
qed

lemma gap_push_own:
  assumes shape: "store_shape (sy_store s)" and b: "st_window (sy_store s) dvd b"
    and u: "next_segment_ts (st_window (sy_store s)) b (segs s) = Inr (Some u)"
  shows "gap (set_segments (push_segment cap u (segs s)) s) b < gap s b"
proof -
  let ?w = "st_window (sy_store s)" and ?l = "ts_ts (last (segs s))"
  have l: "segs (set_segments (push_segment cap u (segs s)) s) \<noteq> []"
    "ts_ts (last (segs (set_segments (push_segment cap u (segs s)) s))) = u"
    by (simp_all add: set_segments_def push_segment_def)
  have "(b - u) div ?w < gap s b"
  proof (cases "segs s = []")
    case False
    have w: "0 < ?w" "?w dvd ?l" using shape False by (simp_all add: store_shape_def)
    have n: "?l < b" "u = ?l + ?w" using next_SomeD [OF u] False by auto
    have "?w \<le> b - ?l" using n(1) dvd_diff_nat [OF b w(2)] by (intro dvd_imp_le) auto
    then have "(b - ?l) div ?w = Suc ((b - ?l - ?w) div ?w)" using w(1) by (simp add: le_div_geq)
    then show ?thesis using False n(2) by (simp add: gap_def)
  qed (use next_SomeD [OF u] in \<open>simp add: gap_def\<close>)
  then show ?thesis using l by (simp add: gap_def [of "set_segments _ _"]) (simp add: set_segments_def)
qed

lemma length_msg_ops: "length (msg_ops en m len) = 6"
  by (simp add: msg_ops_def interests_from_msg_def)

section \<open>Steps of busy tasks\<close>

lemma step_frame:
  assumes inv: "sys_inv oc s" and step: "lstep en oc t s s'"
    and no_push: "\<And>b ms u. sy_pc s t = Creating b ms \<Longrightarrow> next_segment_ts (st_window (sy_store s)) b (segs s) \<noteq> Inr (Some u)"
  shows "gap s' b = gap s b"
proof (rule gap_frame)
  have "st_window (sy_store s') = st_window (sy_store s) \<and> map ts_ts (segs s') = map ts_ts (segs s)"
    using step
  proof cases
    case (perform b op ops ms s'')
    then have "reached b (segs s)" using sys_invD(3) [OF inv, of t] by (simp add: task_inv_def)
    note R = record_opD [OF perform(3) this]
    show ?thesis using perform(1) R(1,6) by (simp add: goto_def set_back_def)
  next
    case (create b ms u)
    then show ?thesis using no_push by blast
  qed (simp_all add: sys_defs)
  then show "st_window (sy_store s') = st_window (sy_store s)" "map ts_ts (segs s') = map ts_ts (segs s)" by simp_all
qed

lemma step_rank:
  assumes inv: "sys_inv oc s" and step: "lstep en oc t s s'" and busy: "sy_pc s t \<noteq> Idle"
  shows "rank s' (sy_pc s' t) < rank s (sy_pc s t)" "rank s' p \<le> rank s p"
proof -
  note D = sys_invD [OF inv] and T = sys_invD(3) [OF inv, of t]
  have "rank s' (sy_pc s' t) < rank s (sy_pc s t) \<and> rank s' p \<le> rank s p"
  proof (cases "\<exists>b ms u. sy_pc s t = Creating b ms \<and> next_segment_ts (st_window (sy_store s)) b (segs s) = Inr (Some u)")
    case True
    then obtain b ms u where p: "sy_pc s t = Creating b ms"
      and u: "next_segment_ts (st_window (sy_store s)) b (segs s) = Inr (Some u)" by blast
    have s': "s' = set_segments (push_segment (st_capacity (sy_store s)) u (segs s)) s"
      using step p u by cases simp_all
    have "st_window (sy_store s) dvd b" using T p by (simp add: task_inv_def)
    from gap_push_own [OF D(2) this u] rank_mono [OF gap_push [OF u]] show ?thesis
      using p by (simp add: s') (simp add: set_segments_def)
  next
    case False
    then have g: "gap s' c = gap s c" for c using step_frame [OF inv step] by blast
    have "rank s (sy_pc s' t) < rank s (sy_pc s t)"
      using step busy
    proof cases
      case (perform b op ops ms s'')
      then show ?thesis by (simp add: goto_def)
    next
      case (create b ms u)
      then show ?thesis using False by blast
    qed (simp_all add: sys_defs length_msg_ops)
    then show ?thesis using rank_frame [OF g] by simp
  qed
  then show "rank s' (sy_pc s' t) < rank s (sy_pc s t)" "rank s' p \<le> rank s p" by simp_all
qed

section \<open>The system comes to rest\<close>

text \<open>A step of some task that is in the middle of an operation.\<close>

inductive bstep :: "endian \<Rightarrow> bool \<Rightarrow> Sys \<Rightarrow> Sys \<Rightarrow> bool" for en oc where
  bstep: "sy_pc s t \<noteq> Idle \<Longrightarrow> lstep en oc t s s' \<Longrightarrow> bstep en oc s s'"

definition busy :: "Sys \<Rightarrow> tid set" where
  "busy s = {t. sy_pc s t \<noteq> Idle}"

definition total_rank :: "Sys \<Rightarrow> nat" where
  "total_rank s = (\<Sum>t \<in> busy s. rank s (sy_pc s t))"

lemma busy_step: "lstep en oc t s s' \<Longrightarrow> busy s' \<subseteq> insert t (busy s)"
  using lstep_other [of en oc t s s'] by (auto simp: busy_def)

lemma finite_busy: "reach en oc (Sys_init st) s \<Longrightarrow> finite (busy s)"
proof (induction rule: reach.induct)
  case (reach_step s t s')
  then show ?case using finite_subset [OF busy_step] by blast
qed (simp add: busy_def Sys_init_def)

lemma total_step:
  assumes inv: "sys_inv oc s" and fin: "finite (busy s)" and b: "bstep en oc s s'"
  shows "total_rank s' < total_rank s"
proof -
  obtain t where t: "t \<in> busy s" and step: "lstep en oc t s s'"
    using b by (auto simp: busy_def elim: bstep.cases)
  note R = step_rank [OF inv step]
  have bt: "sy_pc s t \<noteq> Idle" using t by (simp add: busy_def)
  have sub: "busy s' \<subseteq> busy s" using busy_step [OF step] t by blast
  have le: "rank s' (sy_pc s' t') \<le> rank s (sy_pc s t')" for t'
    using R [OF bt] lstep_other [OF step, of t'] by (cases "t' = t") (auto intro: less_imp_le)
  have "total_rank s' \<le> (\<Sum>t' \<in> busy s. rank s' (sy_pc s' t'))"
    unfolding total_rank_def by (rule sum_mono2 [OF fin sub]) simp
  also have "\<dots> < total_rank s"
    unfolding total_rank_def using t fin le R(1) [OF bt] by (intro sum_strict_mono_ex1) auto
  finally show ?thesis .
qed

lemma bstep_reach: "reach en oc s0 s \<Longrightarrow> bstep en oc s s' \<Longrightarrow> reach en oc s0 s'"
  by (auto elim!: bstep.cases intro: reach_step)

lemma bsteps_bound:
  assumes "0 < w" "u64_range w" "reach en oc (Sys_init (Store_new w cap)) s"
  shows "(bstep en oc ^^ k) s s' \<Longrightarrow> total_rank s' + k \<le> total_rank s \<and> reach en oc (Sys_init (Store_new w cap)) s'"
proof (induction k arbitrary: s')
  case (Suc k)
  then obtain s1 where s1: "(bstep en oc ^^ k) s s1" "bstep en oc s1 s'" by auto
  then have r: "reach en oc (Sys_init (Store_new w cap)) s1" "total_rank s1 + k \<le> total_rank s" using Suc.IH by auto
  have "total_rank s' < total_rank s1"
    using total_step [OF reachable_inv [OF assms(1,2) r(1)] finite_busy [OF r(1)] s1(2)] .
  then show ?case using r bstep_reach [OF r(1) s1(2)] by simp
qed (simp add: assms(3))

section \<open>Properties\<close>

text \<open>C9. Operations in progress come to an end, without deadlock or livelock: from every reachable
  state, whatever the scheduling, the busy tasks can together take only finitely many steps,
  at most the rank of the state, and where they can take none, every task is idle.\<close>

theorem operations_finish:
  assumes "0 < w" "u64_range w" "reach en oc (Sys_init (Store_new w cap)) s" "(bstep en oc ^^ k) s s'"
  shows "k \<le> total_rank s \<and> ((\<nexists>s''. bstep en oc s' s'') \<longrightarrow> (\<forall>t. sy_pc s' t = Idle))"
proof -
  note B = bsteps_bound [OF assms]
  have "\<exists>s''. bstep en oc s' s''" if "sy_pc s' t \<noteq> Idle" for t
    using progress [OF reachable_inv [OF assms(1,2)] that] B by (blast intro: bstep.intros)
  then show ?thesis using B by auto
qed

theorem operations_finish_witness:
  "\<exists>s s'. reach Big False (Sys_init (Store_new 100 4)) s \<and> bstep Big False s s' \<and> 1 \<le> total_rank s"
proof -
  obtain s where s: "reach Big False (Sys_init (Store_new 100 4)) s" "sy_pc s 0 = Creating 0 []"
    using creating_reachable by blast
  have "\<exists>s'. bstep Big False s s'"
    using operations_finish [OF _ _ s(1), of 0 s] s(2) by (auto dest: spec [of _ 0])
  then obtain s' where s': "bstep Big False s s'" by blast
  then have "(bstep Big False ^^ 1) s s'" by (simp add: eq_OO)
  then have "1 \<le> total_rank s" using operations_finish [OF _ _ s(1)] by fastforce
  then show ?thesis using s(1) s' by blast
qed

end
