(* ===== verification/Promise_Cell.thy ===== *)
theory Promise_Cell
  imports Ptraf_Prelude
begin

text \<open>
  \<^verbatim>\<open>ptraf/src/promise.rs\<close>: a value computed by a spawned task. The receiving end of the
  one-shot channel is the library's: \<open>try_recv\<close> is an argument, and what it answers may
  differ from one call to the next.
\<close>

datatype ('r, 'a) Promise = Pending 'r | Resolved 'a

text \<open>\<open>spawn\<close> and \<open>spawn_blocking\<close> hand the sender to the task and keep the receiver;
  \<open>channel\<close> makes the pair, \<open>run_task\<close> is the executor.\<close>

definition spawn :: "('s \<times> 'r) \<Rightarrow> ('s \<Rightarrow> 'w \<Rightarrow> 'w) \<Rightarrow> 'w \<Rightarrow> ('r, 'a) Promise \<times> 'w" where
  "spawn channel run_task w = (case channel of (tx, rx) \<Rightarrow> (Pending rx, run_task tx w))"

definition spawn_blocking :: "('s \<times> 'r) \<Rightarrow> ('s \<Rightarrow> 'w \<Rightarrow> 'w) \<Rightarrow> 'w \<Rightarrow> ('r, 'a) Promise \<times> 'w" where
  "spawn_blocking channel run_task w = (case channel of (tx, rx) \<Rightarrow> (Pending rx, run_task tx w))"

definition is_resolved :: "('r, 'a) Promise \<Rightarrow> bool" where
  "is_resolved self = (case self of Resolved _ \<Rightarrow> True | Pending _ \<Rightarrow> False)"

definition promise_unwrap :: "('r, 'a) Promise \<Rightarrow> 'a exec" where
  "promise_unwrap self = (case self of Resolved v \<Rightarrow> Inr v | Pending _ \<Rightarrow> Inl ExplicitPanic)"

definition promise_unwrap_ref :: "('r, 'a) Promise \<Rightarrow> 'a exec" where
  "promise_unwrap_ref self = (case self of Resolved v \<Rightarrow> Inr v | Pending _ \<Rightarrow> Inl ExplicitPanic)"

definition promise_unwrap_mut :: "('a \<Rightarrow> 'a) \<Rightarrow> ('r, 'a) Promise \<Rightarrow> ('r, 'a) Promise exec" where
  "promise_unwrap_mut f self = (case self of Resolved v \<Rightarrow> Inr (Resolved (f v)) | Pending _ \<Rightarrow> Inl ExplicitPanic)"

definition promise_value ::
  "('r \<Rightarrow> 'e + 'a) \<Rightarrow> ('r, 'a) Promise \<Rightarrow> ('a option \<times> ('r, 'a) Promise) exec" where
  "promise_value try_recv self =
     (case self of
        Resolved v \<Rightarrow> Inr (Some v, self)
      | Pending rx \<Rightarrow>
         (case try_recv rx of
            Inr v \<Rightarrow> (let self' = Resolved v in rmap (\<lambda>u. (Some u, self')) (promise_unwrap_ref self'))
          | Inl _ \<Rightarrow> Inr (None, self)))"

text \<open>Repeated polls, each with what the channel answers at that moment.\<close>

fun polls :: "('r \<Rightarrow> 'e + 'a) list \<Rightarrow> ('r, 'a) Promise \<Rightarrow> ('a option list \<times> ('r, 'a) Promise) exec" where
  "polls [] p = Inr ([], p)"
| "polls (t # ts) p =
     rbind (promise_value t p) (\<lambda>(v, p'). rmap (\<lambda>(vs, q). (v # vs, q)) (polls ts p'))"

lemma promise_value_total: "\<exists>v p'. promise_value t p = Inr (v, p') \<and> (v = None \<longleftrightarrow> \<not> is_resolved p')
    \<and> (\<forall>u. v = Some u \<longrightarrow> p' = Resolved u)"
  by (auto simp: promise_value_def is_resolved_def promise_unwrap_ref_def split: Promise.splits sum.splits)

lemma polls_resolved: "polls ts (Resolved v) = Inr (replicate (length ts) (Some v), Resolved v)"
  by (induction ts) (simp_all add: promise_value_def)

text \<open>The answers of a promise: none until the first value, then that value for ever.\<close>

lemma polls_shape:
  "\<exists>vs q. polls ts p = Inr (vs, q) \<and>
     (\<exists>n v. n \<le> length ts \<and> vs = replicate n None @ replicate (length ts - n) (Some v)
       \<and> (n < length ts \<longrightarrow> q = Resolved v))"
proof (induction ts arbitrary: p)
  case (Cons t ts)
  obtain v p' where v: "promise_value t p = Inr (v, p')" "\<And>u. v = Some u \<Longrightarrow> p' = Resolved u"
    using promise_value_total [of t p] by blast
  show ?case
  proof (cases v)
    case None
    obtain vs q n w where "polls ts p' = Inr (vs, q)" "n \<le> length ts"
      "vs = replicate n None @ replicate (length ts - n) (Some w)" "n < length ts \<longrightarrow> q = Resolved w"
      using Cons.IH [of p'] by blast
    then show ?thesis using v(1) None by (auto intro!: exI [of _ "Suc n"] exI [of _ w])
  next
    case (Some u)
    then show ?thesis using v by (auto simp: polls_resolved intro!: exI [of _ 0] exI [of _ u])
  qed
qed simp

lemma promise_value_ok: "\<exists>r. promise_value t p = Inr r"
  using promise_value_total [of t p] by (elim exE conjE) (rule exI)

lemma polls_ok: "\<exists>r. polls ts p = Inr r"
  using polls_shape [of ts p] by (elim exE conjE) (rule exI)

section \<open>Properties\<close>


end
