(* ===== verification/Details_Views.thy ===== *)
theory Details_Views
  imports Promise_Cell Socket_Table Ip_Text
begin

text \<open>
  \<^verbatim>\<open>ptraf/src/ui/process_details.rs\<close>, \<^verbatim>\<open>remote_ip_details.rs\<close>, \<^verbatim>\<open>format.rs\<close> and the cells of
  the rows of \<^verbatim>\<open>socktable.rs\<close>: what the panels show.

  The process file system is a library's: \<open>Procfs\<close> is the record of the reads used, each
  of which may fail. Formatting of sizes, durations and addresses is an argument. Styles
  and layout are not modelled.
\<close>

section \<open>The process file system\<close>

datatype FDTarget = FD_Socket u64 | FD_Other

datatype NetState = Established | OtherState

record NetEntry =
  ne_state :: NetState
  ne_inode :: u64

record ('p, 'path) Procfs =
  pf_open :: "i32 \<Rightarrow> 'p option"
  pf_pid :: "'p \<Rightarrow> i32"
  pf_exe :: "'p \<Rightarrow> 'path option"
  pf_path_str :: "'path \<Rightarrow> string option"
  pf_path_last :: "'path \<Rightarrow> string option option"
  pf_fd :: "'p \<Rightarrow> FDTarget option list option"
  pf_tcp :: "'p \<Rightarrow> NetEntry list option"
  pf_tcp6 :: "'p \<Rightarrow> NetEntry list option"
  pf_udp :: "'p \<Rightarrow> NetEntry list option"
  pf_udp6 :: "'p \<Rightarrow> NetEntry list option"

text \<open>\<open>pf_path_last\<close> is the last component of a path, if any, as text, if it is text.\<close>

definition opt_join :: "'a option option \<Rightarrow> 'a option" where
  "opt_join x = (case x of None \<Rightarrow> None | Some y \<Rightarrow> y)"

definition opt_list :: "'a list option \<Rightarrow> 'a list" where
  "opt_list x = (case x of None \<Rightarrow> [] | Some l \<Rightarrow> l)"

section \<open>Process details\<close>

record ProcessDetails =
  pd_pid :: i32
  pd_name :: "string option"
  pd_exe :: "string option"

definition ProcessDetails_empty :: "i32 \<Rightarrow> ProcessDetails" where
  "ProcessDetails_empty pid = \<lparr>pd_pid = pid, pd_name = None, pd_exe = None\<rparr>"

definition pd_process :: "('p, 'path) Procfs \<Rightarrow> ProcessDetails \<Rightarrow> 'p option" where
  "pd_process P self = pf_open P (pd_pid self)"

definition fd_sockets :: "('p, 'path) Procfs \<Rightarrow> ProcessDetails \<Rightarrow> FDTarget list" where
  "fd_sockets P self =
     List.map_filter (\<lambda>fd. case fd of Some (FD_Socket i) \<Rightarrow> Some (FD_Socket i) | _ \<Rightarrow> None)
       (opt_list (Option.bind (pd_process P self) (pf_fd P)))"

definition socket_inodes :: "('p, 'path) Procfs \<Rightarrow> ProcessDetails \<Rightarrow> u64 list" where
  "socket_inodes P self =
     List.map_filter (\<lambda>t. case t of FD_Socket i \<Rightarrow> Some i | FD_Other \<Rightarrow> None) (fd_sockets P self)"

definition tcp_conns :: "('p, 'path) Procfs \<Rightarrow> ProcessDetails \<Rightarrow> NetEntry list" where
  "tcp_conns P self =
     (case pd_process P self of
        None \<Rightarrow> [] | Some proc \<Rightarrow> opt_list (pf_tcp P proc) @ opt_list (pf_tcp6 P proc))"

definition udp_conns :: "('p, 'path) Procfs \<Rightarrow> ProcessDetails \<Rightarrow> NetEntry list" where
  "udp_conns P self =
     (case pd_process P self of
        None \<Rightarrow> [] | Some proc \<Rightarrow> opt_list (pf_udp P proc) @ opt_list (pf_udp6 P proc))"

definition from_procfs :: "('p, 'path) Procfs \<Rightarrow> 'p \<Rightarrow> ProcessDetails" where
  "from_procfs P process =
     \<lparr>pd_pid = pf_pid P process,
      pd_name = opt_join (Option.bind (pf_exe P process) (pf_path_last P)),
      pd_exe = Option.bind (pf_exe P process) (pf_path_str P)\<rparr>"

definition from_procfs_pid :: "('p, 'path) Procfs \<Rightarrow> i32 \<Rightarrow> ProcessDetails" where
  "from_procfs_pid P pid =
     (case pf_open P pid of Some process \<Rightarrow> from_procfs P process | None \<Rightarrow> ProcessDetails_empty pid)"

record ProcessDetailsView =
  pv_pid :: u32
  pv_details :: ProcessDetails

definition ProcessDetailsView_new :: "('p, 'path) Procfs \<Rightarrow> u32 \<Rightarrow> ProcessDetailsView" where
  "ProcessDetailsView_new P pid = \<lparr>pv_pid = pid, pv_details = from_procfs_pid P pid\<rparr>"

definition established_count :: "u64 list \<Rightarrow> NetEntry list \<Rightarrow> nat" where
  "established_count inodes conns =
     length (filter (\<lambda>c. ne_state c = Established \<and> ne_inode c \<in> set inodes) conns)"

definition to_string :: "nat \<Rightarrow> string" where
  "to_string n = show_num 10 n"

definition process_title :: "ProcessDetailsView \<Rightarrow> string" where
  "process_title self =
     (case pd_name (pv_details self) of
        Some name \<Rightarrow> name @ '' ('' @ to_string (unat (pv_pid self)) @ '')''
      | None \<Rightarrow> ''<PID '' @ to_string (unat (pv_pid self)) @ ''>'')"

definition process_text :: "('p, 'path) Procfs \<Rightarrow> ProcessDetailsView \<Rightarrow> string list list" where
  "process_text P self =
     (let details = pv_details self; inodes = socket_inodes P details
      in [[''exe '', unwrap_or_default (pd_exe details)],
          [''established tcp conns: '', to_string (established_count inodes (tcp_conns P details))],
          [''established udp conns: '', to_string (established_count inodes (udp_conns P details))]])"

definition pid_name :: "('p, 'path) Procfs \<Rightarrow> u32 \<Rightarrow> string" where
  "pid_name P pid =
     unwrap_or_default (opt_join (Option.bind (Option.bind (pf_open P pid) (pf_exe P)) (pf_path_last P)))"

section \<open>Remote address details\<close>

record 'r RemoteIpDetailsView =
  rv_ip :: StdIpAddr
  rv_hostname :: "('r, string) Promise"

text \<open>\<open>channel\<close> is the one-shot channel of the look-up task.\<close>

definition lookup_hostname :: "(StdIpAddr \<Rightarrow> string + string) \<Rightarrow> StdIpAddr \<Rightarrow> string" where
  "lookup_hostname lookup_addr a =
     (case lookup_addr a of Inr name \<Rightarrow> name | Inl e \<Rightarrow> ''[FAILED: '' @ e @ '']'')"

definition RemoteIpDetailsView_new ::
  "('s \<times> 'r) \<Rightarrow> ('s \<Rightarrow> 'w \<Rightarrow> 'w) \<Rightarrow> StdIpAddr \<Rightarrow> 'w \<Rightarrow> 'r RemoteIpDetailsView \<times> 'w" where
  "RemoteIpDetailsView_new channel run_task a w =
     (case spawn_blocking channel run_task w of (p, w') \<Rightarrow> (\<lparr>rv_ip = a, rv_hostname = p\<rparr>, w'))"

definition remote_ip_render ::
  "('r \<Rightarrow> 'e + string) \<Rightarrow> 'r RemoteIpDetailsView \<Rightarrow> (string \<times> 'r RemoteIpDetailsView) exec" where
  "remote_ip_render try_recv self =
     rmap (\<lambda>(v, p). (case v of Some hostname \<Rightarrow> hostname | None \<Rightarrow> ''[RESOLVING]'', self\<lparr>rv_hostname := p\<rparr>))
       (promise_value try_recv (rv_hostname self))"

fun remote_ip_renders ::
  "('r \<Rightarrow> 'e + string) list \<Rightarrow> 'r RemoteIpDetailsView \<Rightarrow> (string list \<times> 'r RemoteIpDetailsView) exec" where
  "remote_ip_renders [] v = Inr ([], v)"
| "remote_ip_renders (t # ts) v =
     rbind (remote_ip_render t v) (\<lambda>(s, v'). rmap (\<lambda>(ss, w). (s # ss, w)) (remote_ip_renders ts v'))"

section \<open>Rows\<close>

text \<open>\<open>rate\<close> is the division and rounding on floating point numbers, \<open>fmt\<close> the formatting of sizes.\<close>

definition format_rate :: "(u64 \<Rightarrow> Duration \<Rightarrow> u64) \<Rightarrow> (u64 \<Rightarrow> string) \<Rightarrow> Duration option \<Rightarrow> u64 \<Rightarrow> string" where
  "format_rate rate fmt rd val =
     (case rd of Some d \<Rightarrow> fmt (rate val d) | None \<Rightarrow> [])"

definition row_cells ::
  "(SocketAddr \<Rightarrow> string) \<Rightarrow> (Duration \<Rightarrow> string) \<Rightarrow> (u64 \<Rightarrow> Duration \<Rightarrow> u64) \<Rightarrow> (u64 \<Rightarrow> string)
    \<Rightarrow> ('p, 'path) Procfs \<Rightarrow> SystemTime \<Rightarrow> Duration option \<Rightarrow> Entry \<Rightarrow> string list" where
  "row_cells show_addr human rate fmt P now rd datapoint =
     (let last_activity = nat (now - e_last_activity datapoint)
      in [show_addr (sk_local (e_socket datapoint)),
          show_addr (sk_remote (e_socket datapoint)),
          SockType_to_string (sk_sock_type (e_socket datapoint)),
          human last_activity,
          to_string (unat (e_pid datapoint)),
          pid_name P (e_pid datapoint),
          format_rate rate fmt rd (rx (e_rate_stat datapoint)),
          format_rate rate fmt rd (tx (e_rate_stat datapoint))])"

section \<open>Lemmas\<close>

lemma socket_inodes_mem:
  "i \<in> set (socket_inodes P d) \<longleftrightarrow>
     (\<exists>proc fds. pf_open P (pd_pid d) = Some proc \<and> pf_fd P proc = Some fds \<and> Some (FD_Socket i) \<in> set fds)"
proof -
  have "i \<in> set (socket_inodes P d) \<longleftrightarrow> Some (FD_Socket i) \<in> set (opt_list (Option.bind (pd_process P d) (pf_fd P)))"
    by (force simp: socket_inodes_def fd_sockets_def map_filter_def split: option.splits FDTarget.splits)
  then show ?thesis
    by (cases "pf_open P (pd_pid d)"; cases "pf_fd P (the (pf_open P (pd_pid d)))")
      (simp_all add: pd_process_def opt_list_def)
qed

lemma established_le: "established_count is cs \<le> length cs"
  by (simp add: established_count_def)

lemma process_gone:
  assumes "pf_open P pid = None"
  shows "process_title (ProcessDetailsView_new P pid) = ''<PID '' @ to_string (unat pid) @ ''>''"
    "process_text P (ProcessDetailsView_new P pid) =
       [[''exe '', []], [''established tcp conns: '', to_string 0], [''established udp conns: '', to_string 0]]"
  using assms
  by (simp_all add: ProcessDetailsView_new_def from_procfs_pid_def ProcessDetails_empty_def process_title_def
      process_text_def tcp_conns_def udp_conns_def pd_process_def established_count_def unwrap_or_default_def Let_def)

lemma remote_ip_renders_polls:
  "remote_ip_renders ts v =
     rmap (\<lambda>(vs, p). (map (\<lambda>x. case x of Some h \<Rightarrow> h | None \<Rightarrow> ''[RESOLVING]'') vs, v\<lparr>rv_hostname := p\<rparr>))
       (polls ts (rv_hostname v))"
proof (induction ts arbitrary: v)
  case (Cons t ts)
  obtain x p where x: "promise_value t (rv_hostname v) = Inr (x, p)"
    using promise_value_ok [of t "rv_hostname v"] by auto
  obtain vs q where "polls ts p = Inr (vs, q)" using polls_ok [of ts p] by auto
  then show ?case using x Cons.IH by (simp add: remote_ip_render_def)
qed simp

end
