(* ===== verification/Ui_Views.thy ===== *)
theory Ui_Views
  imports Sparkline Details_Views
begin

text \<open>
  \<^verbatim>\<open>ptraf/src/ui.rs\<close>: the three views and the user interface (the event loop is in \<open>App_Main\<close>). A view answers a
  terminal event with a request or with nothing; the user interface carries the request
  out, or looks at the event itself.

  \<open>Env\<close> gathers what the views take from libraries and the system: the text area, the
  process file system and the channel of the hostname look-up. The part of rendering that
  changes state is modelled (collections and polling the hostname), drawing is not.
\<close>

section \<open>Views\<close>

record ('ta, 'p, 'path, 'r) Env =
  env_text :: "'ta TextArea"
  env_procfs :: "('p, 'path) Procfs"
  env_channel :: 'r

record 'ta MainView =
  mv_sparkline :: TrafficSparkline
  mv_table :: "'ta SocketTableView"

record ('ta, 'r) RemoteIpView =
  rip_details :: "'r RemoteIpDetailsView"
  rip_sparkline :: TrafficSparkline
  rip_table :: "'ta SocketTableView"

record 'ta ProcessView =
  prv_details :: ProcessDetailsView
  prv_sparkline :: TrafficSparkline
  prv_table :: "'ta SocketTableView"

datatype ('ta, 'r) RootView = Main "'ta MainView" | ProcessRoot "'ta ProcessView" | RemoteIpRoot "('ta, 'r) RemoteIpView"

definition MainView_default :: "('ta, 'p, 'path, 'r) Env \<Rightarrow> 'ta MainView" where
  "MainView_default E =
     \<lparr>mv_sparkline = TrafficSparkline_default, mv_table = SocketTableView_default (env_text E)\<rparr>"

definition MainView_new :: "('ta, 'p, 'path, 'r) Env \<Rightarrow> CustomFilter option \<Rightarrow> 'ta MainView" where
  "MainView_new E custom =
     \<lparr>mv_sparkline = TrafficSparkline_default,
      mv_table = SocketTableView_new (env_text E) (config_build SocketTableConfig_default) custom\<rparr>"

definition RemoteIpView_new ::
  "('ta, 'p, 'path, 'r) Env \<Rightarrow> StdIpAddr \<Rightarrow> CustomFilter option \<Rightarrow> ('ta, 'r) RemoteIpView" where
  "RemoteIpView_new E ipaddr custom =
     \<lparr>rip_details = fst (RemoteIpDetailsView_new ((), env_channel E) (\<lambda>_ w. w) ipaddr ()),
      rip_sparkline = spark_with_filter (RemoteIpFilter ipaddr),
      rip_table = SocketTableView_new (env_text E)
        (config_build (config_filter (RemoteIpFilter ipaddr) SocketTableConfig_default)) custom\<rparr>"

definition ProcessView_new ::
  "('ta, 'p, 'path, 'r) Env \<Rightarrow> u32 \<Rightarrow> CustomFilter option \<Rightarrow> 'ta ProcessView" where
  "ProcessView_new E pid custom =
     \<lparr>prv_details = ProcessDetailsView_new (env_procfs E) pid,
      prv_sparkline = spark_with_filter (Process pid),
      prv_table = SocketTableView_new (env_text E)
        (config_build (config_filter (Process pid) SocketTableConfig_default)) custom\<rparr>"

section \<open>Events of the views\<close>

definition select_process :: "'ta SocketTableView \<Rightarrow> UiEvent option" where
  "select_process t = map_option SelectProcess (view_selected_pid t)"

definition select_remote_ip :: "'ta SocketTableView \<Rightarrow> UiEvent option" where
  "select_remote_ip t = map_option (\<lambda>e. SelectRemoteIp (ip (sk_remote (e_socket e)))) (view_selected t)"

definition main_handle_event ::
  "'ta TextArea \<Rightarrow> Event \<Rightarrow> 'ta MainView \<Rightarrow> UiEvent option \<times> 'ta MainView" where
  "main_handle_event T event self =
     (case table_handle_event T event (mv_table self) of
        (Some u, t) \<Rightarrow> (Some u, self\<lparr>mv_table := t\<rparr>)
      | (None, t) \<Rightarrow>
         (let self' = self\<lparr>mv_table := t\<rparr> in
          case event of
            Key code ctrl \<Rightarrow>
              if code = Up \<or> code = Char (CHR ''k'') then (Some Change, self'\<lparr>mv_table := view_up t\<rparr>)
              else if code = Down \<or> code = Char (CHR ''j'') then (Some Change, self'\<lparr>mv_table := view_down t\<rparr>)
              else if code = Char (CHR ''p'') \<or> code = Enter then (select_process t, self')
              else if code = Char (CHR ''r'') then (select_remote_ip t, self')
              else (None, self')
          | OtherEvent n \<Rightarrow> (None, self')))"

definition remote_ip_handle_event ::
  "'ta TextArea \<Rightarrow> Event \<Rightarrow> ('ta, 'r) RemoteIpView \<Rightarrow> UiEvent option \<times> ('ta, 'r) RemoteIpView" where
  "remote_ip_handle_event T event self =
     (case table_handle_event T event (rip_table self) of
        (Some u, t) \<Rightarrow> (Some u, self\<lparr>rip_table := t\<rparr>)
      | (None, t) \<Rightarrow>
         (let self' = self\<lparr>rip_table := t\<rparr> in
          case event of
            Key code ctrl \<Rightarrow>
              if code = Char (CHR ''q'') \<or> code = Backspace then (Some Back, self')
              else if code = Up \<or> code = Char (CHR ''k'') then (Some Change, self'\<lparr>rip_table := view_up t\<rparr>)
              else if code = Down \<or> code = Char (CHR ''j'') then (Some Change, self'\<lparr>rip_table := view_down t\<rparr>)
              else if code = Char (CHR ''p'') \<or> code = Enter then (select_process t, self')
              else (None, self')
          | OtherEvent n \<Rightarrow> (None, self')))"

definition process_handle_event ::
  "'ta TextArea \<Rightarrow> Event \<Rightarrow> 'ta ProcessView \<Rightarrow> UiEvent option \<times> 'ta ProcessView" where
  "process_handle_event T event self =
     (case table_handle_event T event (prv_table self) of
        (Some u, t) \<Rightarrow> (Some u, self\<lparr>prv_table := t\<rparr>)
      | (None, t) \<Rightarrow>
         (let self' = self\<lparr>prv_table := t\<rparr> in
          case event of
            Key code ctrl \<Rightarrow>
              if code = Char (CHR ''q'') \<or> code = Backspace then (Some Back, self')
              else if code = Up \<or> code = Char (CHR ''k'') then (Some Change, self'\<lparr>prv_table := view_up t\<rparr>)
              else if code = Down \<or> code = Char (CHR ''j'') then (Some Change, self'\<lparr>prv_table := view_down t\<rparr>)
              else if code = Char (CHR ''r'') then (select_remote_ip t, self')
              else (None, self')
          | OtherEvent n \<Rightarrow> (None, self')))"

definition root_handle_event ::
  "'ta TextArea \<Rightarrow> Event \<Rightarrow> ('ta, 'r) RootView \<Rightarrow> UiEvent option \<times> ('ta, 'r) RootView" where
  "root_handle_event T event self =
     (case self of
        Main inner \<Rightarrow> map_prod id Main (main_handle_event T event inner)
      | ProcessRoot inner \<Rightarrow> map_prod id ProcessRoot (process_handle_event T event inner)
      | RemoteIpRoot inner \<Rightarrow> map_prod id RemoteIpRoot (remote_ip_handle_event T event inner))"

section \<open>The user interface\<close>

record ('ta, 'r) Ui =
  ui_paused :: bool
  ui_dirty :: bool
  ui_filter :: Filter
  ui_custom_filter :: "CustomFilter option"
  ui_view :: "('ta, 'r) RootView"

definition Ui_default :: "('ta, 'p, 'path, 'r) Env \<Rightarrow> ('ta, 'r) Ui" where
  "Ui_default E =
     \<lparr>ui_paused = False, ui_dirty = True, ui_filter = Filter_default, ui_custom_filter = None,
      ui_view = Main (MainView_default E)\<rparr>"

definition set_dirty :: "('ta, 'r) Ui \<Rightarrow> ('ta, 'r) Ui" where
  "set_dirty self = self\<lparr>ui_dirty := True\<rparr>"

definition toggle_pause :: "('ta, 'r) Ui \<Rightarrow> ('ta, 'r) Ui" where
  "toggle_pause self = self\<lparr>ui_paused := \<not> ui_paused self\<rparr>"

definition needs_display :: "('ta, 'r) Ui \<Rightarrow> bool" where
  "needs_display self = ui_dirty self"

definition update_view :: "('ta, 'p, 'path, 'r) Env \<Rightarrow> ('ta, 'r) Ui \<Rightarrow> ('ta, 'r) Ui" where
  "update_view E self =
     self\<lparr>ui_view :=
       (case ui_filter self of
          NoFilter \<Rightarrow> Main (MainView_new E (ui_custom_filter self))
        | Process pid \<Rightarrow> ProcessRoot (ProcessView_new E pid (ui_custom_filter self))
        | RemoteIpFilter ipaddr \<Rightarrow> RemoteIpRoot (RemoteIpView_new E ipaddr (ui_custom_filter self)))\<rparr>"

definition update_filter :: "('ta, 'p, 'path, 'r) Env \<Rightarrow> Filter \<Rightarrow> ('ta, 'r) Ui \<Rightarrow> bool \<times> ('ta, 'r) Ui" where
  "update_filter E f self =
     (if ui_filter self = f then (False, self) else (True, update_view E (self\<lparr>ui_filter := f\<rparr>)))"

definition ui_handle_event ::
  "('ta, 'p, 'path, 'r) Env \<Rightarrow> Event \<Rightarrow> ('ta, 'r) Ui \<Rightarrow> UiEvent option \<times> ('ta, 'r) Ui" where
  "ui_handle_event E event self =
     (case root_handle_event (env_text E) event (ui_view self) of
        (Some ui_event, view) \<Rightarrow>
          (let self' = self\<lparr>ui_view := view, ui_dirty := True\<rparr> in
           case ui_event of
             SelectRemoteIp a \<Rightarrow> (None, snd (update_filter E (RemoteIpFilter a) self'))
           | SelectProcess pid \<Rightarrow> (None, snd (update_filter E (Process pid) self'))
           | Back \<Rightarrow> (None, snd (update_filter E NoFilter self'))
           | SetCustomFilter f \<Rightarrow> (None, self'\<lparr>ui_custom_filter := f\<rparr>)
           | Quit \<Rightarrow> (Some Quit, self')
           | Change \<Rightarrow> (Some Change, self'))
      | (None, view) \<Rightarrow>
          (let self' = self\<lparr>ui_view := view\<rparr> in
           case event of
             Key code ctrl \<Rightarrow>
               if code = Char (CHR ''q'') then (Some Quit, self')
               else if code = Char (CHR '' '') then (Some Change, toggle_pause (set_dirty self'))
               else (None, self')
           | OtherEvent n \<Rightarrow> (None, self')))"

text \<open>Rendering: the store opens the segments up to now, then the panels of the view collect.\<close>

definition main_refresh ::
  "bool \<Rightarrow> (Socket list \<Rightarrow> Socket list) \<Rightarrow> (Entry list \<Rightarrow> Entry list) \<Rightarrow> bool \<Rightarrow> Timestamp \<Rightarrow> ClockNano
    \<Rightarrow> Store \<Rightarrow> Interpretor option \<Rightarrow> 'ta MainView \<Rightarrow> 'ta MainView exec" where
  "main_refresh oc ord vals paused ts clock store interp v =
     rbind (spark_collect oc ord store interp (mv_sparkline v)) (\<lambda>sp.
     rmap (\<lambda>t. v\<lparr>mv_sparkline := sp, mv_table := t\<rparr>)
       (table_refresh oc ord vals paused ts clock store (mv_table v)))"

definition process_refresh ::
  "bool \<Rightarrow> (Socket list \<Rightarrow> Socket list) \<Rightarrow> (Entry list \<Rightarrow> Entry list) \<Rightarrow> bool \<Rightarrow> Timestamp \<Rightarrow> ClockNano
    \<Rightarrow> Store \<Rightarrow> Interpretor option \<Rightarrow> 'ta ProcessView \<Rightarrow> 'ta ProcessView exec" where
  "process_refresh oc ord vals paused ts clock store interp v =
     rbind (spark_collect oc ord store interp (prv_sparkline v)) (\<lambda>sp.
     rmap (\<lambda>t. v\<lparr>prv_sparkline := sp, prv_table := t\<rparr>)
       (table_refresh oc ord vals paused ts clock store (prv_table v)))"

definition remote_ip_refresh ::
  "bool \<Rightarrow> (Socket list \<Rightarrow> Socket list) \<Rightarrow> (Entry list \<Rightarrow> Entry list) \<Rightarrow> ('r \<Rightarrow> 'e + string) \<Rightarrow> bool
    \<Rightarrow> Timestamp \<Rightarrow> ClockNano \<Rightarrow> Store \<Rightarrow> Interpretor option \<Rightarrow> ('ta, 'r) RemoteIpView \<Rightarrow> ('ta, 'r) RemoteIpView exec" where
  "remote_ip_refresh oc ord vals try_recv paused ts clock store interp v =
     rbind (remote_ip_render try_recv (rip_details v)) (\<lambda>(_, d).
     rbind (spark_collect oc ord store interp (rip_sparkline v)) (\<lambda>sp.
     rmap (\<lambda>t. v\<lparr>rip_details := d, rip_sparkline := sp, rip_table := t\<rparr>)
       (table_refresh oc ord vals paused ts clock store (rip_table v))))"

definition root_refresh ::
  "bool \<Rightarrow> (Socket list \<Rightarrow> Socket list) \<Rightarrow> (Entry list \<Rightarrow> Entry list) \<Rightarrow> ('r \<Rightarrow> 'e + string) \<Rightarrow> bool
    \<Rightarrow> Timestamp \<Rightarrow> ClockNano \<Rightarrow> Store \<Rightarrow> Interpretor option \<Rightarrow> ('ta, 'r) RootView \<Rightarrow> ('ta, 'r) RootView exec" where
  "root_refresh oc ord vals try_recv paused ts clock store interp self =
     (case self of
        Main v \<Rightarrow> rmap Main (main_refresh oc ord vals paused ts clock store interp v)
      | ProcessRoot v \<Rightarrow> rmap ProcessRoot (process_refresh oc ord vals paused ts clock store interp v)
      | RemoteIpRoot v \<Rightarrow> rmap RemoteIpRoot (remote_ip_refresh oc ord vals try_recv paused ts clock store interp v))"

lemmas refresh_defs = root_refresh_def main_refresh_def process_refresh_def remote_ip_refresh_def

definition ui_render ::
  "bool \<Rightarrow> (Socket list \<Rightarrow> Socket list) \<Rightarrow> (Entry list \<Rightarrow> Entry list) \<Rightarrow> ('r \<Rightarrow> 'e + string)
    \<Rightarrow> ClockNano \<Rightarrow> Instant \<Rightarrow> Store \<Rightarrow> ('ta, 'r) Ui \<Rightarrow> (('ta, 'r) Ui \<times> Store) exec option" where
  "ui_render oc ord vals try_recv clock now store self =
     map_option (\<lambda>res. rbind res (\<lambda>(ts, store').
         rmap (\<lambda>view. (self\<lparr>ui_dirty := False, ui_view := view\<rparr>, store'))
           (root_refresh oc ord vals try_recv (ui_paused self) ts clock store'
              (map_option cf_interpretor (ui_custom_filter self)) (ui_view self))))
       (oldest_timestamp (clock_now clock now) store)"

section \<open>The contract of a view\<close>

text \<open>
  The three views handle events alike: what the table (and its filter line) answers is
  passed on; otherwise the view looks at the key, leaves the filter line as it is, and never
  asks to quit or to set a filter.
\<close>

locale table_view =
  fixes T :: "'ta TextArea" and handle :: "Event \<Rightarrow> 'v \<Rightarrow> UiEvent option \<times> 'v" and tbl :: "'v \<Rightarrow> 'ta SocketTableView"
  assumes pass: "table_handle_event T e (tbl v) = (Some u, t) \<Longrightarrow>
      fst (handle e v) = Some u \<and> tbl (snd (handle e v)) = t"
    and fall: "table_handle_event T e (tbl v) = (None, t) \<Longrightarrow>
      v_filter_view (tbl (snd (handle e v))) = v_filter_view t \<and> v_table (tbl (snd (handle e v))) = v_table t"
    and fall_answer: "table_handle_event T e (tbl v) = (None, t) \<Longrightarrow> fst (handle e v) = Some u \<Longrightarrow>
      u = Change \<or> u = Back \<or> (\<exists>p. u = SelectProcess p) \<or> (\<exists>a. u = SelectRemoteIp a)"
    and fall_event: "table_handle_event T e (tbl v) = (None, t) \<Longrightarrow> fst (handle e v) \<noteq> None \<Longrightarrow> (\<exists>k c. e = Key k c)"
begin

abbreviation fv :: "'v \<Rightarrow> 'ta FilterView" where
  "fv v \<equiv> v_filter_view (tbl v)"

lemma table_event_fv:
  "v_table (snd (table_handle_event T e x)) = v_table x"
  "editing (v_filter_view x) \<Longrightarrow> v_filter_view (snd (table_handle_event T e x)) = snd (fv_handle_event T e (v_filter_view x))"
  "editing (v_filter_view x) \<Longrightarrow> fst (table_handle_event T e x) = fst (fv_handle_event T e (v_filter_view x))"
  "\<not> editing (v_filter_view x) \<Longrightarrow> v_filter_view (snd (table_handle_event T e x)) \<in> {v_filter_view x, set_editing T (v_filter_view x)}"
  "\<not> editing (v_filter_view x) \<Longrightarrow> fst (table_handle_event T e x) \<in> {None, Some Change}"
  by (auto simp: table_handle_event_def is_editing_def split: prod.splits Event.splits KeyCode.splits)

lemma handle_table: "v_table (tbl (snd (handle e v))) = v_table (tbl v)"
  using pass [of e v] fall [of e v] table_event_fv(1) [of e "tbl v"]
  by (cases "table_handle_event T e (tbl v)"; cases "fst (table_handle_event T e (tbl v))") auto

lemma handle_fv: "fv (snd (handle e v)) = v_filter_view (snd (table_handle_event T e (tbl v)))"
  using pass [of e v] fall [of e v]
  by (cases "table_handle_event T e (tbl v)"; cases "fst (table_handle_event T e (tbl v))") auto

lemma handle_fv_inv:
  assumes "text_area T" "fv_inv T (fv v)"
  shows "fv_inv T (fv (snd (handle e v)))"
proof (cases "editing (fv v)")
  case True
  then show ?thesis
    using text_area.fv_inv_event [OF assms] table_event_fv(2) [of "tbl v"] by (simp add: handle_fv)
next
  case False
  then show ?thesis
    using text_area.fv_inv_set_editing [OF assms] assms(2) table_event_fv(4) [of "tbl v" e] by (auto simp: handle_fv)
qed

lemma answer_cases:
  "fst (handle e v) = fst (table_handle_event T e (tbl v)) \<and> fst (handle e v) \<noteq> None
   \<or> fst (table_handle_event T e (tbl v)) = None
     \<and> (\<forall>u. fst (handle e v) = Some u \<longrightarrow>
          u = Change \<or> u = Back \<or> (\<exists>p. u = SelectProcess p) \<or> (\<exists>a. u = SelectRemoteIp a))"
  using pass [of e v] fall_answer [of e v]
  by (cases "table_handle_event T e (tbl v)"; cases "fst (table_handle_event T e (tbl v))") auto

text \<open>The filter in force changes only with the request that announces it.\<close>

lemma handle_committed:
  assumes T: "text_area T" and inv: "fv_inv T (fv v)"
  shows "committed_state (fv (snd (handle e v))) =
    (case fst (handle e v) of Some (SetCustomFilter f) \<Rightarrow> f | _ \<Rightarrow> committed_state (fv v))"
proof (cases "editing (fv v)")
  case False
  then have "committed_state (fv (snd (handle e v))) = committed_state (fv v)"
    using table_event_fv(4) [OF False, of e] by (auto simp: handle_fv set_editing_def)
  moreover have "fst (handle e v) \<noteq> Some (SetCustomFilter f)" for f
    using answer_cases [of e v] table_event_fv(5) [OF False, of e] by auto
  ultimately show ?thesis by (auto split: option.splits UiEvent.splits)
next
  case True
  have fvs: "fv (snd (handle e v)) = snd (fv_handle_event T e (fv v))"
    using table_event_fv(2) [OF True] by (simp add: handle_fv)
  have ans: "fst (table_handle_event T e (tbl v)) = fst (fv_handle_event T e (fv v))"
    using table_event_fv(3) [OF True] by simp
  have keep: "committed_state (snd (fv_handle_event T e (fv v))) = committed_state (fv v)"
    if "\<And>f. fst (fv_handle_event T e (fv v)) \<noteq> Some (SetCustomFilter f)"
    using that by (force simp: fv_handle_event_def Let_def abort_def fv_update_def split: prod.splits if_splits)
  show ?thesis
  proof (cases "\<exists>f. fst (fv_handle_event T e (fv v)) = Some (SetCustomFilter f)")
    case True
    then obtain f where f: "fst (fv_handle_event T e (fv v)) = Some (SetCustomFilter f)" by blast
    then have "committed_state (snd (fv_handle_event T e (fv v))) = f"
      using text_area.fv_event_answers [OF T inv f] by auto
    moreover have "fst (handle e v) = Some (SetCustomFilter f)"
      using answer_cases [of e v] ans f by auto
    ultimately show ?thesis by (simp add: fvs)
  next
    case False
    then have "fst (handle e v) \<noteq> Some (SetCustomFilter f)" for f
      using answer_cases [of e v] ans by auto
    then show ?thesis using keep False fvs by (auto split: option.splits UiEvent.splits)
  qed
qed

lemma handle_no_quit:
  assumes "text_area T" "fv_inv T (fv v)"
  shows "fst (handle e v) \<noteq> Some Quit"
  using answer_cases [of e v] text_area.fv_event_answers [OF assms, of e] table_event_fv(3,5) [of "tbl v" e]
  by (cases "editing (fv v)") auto

end

interpretation main_v: table_view T "main_handle_event T" mv_table
  by unfold_locales
    (auto simp: main_handle_event_def select_process_def select_remote_ip_def view_up_def view_down_def Let_def
      split: Event.splits if_splits)

interpretation process_v: table_view T "process_handle_event T" prv_table
  by unfold_locales
    (auto simp: process_handle_event_def select_process_def select_remote_ip_def view_up_def view_down_def Let_def
      split: Event.splits if_splits)

interpretation remote_v: table_view T "remote_ip_handle_event T" rip_table
  by unfold_locales
    (auto simp: remote_ip_handle_event_def select_process_def select_remote_ip_def view_up_def view_down_def Let_def
      split: Event.splits if_splits)

definition root_table :: "('ta, 'r) RootView \<Rightarrow> 'ta SocketTableView" where
  "root_table v = (case v of Main m \<Rightarrow> mv_table m | ProcessRoot p \<Rightarrow> prv_table p | RemoteIpRoot r \<Rightarrow> rip_table r)"

lemma fst_map_prod_id: "fst (map_prod id h r) = fst r" and snd_map_prod_id: "snd (map_prod id h r) = h (snd r)"
  by (cases r; simp)+

lemmas root_unfold = root_handle_event_def root_table_def fst_map_prod_id snd_map_prod_id

interpretation root_v: table_view T "root_handle_event T" root_table
proof
  fix e v u t
  show "fst (root_handle_event T e v) = Some u \<and> root_table (snd (root_handle_event T e v)) = t"
    if "table_handle_event T e (root_table v) = (Some u, t)"
    using that main_v.pass process_v.pass remote_v.pass by (cases v) (simp_all add: root_unfold)
  show "v_filter_view (root_table (snd (root_handle_event T e v))) = v_filter_view t
      \<and> v_table (root_table (snd (root_handle_event T e v))) = v_table t"
    if "table_handle_event T e (root_table v) = (None, t)"
    using that main_v.fall process_v.fall remote_v.fall by (cases v) (simp_all add: root_unfold)
  show "u = Change \<or> u = Back \<or> (\<exists>p. u = SelectProcess p) \<or> (\<exists>a. u = SelectRemoteIp a)"
    if "table_handle_event T e (root_table v) = (None, t)" "fst (root_handle_event T e v) = Some u"
    using that main_v.fall_answer process_v.fall_answer remote_v.fall_answer by (cases v) (simp_all add: root_unfold)
  show "\<exists>k c. e = Key k c"
    if "table_handle_event T e (root_table v) = (None, t)" "fst (root_handle_event T e v) \<noteq> None"
    using that main_v.fall_event process_v.fall_event remote_v.fall_event by (cases v) (simp_all add: root_unfold)
qed

section \<open>The invariant of the user interface\<close>

definition root_spark :: "('ta, 'r) RootView \<Rightarrow> TrafficSparkline" where
  "root_spark v = (case v of Main m \<Rightarrow> mv_sparkline m | ProcessRoot p \<Rightarrow> prv_sparkline p | RemoteIpRoot r \<Rightarrow> rip_sparkline r)"

definition root_subject :: "('ta, 'r) RootView \<Rightarrow> Filter" where
  "root_subject v =
     (case v of Main m \<Rightarrow> NoFilter | ProcessRoot p \<Rightarrow> Process (pv_pid (prv_details p))
      | RemoteIpRoot r \<Rightarrow> RemoteIpFilter (rv_ip (rip_details r)))"

abbreviation root_fv :: "('ta, 'r) RootView \<Rightarrow> 'ta FilterView" where
  "root_fv v \<equiv> v_filter_view (root_table v)"

text \<open>The view on display, its table and its graph are those of the current filter; the
  filter line shows the custom filter in force, which was parsed from its text.\<close>

definition ui_inv :: "('ta, 'p, 'path, 'r) Env \<Rightarrow> ('ta, 'r) Ui \<Rightarrow> bool" where
  "ui_inv E ui \<longleftrightarrow>
     root_subject (ui_view ui) = ui_filter ui
   \<and> t_filter (v_table (root_table (ui_view ui))) = ui_filter ui
   \<and> sp_filter (root_spark (ui_view ui)) = ui_filter ui
   \<and> fv_inv (env_text E) (root_fv (ui_view ui))
   \<and> committed_state (root_fv (ui_view ui)) = ui_custom_filter ui"

lemmas root_sels = root_spark_def root_subject_def root_table_def

lemma root_handle_frame:
  "root_subject (snd (root_handle_event T e v)) = root_subject v"
  "root_spark (snd (root_handle_event T e v)) = root_spark v"
proof -
  have "mv_sparkline (snd (main_handle_event T e m)) = mv_sparkline m" for m
    by (simp add: main_handle_event_def Let_def split: prod.splits option.splits Event.splits)
  moreover have "prv_sparkline (snd (process_handle_event T e p)) = prv_sparkline p
      \<and> prv_details (snd (process_handle_event T e p)) = prv_details p" for p
    by (simp add: process_handle_event_def Let_def split: prod.splits option.splits Event.splits)
  moreover have "rip_sparkline (snd (remote_ip_handle_event T e r)) = rip_sparkline r
      \<and> rip_details (snd (remote_ip_handle_event T e r)) = rip_details r" for r :: "('a, 'b) RemoteIpView"
    by (simp add: remote_ip_handle_event_def Let_def split: prod.splits option.splits Event.splits)
  ultimately show "root_subject (snd (root_handle_event T e v)) = root_subject v"
    "root_spark (snd (root_handle_event T e v)) = root_spark v"
    by (cases v; simp add: root_sels root_unfold)+
qed

lemma ui_inv_default: "text_area (env_text E) \<Longrightarrow> ui_inv E (Ui_default E)"
  by (simp add: ui_inv_def Ui_default_def MainView_default_def root_sels SocketTableView_default_def
      Filter_default_def TrafficSparkline_default_def config_build_def fv_inv_def
      SocketTable_new_def SocketTableConfig_default_def FilterView_default_def)

lemma ui_inv_update_view:
  assumes "text_area (env_text E)" "\<And>f. ui_custom_filter ui = Some f \<Longrightarrow> custom_ok f"
  shows "ui_inv E (update_view E ui)"
  using assms(2) text_area.fv_inv_with_filter [OF assms(1), of "ui_custom_filter ui"]
  by (auto simp: ui_inv_def update_view_def root_sels MainView_new_def ProcessView_new_def RemoteIpView_new_def
      ProcessDetailsView_new_def RemoteIpDetailsView_new_def spawn_blocking_def
      SocketTableView_new_def config_build_def SocketTable_new_def config_filter_def
      SocketTableConfig_default_def Filter_default_def TrafficSparkline_default_def spark_with_filter_def
      with_filter_def split: Filter.splits)

lemma ui_inv_frame:
  "ui_inv E ui \<Longrightarrow> ui_view ui' = ui_view ui \<Longrightarrow> ui_filter ui' = ui_filter ui \<Longrightarrow>
   ui_custom_filter ui' = ui_custom_filter ui \<Longrightarrow> ui_inv E ui'"
  by (simp add: ui_inv_def)

lemma ui_inv_update_filter:
  assumes "text_area (env_text E)" "ui_inv E ui"
  shows "ui_inv E (snd (update_filter E f ui))"
proof -
  have "custom_ok c" if "ui_custom_filter ui = Some c" for c
    using assms(2) that by (auto simp: ui_inv_def fv_inv_def)
  then show ?thesis
    using assms by (auto simp: update_filter_def intro: ui_inv_update_view)
qed

lemma ui_view_event:
  assumes T: "text_area (env_text E)" and inv: "ui_inv E ui"
    and r: "root_handle_event (env_text E) e (ui_view ui) = (a, v)"
  shows "ui_inv E (ui\<lparr>ui_view := v, ui_dirty := d,
     ui_custom_filter := (case a of Some (SetCustomFilter f) \<Rightarrow> f | _ \<Rightarrow> ui_custom_filter ui)\<rparr>)"
proof -
  have fi: "fv_inv (env_text E) (root_fv (ui_view ui))" using inv by (simp add: ui_inv_def)
  show ?thesis
    using inv root_v.handle_fv_inv [OF T fi, of e] root_v.handle_committed [OF T fi, of e]
      root_handle_frame [of "env_text E" e "ui_view ui"] root_v.handle_table [of "env_text E" e "ui_view ui"]
    by (simp add: ui_inv_def r split: option.splits UiEvent.splits)
qed

lemma ui_inv_event:
  assumes T: "text_area (env_text E)" and inv: "ui_inv E ui"
  shows "ui_inv E (snd (ui_handle_event E e ui))"
proof -
  obtain a v where r: "root_handle_event (env_text E) e (ui_view ui) = (a, v)" by fastforce
  note V = ui_view_event [OF T inv r]
  show ?thesis
  proof (cases a)
    case None
    have "ui_inv E (ui\<lparr>ui_view := v\<rparr>)" using V [of "ui_dirty ui"] None by simp
    then show ?thesis
      by (auto simp: ui_handle_event_def r None Let_def toggle_pause_def set_dirty_def
          split: Event.splits intro: ui_inv_frame)
  next
    case (Some u)
    let ?ui = "ui\<lparr>ui_view := v, ui_dirty := True\<rparr>"
    have keep: "ui_inv E ?ui" if "\<And>f. u \<noteq> SetCustomFilter f"
      using V [of True] Some that by (cases u) (auto simp: ui_inv_def)
    show ?thesis
    proof (cases u)
      case (SetCustomFilter f)
      then show ?thesis using V [of True] Some by (simp add: ui_handle_event_def r Let_def)
    qed (use keep Some ui_inv_update_filter [OF T keep] in \<open>simp_all add: ui_handle_event_def r Let_def\<close>)
  qed
qed

lemma table_refresh_frame:
  assumes "table_refresh oc ord vals paused ts clock store t = Inr t'"
  shows "v_filter_view t' = v_filter_view t" "v_selected t' = v_selected t" "t_filter (v_table t') = t_filter (v_table t)"
  using assms by (auto simp: table_refresh_def table_collect_def exec_elims Let_def split: if_splits)

lemma spark_collect_filter: "spark_collect oc ord st i sp = Inr sp' \<Longrightarrow> sp_filter sp' = sp_filter sp"
  by (auto simp: spark_collect_def exec_elims Let_def)

lemma remote_ip_render_ip: "remote_ip_render tr d = Inr (s, d') \<Longrightarrow> rv_ip d' = rv_ip d"
  by (auto simp: remote_ip_render_def exec_elims)

lemma root_refresh_frame:
  assumes "root_refresh oc ord vals tr paused ts clock store i v = Inr v'"
  shows "root_subject v' = root_subject v" "root_fv v' = root_fv v"
    "t_filter (v_table (root_table v')) = t_filter (v_table (root_table v))"
    "sp_filter (root_spark v') = sp_filter (root_spark v)"
  using assms
  by (auto simp: refresh_defs root_sels exec_elims spark_collect_filter remote_ip_render_ip
      dest: table_refresh_frame split: RootView.splits)

lemma ui_inv_render:
  assumes "ui_inv E ui" "ui_render oc ord vals tr clock now store ui = Some (Inr (ui', store'))"
  shows "ui_inv E ui'" "ui_filter ui' = ui_filter ui" "root_fv (ui_view ui') = root_fv (ui_view ui)" "\<not> ui_dirty ui'"
proof -
  obtain ts where r: "root_refresh oc ord vals tr (ui_paused ui) ts clock store'
      (map_option cf_interpretor (ui_custom_filter ui)) (ui_view ui) = Inr (ui_view ui')"
    and u: "ui' = ui\<lparr>ui_dirty := False, ui_view := ui_view ui'\<rparr>"
    using assms(2) by (auto simp: ui_render_def exec_elims)
  show "ui_filter ui' = ui_filter ui" "\<not> ui_dirty ui'" by (subst u, simp)+
  show "root_fv (ui_view ui') = root_fv (ui_view ui)" by (rule root_refresh_frame(2) [OF r])
  have "ui_filter ui' = ui_filter ui" "ui_custom_filter ui' = ui_custom_filter ui" by (subst u, simp)+
  then show "ui_inv E ui'" using assms(1) root_refresh_frame [OF r] by (simp add: ui_inv_def)
qed

section \<open>Quitting\<close>

lemma edit_char_answered:
  assumes "text_area T" "editing v" "\<not> (c = CHR ''m'' \<and> ctrl)"
  shows "fst (fv_handle_event T (Key (Char c) ctrl) v) = Some Change"
  using assms text_area.from_key [OF assms(1), of "Char c" ctrl]
  by (auto simp: fv_handle_event_def is_editing_def Let_def split: prod.splits)

text \<open>The interface quits only for \<open>q\<close>, on the main view, when no filter is being edited.\<close>

lemma ui_quits_only:
  assumes T: "text_area (env_text E)" and inv: "ui_inv E ui" and q: "fst (ui_handle_event E e ui) = Some Quit"
  shows "\<exists>ctrl. e = Key (Char (CHR ''q'')) ctrl" "ui_filter ui = NoFilter" "\<not> editing (root_fv (ui_view ui))"
proof -
  have fi: "fv_inv (env_text E) (root_fv (ui_view ui))" using inv by (simp add: ui_inv_def)
  obtain a v where r: "root_handle_event (env_text E) e (ui_view ui) = (a, v)" by fastforce
  have "a \<noteq> Some Quit" using root_v.handle_no_quit [OF T fi, of e] r by simp
  then have a: "a = None" using q by (auto simp: ui_handle_event_def r Let_def split: option.splits UiEvent.splits)
  then obtain ctrl where e: "e = Key (Char (CHR ''q'')) ctrl"
    using q by (auto simp: ui_handle_event_def r Let_def split: Event.splits if_splits)
  then show "\<exists>ctrl. e = Key (Char (CHR ''q'')) ctrl" by blast
  have none: "fst (table_handle_event (env_text E) e (root_table (ui_view ui))) = None"
    using root_v.answer_cases [of "env_text E" e "ui_view ui"] r a by auto
  show ed: "\<not> editing (root_fv (ui_view ui))"
    using none edit_char_answered [OF T, of "root_fv (ui_view ui)" "CHR ''q''" ctrl] e
      root_v.table_event_fv(3) [of "root_table (ui_view ui)" "env_text E" e] by auto
  have "root_subject (ui_view ui) = NoFilter"
    using r a e none
    by (auto simp: root_handle_event_def root_sels process_handle_event_def remote_ip_handle_event_def Let_def
        split: RootView.splits prod.splits option.splits)
  then show "ui_filter ui = NoFilter" using inv by (simp add: ui_inv_def)
qed

text \<open>Escape, then \<open>q\<close> at most twice, always quits.\<close>

abbreviation key_q :: Event where
  "key_q \<equiv> Key (Char (CHR ''q'')) False"

abbreviation key_esc :: Event where
  "key_esc \<equiv> Key Esc False"

lemma esc_stops_editing:
  assumes T: "text_area (env_text E)"
  shows "\<not> editing (root_fv (ui_view (snd (ui_handle_event E key_esc ui))))"
    "ui_filter (snd (ui_handle_event E key_esc ui)) = ui_filter ui"
proof -
  have tf: "fst (table_handle_event (env_text E) key_esc x) = None"
    "\<not> editing (v_filter_view (snd (table_handle_event (env_text E) key_esc x)))" for x
    using text_area.from_key [OF T, of Esc False]
    by (auto simp: table_handle_event_def is_editing_def fv_handle_event_def abort_def Let_def)
  define h where "h x = snd (table_handle_event (env_text E) key_esc x)" for x
  have t: "table_handle_event (env_text E) key_esc x = (None, h x)"
    "\<not> editing (v_filter_view (h x))" for x
    using tf [of x] by (simp_all add: h_def prod_eq_iff)
  have "fst (root_handle_event (env_text E) key_esc v) = None" for v :: "('a, 'd) RootView"
    by (cases v) (simp_all add: root_unfold main_handle_event_def process_handle_event_def
        remote_ip_handle_event_def t(1) Let_def)
  then obtain v' where r: "root_handle_event (env_text E) key_esc (ui_view ui) = (None, v')"
    by (metis prod.collapse)
  then have u: "ui_handle_event E key_esc ui = (None, ui\<lparr>ui_view := v'\<rparr>)"
    by (simp add: ui_handle_event_def Let_def)
  show "\<not> editing (root_fv (ui_view (snd (ui_handle_event E key_esc ui))))"
    using tf(2) [of "root_table (ui_view ui)"] root_v.handle_fv [of "env_text E" key_esc "ui_view ui"] by (simp add: u r)
  show "ui_filter (snd (ui_handle_event E key_esc ui)) = ui_filter ui" by (simp add: u)
qed

lemma q_not_editing:
  assumes ne: "\<not> editing (root_fv (ui_view ui))" and inv: "ui_inv E ui"
  shows "ui_filter ui = NoFilter \<Longrightarrow> fst (ui_handle_event E key_q ui) = Some Quit"
    "ui_filter ui \<noteq> NoFilter \<Longrightarrow> fst (ui_handle_event E key_q ui) = None
       \<and> ui_filter (snd (ui_handle_event E key_q ui)) = NoFilter
       \<and> \<not> editing (root_fv (ui_view (snd (ui_handle_event E key_q ui))))"
proof -
  have t: "table_handle_event (env_text E) key_q x = (None, x)" if "\<not> editing (v_filter_view x)" for x
    using that by (simp add: table_handle_event_def is_editing_def)
  have sub: "root_subject (ui_view ui) = ui_filter ui" using inv by (simp add: ui_inv_def)
  show "fst (ui_handle_event E key_q ui) = Some Quit" if "ui_filter ui = NoFilter"
    using that sub ne t
    by (cases "ui_view ui") (simp_all add: root_sels ui_handle_event_def root_handle_event_def main_handle_event_def Let_def)
  show "fst (ui_handle_event E key_q ui) = None
       \<and> ui_filter (snd (ui_handle_event E key_q ui)) = NoFilter
       \<and> \<not> editing (root_fv (ui_view (snd (ui_handle_event E key_q ui))))" if "ui_filter ui \<noteq> NoFilter"
    using that sub ne t
    by (cases "ui_view ui")
      (simp_all add: root_sels ui_handle_event_def root_handle_event_def process_handle_event_def
        remote_ip_handle_event_def Let_def update_filter_def update_view_def MainView_new_def SocketTableView_new_def with_filter_def)
qed

section \<open>Properties\<close>

text \<open>An environment to run the interface in: a plain text area and no processes.\<close>

definition sample_env :: "(string list, unit, string, unit) Env" where
  "sample_env =
     \<lparr>env_text = line_area,
      env_procfs = \<lparr>pf_open = (\<lambda>_. None), pf_pid = (\<lambda>_. 0), pf_exe = (\<lambda>_. None), pf_path_str = (\<lambda>_. None),
        pf_path_last = (\<lambda>_. None), pf_fd = (\<lambda>_. None), pf_tcp = (\<lambda>_. None), pf_tcp6 = (\<lambda>_. None),
        pf_udp = (\<lambda>_. None), pf_udp6 = (\<lambda>_. None)\<rparr>,
      env_channel = ()\<rparr>"

lemma sample_text_area: "text_area (env_text sample_env)"
  by (simp add: sample_env_def la.text_area_axioms)

lemma invalid_enter_passed:
  assumes T: "text_area T" and inv: "fv_inv T (v_filter_view x)" and ed: "editing (v_filter_view x)"
    and bad: "draft_content T (v_filter_view x) = Some s" "Interpretor_parse s = None"
  shows "table_handle_event T (Key Enter c) x = (None, x)"
proof -
  have "\<not> is_valid (v_filter_view x)"
    using inv ed bad by (simp add: is_valid_def fv_inv_def draft_of_def)
  then show ?thesis
    using ed by (simp add: table_handle_event_def fv_handle_event_def is_editing_def Let_def text_area.from_key [OF T])
qed

text \<open>C35. A filter that does not parse is not put in force by Enter, but the key is not held
  back either: on the main view, with a row selected, it opens the view of the process of that
  row, and the text being edited is lost.\<close>

theorem invalid_enter_opens_process:
  assumes "text_area (env_text E)" "ui_inv E ui" "ui_filter ui = NoFilter"
    and "editing (root_fv (ui_view ui))" "draft_content (env_text E) (root_fv (ui_view ui)) = Some s"
      "Interpretor_parse s = None"
    and "view_selected_pid (root_table (ui_view ui)) = Some p"
  shows "\<exists>ui'. ui_handle_event E (Key Enter c) ui = (None, ui') \<and> ui_filter ui' = Process p
    \<and> ui_custom_filter ui' = ui_custom_filter ui
    \<and> root_fv (ui_view ui') = with_filter (env_text E) (ui_custom_filter ui)"
proof -
  have fv: "fv_inv (env_text E) (root_fv (ui_view ui))" and sub: "root_subject (ui_view ui) = NoFilter"
    using assms(2,3) by (simp_all add: ui_inv_def)
  then obtain m where m: "ui_view ui = Main m" by (cases "ui_view ui") (simp_all add: root_sels)
  have "table_handle_event (env_text E) (Key Enter c) (mv_table m) = (None, mv_table m)"
    using invalid_enter_passed [OF assms(1)] fv assms(4-6) m by (simp add: root_sels)
  then show ?thesis
    using m assms(3,7)
    by (simp add: root_sels ui_handle_event_def root_handle_event_def main_handle_event_def select_process_def
        Let_def update_filter_def update_view_def ProcessView_new_def SocketTableView_new_def)
qed

text \<open>The main view with one row, selected, and \<open>x\<close> typed into the filter line.\<close>

definition sample_editing :: "(string list, unit) Ui" where
  "sample_editing =
     (Ui_default sample_env)\<lparr>ui_view := Main ((MainView_default sample_env)\<lparr>mv_table :=
        \<lparr>v_table = (config_build SocketTableConfig_default)\<lparr>t_dataset :=
            [\<lparr>e_socket = \<lparr>sk_pid = 7, sk_local = SocketAddr (V4 0) 1, sk_remote = SocketAddr (V4 0) 2,
                sk_sock_type = Stream\<rparr>,
              e_stat = 0, e_last_activity = 0, e_rate_stat = 0, e_pid = 7\<rparr>]\<rparr>,
         v_selected = Some 0,
         v_filter_view = \<lparr>committed_state = None, draft_interpretor = None, textarea = [''x''], editing = True\<rparr>\<rparr>\<rparr>)\<rparr>"

lemma x_not_a_filter: "Interpretor_parse ''x'' = None"
  by (simp add: Interpretor_parse_def parse_defs)

theorem invalid_enter_opens_process_witness:
  "\<exists>ui'. ui_handle_event sample_env (Key Enter False) sample_editing = (None, ui') \<and> ui_filter ui' = Process 7
    \<and> ui_custom_filter ui' = None \<and> root_fv (ui_view ui') = with_filter line_area None"
proof -
  note d = sample_editing_def root_sels Ui_default_def MainView_default_def TrafficSparkline_default_def
    config_build_def SocketTable_new_def SocketTableConfig_default_def Filter_default_def
  have inv: "ui_inv sample_env sample_editing"
    by (simp add: ui_inv_def d fv_inv_def draft_of_def draft_content_def first_line_def
        sample_env_def line_area_def x_not_a_filter)
  have "\<exists>ui'. ui_handle_event sample_env (Key Enter False) sample_editing = (None, ui') \<and> ui_filter ui' = Process 7
      \<and> ui_custom_filter ui' = ui_custom_filter sample_editing
      \<and> root_fv (ui_view ui') = with_filter (env_text sample_env) (ui_custom_filter sample_editing)"
    by (rule invalid_enter_opens_process [OF sample_text_area inv, where s = "''x''"])
      (simp_all add: d draft_content_def first_line_def sample_env_def line_area_def x_not_a_filter
        view_selected_pid_def nth_opt_def)
  then show ?thesis by (simp add: sample_env_def d)
qed

end
