(* ===== verification/Probe_User.thy ===== *)
theory Probe_User
  imports Common_Types
begin

text \<open>
  \<^verbatim>\<open>ptraf/src/probe.rs\<close>: the user side. It loads the program into the kernel and attaches
  the probes, then one task per CPU reads batches of raw events and hands them, as an
  iterator over the buffers, to a callback.

  The iterator casts each buffer to the packed \<^verbatim>\<open>SockMsgEvent\<close>: \<open>encode_event\<close> is the layout
  of that structure in memory and \<open>decode_event\<close> what the cast reads; a buffer that is not
  an event is undefined behaviour, the value \<^term>\<open>None\<close>. The loader's operations
  on the kernel and the reads of the perf buffers are arguments.
\<close>

section \<open>The packed event\<close>

fun u16_bytes :: "endian \<Rightarrow> u16 \<Rightarrow> u8 list" where
  "u16_bytes Little w = [ucast w, ucast (drop_bit 8 w)]"
| "u16_bytes Big w = [ucast (drop_bit 8 w), ucast w]"

fun u32_bytes :: "endian \<Rightarrow> u32 \<Rightarrow> u8 list" where
  "u32_bytes Little w = [ucast w, ucast (drop_bit 8 w), ucast (drop_bit 16 w), ucast (drop_bit 24 w)]"
| "u32_bytes Big w = [ucast (drop_bit 24 w), ucast (drop_bit 16 w), ucast (drop_bit 8 w), ucast w]"

fun arr8_bytes :: "endian \<Rightarrow> u16x8 \<Rightarrow> u8 list" where
  "arr8_bytes en (Arr8 a b c d e f g h) = concat (map (u16_bytes en) [a, b, c, d, e, f, g, h])"

definition version_byte :: "IpVersion \<Rightarrow> u8" where
  "version_byte v = (case v of V4_tag \<Rightarrow> 0 | V6_tag \<Rightarrow> 1)"

definition channel_byte :: "Channel \<Rightarrow> u8" where
  "channel_byte c = (case c of Tx \<Rightarrow> 0 | Rx \<Rightarrow> 1)"

definition addr_bytes :: "endian \<Rightarrow> IpAddr \<Rightarrow> u8 list" where
  "addr_bytes en a = arr8_bytes en (addr a) @ [version_byte (version a)]"

definition encode_event :: "endian \<Rightarrow> SockMsgEvent \<Rightarrow> u8 list" where
  "encode_event en e =
     u16_bytes en (SockType_repr (msg_sock_type e))
   @ addr_bytes en (msg_local_addr e) @ addr_bytes en (msg_remote_addr e)
   @ u16_bytes en (msg_local_port e) @ u16_bytes en (msg_remote_port e)
   @ u32_bytes en (msg_ret e) @ u32_bytes en (msg_pid e) @ [channel_byte (msg_channel e)]"

text \<open>Readers of one field: the value and the bytes after it.\<close>

type_synonym 'a reader = "u8 list \<Rightarrow> ('a \<times> u8 list) option"

fun rd_u16 :: "endian \<Rightarrow> u16 reader" where
  "rd_u16 Little (a # b # r) = Some (push_bit 8 (ucast b) OR ucast a, r)"
| "rd_u16 Big (a # b # r) = Some (push_bit 8 (ucast a) OR ucast b, r)"
| "rd_u16 _ _ = None"

fun rd_u32 :: "endian \<Rightarrow> u32 reader" where
  "rd_u32 Little (a # b # c # d # r) =
     Some (push_bit 24 (ucast d) OR push_bit 16 (ucast c) OR push_bit 8 (ucast b) OR ucast a, r)"
| "rd_u32 Big (a # b # c # d # r) =
     Some (push_bit 24 (ucast a) OR push_bit 16 (ucast b) OR push_bit 8 (ucast c) OR ucast d, r)"
| "rd_u32 _ _ = None"

definition rd_bind :: "'a reader \<Rightarrow> ('a \<Rightarrow> 'b reader) \<Rightarrow> 'b reader" where
  "rd_bind p f bs = (case p bs of None \<Rightarrow> None | Some (x, r) \<Rightarrow> f x r)"

definition rd_ret :: "'a \<Rightarrow> 'a reader" where
  "rd_ret x bs = Some (x, bs)"

definition rd_arr8 :: "endian \<Rightarrow> u16x8 reader" where
  "rd_arr8 en =
     rd_bind (rd_u16 en) (\<lambda>a. rd_bind (rd_u16 en) (\<lambda>b. rd_bind (rd_u16 en) (\<lambda>c. rd_bind (rd_u16 en) (\<lambda>d.
     rd_bind (rd_u16 en) (\<lambda>e. rd_bind (rd_u16 en) (\<lambda>f. rd_bind (rd_u16 en) (\<lambda>g. rd_bind (rd_u16 en) (\<lambda>h.
     rd_ret (Arr8 a b c d e f g h)))))))))"

fun rd_version :: "IpVersion reader" where
  "rd_version (b # r) = (if b = 0 then Some (V4_tag, r) else if b = 1 then Some (V6_tag, r) else None)"
| "rd_version [] = None"

fun rd_channel :: "Channel reader" where
  "rd_channel (b # r) = (if b = 0 then Some (Tx, r) else if b = 1 then Some (Rx, r) else None)"
| "rd_channel [] = None"

definition rd_addr :: "endian \<Rightarrow> IpAddr reader" where
  "rd_addr en = rd_bind (rd_arr8 en) (\<lambda>a. rd_bind rd_version (\<lambda>v. rd_ret \<lparr>addr = a, version = v\<rparr>))"

definition rd_sock_type :: "endian \<Rightarrow> SockType reader" where
  "rd_sock_type en =
     rd_bind (rd_u16 en) (\<lambda>d bs. if SockType_repr (SockType_from_u16 d) = d
                                then Some (SockType_from_u16 d, bs) else None)"

definition rd_event :: "endian \<Rightarrow> SockMsgEvent reader" where
  "rd_event en =
     rd_bind (rd_sock_type en) (\<lambda>t. rd_bind (rd_addr en) (\<lambda>la. rd_bind (rd_addr en) (\<lambda>ra.
     rd_bind (rd_u16 en) (\<lambda>lp. rd_bind (rd_u16 en) (\<lambda>rp. rd_bind (rd_u32 en) (\<lambda>v.
     rd_bind (rd_u32 en) (\<lambda>p. rd_bind rd_channel (\<lambda>c.
     rd_ret \<lparr>msg_sock_type = t, msg_local_addr = la, msg_remote_addr = ra, msg_local_port = lp,
             msg_remote_port = rp, msg_ret = v, msg_pid = p, msg_channel = c\<rparr>))))))))"

definition decode_event :: "endian \<Rightarrow> u8 list \<Rightarrow> SockMsgEvent option" where
  "decode_event en bytes = map_option fst (rd_event en bytes)"

section \<open>Reading back an event\<close>

text \<open>A reader reads what a writer wrote, whatever follows.\<close>

locale codec =
  fixes enc :: "'a \<Rightarrow> u8 list" and dec :: "'a reader"
  assumes dec_enc: "dec (enc x @ r) = Some (x, r)"
begin

lemma bind_enc: "rd_bind dec f (enc x @ r) = f x r"
  by (simp add: rd_bind_def dec_enc)

lemma enc_prefix_free:
  assumes "enc x @ r = enc y @ s"
  shows "x = y \<and> r = s"
proof -
  have "Some (x, r) = dec (enc x @ r)" by (rule dec_enc [symmetric])
  also have "\<dots> = Some (y, s)" unfolding assms by (rule dec_enc)
  finally show ?thesis by simp
qed

end

lemma rd_u16_bytes: "rd_u16 en (u16_bytes en w @ r) = Some (w, r)"
proof (cases en)
  case Little
  have "push_bit 8 (ucast (ucast (drop_bit 8 w) :: u8)) OR ucast (ucast w :: u8) = w"
    by (rule bit_word_eqI) (auto simp: bit_simps)
  then show ?thesis using Little by simp
next
  case Big
  have "push_bit 8 (ucast (ucast (drop_bit 8 w) :: u8)) OR ucast (ucast w :: u8) = w"
    by (rule bit_word_eqI) (auto simp: bit_simps)
  then show ?thesis using Big by simp
qed

lemma u32_of_bytes:
  "push_bit 24 (ucast (ucast (drop_bit 24 w) :: u8)) OR push_bit 16 (ucast (ucast (drop_bit 16 w) :: u8))
    OR push_bit 8 (ucast (ucast (drop_bit 8 w) :: u8)) OR ucast (ucast w :: u8) = w"
  (is "?l = w") for w :: u32
proof (rule bit_word_eqI)
  fix n assume "n < LENGTH(32)"
  then consider "n < 8" | "8 \<le> n" "n < 16" | "16 \<le> n" "n < 24" | "24 \<le> n" "n < 32" by force
  then show "bit ?l n = bit w n"
    by cases (auto simp: bit_simps)
qed

lemma rd_u32_bytes: "rd_u32 en (u32_bytes en w @ r) = Some (w, r)"
  by (cases en) (simp_all add: u32_of_bytes)

interpretation c16: codec "u16_bytes en" "rd_u16 en"
  by unfold_locales (rule rd_u16_bytes)

interpretation c32: codec "u32_bytes en" "rd_u32 en"
  by unfold_locales (rule rd_u32_bytes)

interpretation carr: codec "arr8_bytes en" "rd_arr8 en"
proof
  show "rd_arr8 en (arr8_bytes en x @ r) = Some (x, r)" for x r
    by (cases x) (simp add: rd_arr8_def c16.bind_enc rd_ret_def)
qed

interpretation cchan: codec "\<lambda>c. [channel_byte c]" rd_channel
  by unfold_locales (simp add: channel_byte_def split: Channel.splits)

interpretation caddr: codec "addr_bytes en" "rd_addr en"
proof
  show "rd_addr en (addr_bytes en x @ r) = Some (x, r)" for x r
    by (cases "version x")
      (simp_all add: rd_addr_def addr_bytes_def carr.bind_enc rd_bind_def carr.dec_enc rd_ret_def version_byte_def)
qed

interpretation ctype: codec "\<lambda>t. u16_bytes en (SockType_repr t)" "rd_sock_type en"
  by unfold_locales (simp add: rd_sock_type_def c16.bind_enc)

interpretation cevent: codec "encode_event en" "rd_event en"
proof
  show "rd_event en (encode_event en x @ r) = Some (x, r)" for x r
    unfolding rd_event_def encode_event_def append_assoc
    by (simp only: ctype.bind_enc caddr.bind_enc c16.bind_enc c32.bind_enc cchan.bind_enc rd_ret_def) simp
qed

lemma length_u16_bytes [simp]: "length (u16_bytes en w) = 2"
  and length_u32_bytes [simp]: "length (u32_bytes en v) = 4"
  by (cases en; simp)+

lemma length_encode_event: "length (encode_event en e) = 49"
proof -
  have "length (arr8_bytes en a) = 16" for a by (cases a) simp
  then show ?thesis by (simp add: encode_event_def addr_bytes_def)
qed

section \<open>The iterator over a batch\<close>

record EventIter =
  ei_buf :: "u8 list list"
  ei_cur :: nat

definition EventIter_new :: "u8 list list \<Rightarrow> EventIter" where
  "EventIter_new buf = \<lparr>ei_buf = buf, ei_cur = 0\<rparr>"

text \<open>An item is a reference to the event in its buffer: the buffer.\<close>

definition iter_next :: "EventIter \<Rightarrow> u8 list option \<times> EventIter" where
  "iter_next self =
     (if length (ei_buf self) \<le> ei_cur self then (None, self)
      else (Some (ei_buf self ! ei_cur self), self\<lparr>ei_cur := ei_cur self + 1\<rparr>))"

definition size_hint :: "EventIter \<Rightarrow> nat \<times> nat option" where
  "size_hint self =
     (if length (ei_buf self) \<le> ei_cur self then (0, Some 0)
      else (let rem = length (ei_buf self) - ei_cur self in (rem, Some rem)))"

function iter_collect :: "EventIter \<Rightarrow> u8 list list" where
  "iter_collect it = (case iter_next it of (None, _) \<Rightarrow> [] | (Some b, it') \<Rightarrow> b # iter_collect it')"
  by pat_completeness auto
termination
  by (relation "measure (\<lambda>it. length (ei_buf it) - ei_cur it)") (auto simp: iter_next_def split: if_splits)

declare iter_collect.simps [simp del]

lemma iter_collect_drop: "iter_collect it = drop (ei_cur it) (ei_buf it)"
proof (induction it rule: iter_collect.induct)
  case (1 it)
  show ?case
  proof (cases "length (ei_buf it) \<le> ei_cur it")
    case True
    then show ?thesis by (subst iter_collect.simps) (simp add: iter_next_def)
  next
    case False
    then have "iter_collect it = ei_buf it ! ei_cur it # drop (Suc (ei_cur it)) (ei_buf it)"
      using 1 by (subst iter_collect.simps) (simp add: iter_next_def)
    then show ?thesis using False by (simp add: Cons_nth_drop_Suc)
  qed
qed

lemma size_hint_exact: "size_hint it = (length (iter_collect it), Some (length (iter_collect it)))"
  by (auto simp: size_hint_def iter_collect_drop Let_def)

lemma iter_fused: "fst (iter_next it) = None \<Longrightarrow> snd (iter_next it) = it"
  by (auto simp: iter_next_def split: if_splits)

text \<open>Events read from a batch of buffers that hold events, padding included.\<close>

definition iter_events :: "endian \<Rightarrow> EventIter \<Rightarrow> SockMsgEvent option list" where
  "iter_events en it = map (decode_event en) (iter_collect it)"

lemma iter_events_encoded:
  "iter_events en (EventIter_new (map (\<lambda>(e, pad). encode_event en e @ pad) es)) = map (\<lambda>(e, pad). Some e) es"
  by (auto simp: iter_events_def iter_collect_drop EventIter_new_def decode_event_def cevent.dec_enc)

section \<open>One task per CPU\<close>

text \<open>The results of \<open>read_events\<close>, in order: an error ends the task, a read gives the
  buffers and how many of them were filled. A task that has no more results waits.\<close>

type_synonym 'e perf_read = "'e + (u8 list list \<times> nat)"

fun cpu_task :: "(EventIter \<Rightarrow> u32 \<Rightarrow> 's \<Rightarrow> 's exec) \<Rightarrow> u32 \<Rightarrow> 'e perf_read list \<Rightarrow> 's \<Rightarrow> ('e option \<times> 's) exec" where
  "cpu_task f cpu_id [] s = Inr (None, s)"
| "cpu_task f cpu_id (Inl e # rs) s = Inr (Some e, s)"
| "cpu_task f cpu_id (Inr (buffers, read) # rs) s =
     (if length buffers < read then Inl IndexOutOfBounds
      else rbind (f (EventIter_new (take read buffers)) cpu_id s) (cpu_task f cpu_id rs))"

lemma cpu_task_all:
  assumes "\<And>r bufs n. r \<in> set rs \<Longrightarrow> r = Inr (bufs, n) \<Longrightarrow> n \<le> length bufs"
    "\<And>r e. r \<in> set rs \<Longrightarrow> r \<noteq> Inl e"
    "\<And>it s. f it cpu s = Inr (fold g (iter_collect it) s)"
  shows "cpu_task f cpu rs s =
    Inr (None, fold g (concat (map (\<lambda>r. case r of Inr (bufs, n) \<Rightarrow> take n bufs | Inl e \<Rightarrow> []) rs)) s)"
  using assms
proof (induction rs arbitrary: s)
  case (Cons r rs)
  obtain bufs n where r: "r = Inr (bufs, n)" using Cons.prems(2) [of r] by (cases r) auto
  have "n \<le> length bufs" using Cons.prems(1) [of r] r by simp
  then show ?case
    using Cons by (simp add: r iter_collect_drop EventIter_new_def not_less)
qed simp

text \<open>
  Launching the tasks: the event map must exist, the online CPUs be known, and the buffer of
  each CPU open, in order; the first failure is returned. The result lists the CPUs that
  have a task.
\<close>

record 'e PerfEnv =
  pe_map :: "'e option"
  pe_cpus :: "'e + u32 list"
  pe_open :: "u32 \<Rightarrow> 'e option"

fun open_all :: "'e PerfEnv \<Rightarrow> u32 list \<Rightarrow> 'e + u32 list" where
  "open_all env [] = Inr []"
| "open_all env (c # cs) =
     (case pe_open env c of Some e \<Rightarrow> Inl e | None \<Rightarrow> rmap ((#) c) (open_all env cs))"

definition ProbeProgram_events :: "'e PerfEnv \<Rightarrow> 'e + u32 list" where
  "ProbeProgram_events env =
     (case pe_map env of Some e \<Rightarrow> Inl e | None \<Rightarrow> rbind (pe_cpus env) (open_all env))"

lemma open_all_Inr: "open_all env cs = Inr ts \<longleftrightarrow> ts = cs \<and> (\<forall>c \<in> set cs. pe_open env c = None)"
  by (induction cs arbitrary: ts) (auto simp: rmap_eq_Inr_iff split: option.splits)

lemma ProbeProgram_events_Inr:
  "ProbeProgram_events env = Inr ts \<longleftrightarrow>
     pe_map env = None \<and> pe_cpus env = Inr ts \<and> (\<forall>c \<in> set ts. pe_open env c = None)"
  by (auto simp: ProbeProgram_events_def rbind_eq_Inr_iff open_all_Inr split: option.splits)

section \<open>Loading the program\<close>

text \<open>
  The commands given to the kernel through the BPF library, in order, and what the library
  answers: whether the object has a program of that name (its absence panics), whether it
  is of the expected kind, and whether a command fails.
\<close>

datatype bpf_cmd = LoadObject | InitLogger | LoadProgram string | AttachProgram string string

datatype 'e load_error = LoadPanic panic | LoadErr 'e

record 'e BpfEnv =
  be_has :: "string \<Rightarrow> bool"
  be_kind :: "string \<Rightarrow> 'e option"
  be_cmd :: "bpf_cmd \<Rightarrow> 'e option"

type_synonym ('e, 'a) loader = "bpf_cmd list \<Rightarrow> ('e load_error + 'a) \<times> bpf_cmd list"

definition l_bind :: "('e, 'a) loader \<Rightarrow> ('a \<Rightarrow> ('e, 'b) loader) \<Rightarrow> ('e, 'b) loader" where
  "l_bind m f l = (case m l of (Inl e, l') \<Rightarrow> (Inl e, l') | (Inr x, l') \<Rightarrow> f x l')"

definition l_cmd :: "'e BpfEnv \<Rightarrow> bpf_cmd \<Rightarrow> ('e, unit) loader" where
  "l_cmd env c l = (case be_cmd env c of None \<Rightarrow> (Inr (), l @ [c]) | Some e \<Rightarrow> (Inl (LoadErr e), l))"

definition program_mut :: "'e BpfEnv \<Rightarrow> string \<Rightarrow> ('e, unit) loader" where
  "program_mut env name l =
     (if \<not> be_has env name then (Inl (LoadPanic UnwrapNone), l)
      else case be_kind env name of None \<Rightarrow> (Inr (), l) | Some e \<Rightarrow> (Inl (LoadErr e), l))"

fun attach_all :: "'e BpfEnv \<Rightarrow> string \<Rightarrow> string list \<Rightarrow> ('e, unit) loader" where
  "attach_all env name [] = (\<lambda>l. (Inr (), l))"
| "attach_all env name (f # fs) = l_bind (l_cmd env (AttachProgram name f)) (\<lambda>_. attach_all env name fs)"

definition load_probe :: "'e BpfEnv \<Rightarrow> string \<Rightarrow> string list \<Rightarrow> ('e, unit) loader" where
  "load_probe env name fs =
     l_bind (program_mut env name) (\<lambda>_. l_bind (l_cmd env (LoadProgram name)) (\<lambda>_. attach_all env name fs))"

definition run_inet_sock_set_state :: "'e BpfEnv \<Rightarrow> ('e, unit) loader" where
  "run_inet_sock_set_state env = load_probe env ''sock_set_state'' [''sock:inet_sock_set_state'']"

text \<open>\<open>if let Err(e) = m { warn!(..) }\<close>: an error is logged and dropped, a panic is not.\<close>

definition l_warn :: "('e, unit) loader \<Rightarrow> ('e, unit) loader" where
  "l_warn m l = (case m l of (Inl (LoadErr e), l') \<Rightarrow> (Inr (), l') | r \<Rightarrow> r)"

definition ProbeProgram_load :: "'e BpfEnv \<Rightarrow> ('e, unit) loader" where
  "ProbeProgram_load env =
     l_bind (l_cmd env LoadObject) (\<lambda>_.
     l_bind (l_warn (l_cmd env InitLogger)) (\<lambda>_.
     l_bind (load_probe env ''msg'' [''sock_sendmsg'', ''sock_recvmsg'']) (\<lambda>_.
     l_bind (load_probe env ''sendmsg_ret'' [''sock_sendmsg'']) (\<lambda>_.
     l_bind (load_probe env ''recvmsg_ret'' [''sock_recvmsg'']) (\<lambda>_.
     l_warn (run_inet_sock_set_state env))))))"

lemma l_bind_Inr:
  "fst (l_bind m f l) = Inr y \<longleftrightarrow> (\<exists>x. fst (m l) = Inr x \<and> fst (f x (snd (m l))) = Inr y)"
  by (auto simp: l_bind_def split: prod.splits sum.splits)

lemma snd_l_bind: "fst (m l) = Inr x \<Longrightarrow> snd (l_bind m f l) = snd (f x (snd (m l)))"
  by (auto simp: l_bind_def split: prod.splits)

lemma l_cmd_Inr: "fst (l_cmd env c l) = Inr u \<longleftrightarrow> be_cmd env c = None"
  by (simp add: l_cmd_def split: option.splits)

lemma snd_l_cmd: "snd (l_cmd env c l) = (if be_cmd env c = None then l @ [c] else l)"
  by (simp add: l_cmd_def split: option.splits)

lemma program_mut_Inr: "fst (program_mut env n l) = Inr u \<longleftrightarrow> be_has env n \<and> be_kind env n = None"
  by (simp add: program_mut_def split: option.splits)

lemma snd_program_mut [simp]: "snd (program_mut env n l) = l"
  by (simp add: program_mut_def split: option.splits)

definition probe_ready :: "'e BpfEnv \<Rightarrow> string \<Rightarrow> string list \<Rightarrow> bool" where
  "probe_ready env n fs \<longleftrightarrow> be_has env n \<and> be_kind env n = None \<and> be_cmd env (LoadProgram n) = None
     \<and> (\<forall>f \<in> set fs. be_cmd env (AttachProgram n f) = None)"

lemma attach_all_run:
  "fst (attach_all env n fs l) = Inr u \<longleftrightarrow> (\<forall>f \<in> set fs. be_cmd env (AttachProgram n f) = None)"
  "\<forall>f \<in> set fs. be_cmd env (AttachProgram n f) = None \<Longrightarrow>
   snd (attach_all env n fs l) = l @ map (AttachProgram n) fs"
proof (induction fs arbitrary: l)
  case (Cons f fs)
  { case 1
    show ?case using Cons.IH(1) by (auto simp: l_bind_Inr l_cmd_Inr) }
  { case 2
    then show ?case
      using Cons.IH(2) snd_l_bind [of "l_cmd env (AttachProgram n f)" l "()" "\<lambda>_. attach_all env n fs"]
      by (simp add: l_cmd_Inr snd_l_cmd) }
qed simp_all

lemma load_probe_run:
  "fst (load_probe env n fs l) = Inr u \<longleftrightarrow> probe_ready env n fs"
  "probe_ready env n fs \<Longrightarrow> snd (load_probe env n fs l) = l @ LoadProgram n # map (AttachProgram n) fs"
proof -
  show "fst (load_probe env n fs l) = Inr u \<longleftrightarrow> probe_ready env n fs"
    by (auto simp: load_probe_def l_bind_Inr l_cmd_Inr program_mut_Inr attach_all_run probe_ready_def)
  assume r: "probe_ready env n fs"
  then show "snd (load_probe env n fs l) = l @ LoadProgram n # map (AttachProgram n) fs"
    unfolding load_probe_def
    by (subst snd_l_bind [where x = "()"], simp add: program_mut_Inr probe_ready_def)
      (subst snd_l_bind [where x = "()"], auto simp: l_cmd_Inr snd_l_cmd attach_all_run probe_ready_def)
qed

lemma l_warn_Inr: "fst (l_warn m l) = Inr u \<longleftrightarrow> (\<forall>p. fst (m l) \<noteq> Inl (LoadPanic p))"
  by (auto simp: l_warn_def split: prod.splits sum.splits load_error.splits)

lemma snd_l_warn [simp]: "snd (l_warn m l) = snd (m l)"
  by (auto simp: l_warn_def split: prod.splits sum.splits load_error.splits)

lemma l_cmd_no_panic [simp]: "fst (l_cmd env c l) \<noteq> Inl (LoadPanic p)"
  by (simp add: l_cmd_def split: option.splits)

lemma l_bind_panic:
  "fst (l_bind m f l) = Inl (LoadPanic p) \<longleftrightarrow>
     fst (m l) = Inl (LoadPanic p) \<or> (\<exists>x. fst (m l) = Inr x \<and> fst (f x (snd (m l))) = Inl (LoadPanic p))"
  by (auto simp: l_bind_def split: prod.splits sum.splits)

lemma attach_all_no_panic: "fst (attach_all env n fs l) \<noteq> Inl (LoadPanic p)"
  by (induction fs arbitrary: l) (simp_all add: l_bind_panic)

lemma load_probe_panic: "fst (load_probe env n fs l) = Inl (LoadPanic p) \<longleftrightarrow> \<not> be_has env n \<and> p = UnwrapNone"
  by (auto simp: load_probe_def l_bind_panic attach_all_no_panic program_mut_def split: option.splits)

text \<open>The load succeeds exactly when the three kprobes are in place; the logger and the
  tracepoint do not matter, as long as the object has the tracepoint's program.\<close>

lemma ProbeProgram_load_ok:
  "fst (ProbeProgram_load env l) = Inr u \<longleftrightarrow>
     be_cmd env LoadObject = None
   \<and> probe_ready env ''msg'' [''sock_sendmsg'', ''sock_recvmsg'']
   \<and> probe_ready env ''sendmsg_ret'' [''sock_sendmsg'']
   \<and> probe_ready env ''recvmsg_ret'' [''sock_recvmsg'']
   \<and> be_has env ''sock_set_state''"
  by (auto simp: ProbeProgram_load_def l_bind_Inr l_cmd_Inr l_warn_Inr load_probe_run
      run_inet_sock_set_state_def load_probe_panic)

text \<open>\<^verbatim>\<open>examples/sock_state.rs\<close> attaches the tracepoint alone and waits for an interrupt; there
  an error of the tracepoint ends the program.\<close>

definition sock_state_main :: "'e BpfEnv \<Rightarrow> 'e option \<Rightarrow> ('e, unit) loader" where
  "sock_state_main env ctrl_c =
     l_bind (l_cmd env LoadObject) (\<lambda>_.
     l_bind (l_warn (l_cmd env InitLogger)) (\<lambda>_.
     l_bind (load_probe env ''sock_set_state'' [''sock:inet_sock_set_state'']) (\<lambda>_ l.
       (case ctrl_c of None \<Rightarrow> Inr () | Some e \<Rightarrow> Inl (LoadErr e), l))))"

lemma sock_state_main_ok:
  "fst (sock_state_main env ctrl_c l) = Inr u \<longleftrightarrow>
     be_cmd env LoadObject = None \<and> probe_ready env ''sock_set_state'' [''sock:inet_sock_set_state''] \<and> ctrl_c = None"
  by (auto simp: sock_state_main_def l_bind_Inr l_cmd_Inr l_warn_Inr load_probe_run split: option.splits)

text \<open>Commands are only ever added.\<close>

definition extends :: "('e, 'a) loader \<Rightarrow> bool" where
  "extends m \<longleftrightarrow> (\<forall>l. \<exists>post. snd (m l) = l @ post)"

lemma extends_cmd: "extends (l_cmd env c)"
  by (simp add: extends_def snd_l_cmd)

lemma extends_bind: "extends m \<Longrightarrow> (\<And>x. extends (f x)) \<Longrightarrow> extends (l_bind m f)"
  unfolding extends_def l_bind_def
  by (auto split: prod.splits sum.splits) (metis append.assoc snd_conv)+

lemma extends_attach: "extends (attach_all env n fs)"
proof (induction fs)
  case Nil
  then show ?case by (simp add: extends_def)
next
  case (Cons f fs)
  then show ?case by (simp add: extends_bind extends_cmd)
qed

lemma extends_load_probe: "extends (load_probe env n fs)"
  unfolding load_probe_def by (intro extends_bind extends_cmd extends_attach) (simp add: extends_def)

lemma ProbeProgram_load_attached:
  assumes "fst (ProbeProgram_load env []) = Inr u"
  shows "\<exists>pre post. snd (ProbeProgram_load env []) = pre
    @ [LoadProgram ''msg'', AttachProgram ''msg'' ''sock_sendmsg'', AttachProgram ''msg'' ''sock_recvmsg'',
       LoadProgram ''sendmsg_ret'', AttachProgram ''sendmsg_ret'' ''sock_sendmsg'',
       LoadProgram ''recvmsg_ret'', AttachProgram ''recvmsg_ret'' ''sock_recvmsg''] @ post"
proof -
  note ok = assms [unfolded ProbeProgram_load_ok]
  let ?l0 = "snd (l_cmd env InitLogger [LoadObject])"
  let ?l1 = "?l0 @ [LoadProgram ''msg'', AttachProgram ''msg'' ''sock_sendmsg'', AttachProgram ''msg'' ''sock_recvmsg'',
       LoadProgram ''sendmsg_ret'', AttachProgram ''sendmsg_ret'' ''sock_sendmsg'',
       LoadProgram ''recvmsg_ret'', AttachProgram ''recvmsg_ret'' ''sock_recvmsg'']"
  have "snd (ProbeProgram_load env []) = snd (run_inet_sock_set_state env ?l1)"
    using ok unfolding ProbeProgram_load_def
    by (simp add: snd_l_bind [where x = "()"] l_cmd_Inr snd_l_cmd l_warn_Inr load_probe_run)
  moreover obtain post where "snd (run_inet_sock_set_state env ?l1) = ?l1 @ post"
    using extends_load_probe [unfolded extends_def] run_inet_sock_set_state_def by metis
  ultimately have "snd (ProbeProgram_load env []) = ?l1 @ post" by simp
  then show ?thesis unfolding append_assoc by blast
qed

section \<open>Properties\<close>

text \<open>C24. An event written by the probe is read back unchanged from a perf buffer, with
  whatever follows it there, and takes 49 bytes.\<close>

theorem event_roundtrip:
  "decode_event en (encode_event en e @ pad) = Some e \<and> length (encode_event en e) = 49"
  by (simp add: decode_event_def cevent.dec_enc length_encode_event)

text \<open>C30. The probe program loads exactly when the object loads, the three kprobes are present,
  of the right kind, load and attach to both calls, and the object has the tracepoint's
  program; a missing logger or a tracepoint that does not load is only logged.\<close>

theorem load_succeeds_iff:
  "(\<exists>u. fst (ProbeProgram_load env l) = Inr u) \<longleftrightarrow>
     be_cmd env LoadObject = None
   \<and> probe_ready env ''msg'' [''sock_sendmsg'', ''sock_recvmsg'']
   \<and> probe_ready env ''sendmsg_ret'' [''sock_sendmsg'']
   \<and> probe_ready env ''recvmsg_ret'' [''sock_recvmsg'']
   \<and> be_has env ''sock_set_state''"
  by (simp add: ProbeProgram_load_ok)

text \<open>C31. The task of a CPU hands every buffer that was filled to the callback, once and in
  order, as long as reading does not fail.\<close>

theorem cpu_task_delivers:
  assumes "\<And>r bufs n. r \<in> set rs \<Longrightarrow> r = Inr (bufs, n) \<Longrightarrow> n \<le> length bufs"
    "\<And>r e. r \<in> set rs \<Longrightarrow> r \<noteq> Inl e"
    "\<And>it s. f it cpu s = Inr (fold g (iter_collect it) s)"
  shows "cpu_task f cpu rs s =
    Inr (None, fold g (concat (map (\<lambda>r. case r of Inr (bufs, n) \<Rightarrow> take n bufs | Inl e \<Rightarrow> []) rs)) s)"
  by (rule cpu_task_all) (use assms in auto)

theorem cpu_task_delivers_witness:
  "cpu_task (\<lambda>it cpu s. Inr (fold (\<lambda>b s. s @ [b]) (iter_collect it) s)) 0
     [Inr ([[1], [2], [3]], 2), Inr ([[4]], 1) :: string perf_read] [] = Inr (None, [[1], [2], [4]])"
  by (subst cpu_task_delivers [where g = "\<lambda>b s. s @ [b]"]) auto

end
