(* ===== verification/App_Main.thy ===== *)
theory App_Main
  imports Ui_Views Probe_User
begin

text \<open>
  \<^verbatim>\<open>ptraf/src/main.rs\<close> and the event loop of \<^verbatim>\<open>ptraf/src/ui.rs\<close>: what the command line
  makes of the store, the callback that records the events of a CPU, the loop that draws
  and dispatches, the set-up and restoration of the terminal, and how the program ends.

  Time, the terminal and the scheduler are the environment: a round of the loop carries the
  readings of the clock, the store as the probe tasks left it, whether the terminal could be
  written, and what woke the loop.
\<close>

section \<open>The event loop\<close>

datatype wake = Terminal Event | StreamError | Timeout

record Round =
  rd_now :: Instant
  rd_store :: Store
  rd_draw_ok :: bool
  rd_drawn :: Instant
  rd_wake :: wake

datatype ('ta, 'r) app_run =
    Running Instant "('ta, 'r) Ui"
  | Returned "('ta, 'r) Ui"
  | DrawFailed
  | Panicked panic
  | Diverged

record 'r Display =
  d_oc :: bool
  d_order :: "Socket list \<Rightarrow> Socket list"
  d_rows :: "Entry list \<Rightarrow> Entry list"
  d_recv :: "'r \<Rightarrow> string + string"
  d_clock :: ClockNano

definition app_event ::
  "('ta, 'p, 'path, 'r) Env \<Rightarrow> wake \<Rightarrow> ('ta, 'r) Ui \<Rightarrow> bool \<times> ('ta, 'r) Ui" where
  "app_event E w ui =
     (case w of
        Terminal event \<Rightarrow> (case ui_handle_event E event ui of (a, ui') \<Rightarrow> (a = Some Quit, ui'))
      | StreamError \<Rightarrow> (False, ui)
      | Timeout \<Rightarrow> (False, ui))"

definition app_draw ::
  "'r Display \<Rightarrow> Duration \<Rightarrow> Round \<Rightarrow> Instant \<Rightarrow> ('ta, 'r) Ui \<Rightarrow> ('ta, 'r) app_run" where
  "app_draw D tick_rate r last_update ui =
     (if needs_display ui \<or> rd_now r - last_update > tick_rate then
        (case ui_render (d_oc D) (d_order D) (d_rows D) (d_recv D) (d_clock D) (rd_now r) (rd_store r) ui of
           None \<Rightarrow> Diverged
         | Some (Inl p) \<Rightarrow> Panicked p
         | Some (Inr (ui', _)) \<Rightarrow> if rd_draw_ok r then Running (rd_drawn r) ui' else DrawFailed)
      else Running last_update ui)"

fun app_loop ::
  "('ta, 'p, 'path, 'r) Env \<Rightarrow> 'r Display \<Rightarrow> Duration \<Rightarrow> Round list \<Rightarrow> Instant \<Rightarrow> ('ta, 'r) Ui \<Rightarrow> ('ta, 'r) app_run" where
  "app_loop E D tick_rate [] last_update ui = Running last_update ui"
| "app_loop E D tick_rate (r # rs) last_update ui =
     (case app_draw D tick_rate r last_update ui of
        Running last_update' ui' \<Rightarrow>
          (case app_event E (rd_wake r) ui' of
             (True, ui'') \<Rightarrow> Returned ui''
           | (False, ui'') \<Rightarrow> app_loop E D tick_rate rs last_update' ui'')
      | stop \<Rightarrow> stop)"

definition run_app ::
  "('ta, 'p, 'path, 'r) Env \<Rightarrow> 'r Display \<Rightarrow> Duration \<Rightarrow> Instant \<Rightarrow> Round list \<Rightarrow> ('ta, 'r) app_run" where
  "run_app E D tick_rate now rs = app_loop E D tick_rate rs now (Ui_default E)"

text \<open>Every state of the loop has the invariant of the interface.\<close>

lemma app_draw_inv:
  assumes "app_draw D tick r l ui = Running l' ui'" "ui_inv E ui"
  shows "ui_inv E ui'" "ui_filter ui' = ui_filter ui" "root_fv (ui_view ui') = root_fv (ui_view ui)"
  using assms ui_inv_render [OF assms(2)]
  by (auto simp: app_draw_def split: if_splits option.splits sum.splits)

lemma app_event_inv:
  "text_area (env_text E) \<Longrightarrow> ui_inv E ui \<Longrightarrow> ui_inv E (snd (app_event E w ui))"
  using ui_inv_event [of E ui] by (auto simp: app_event_def split: wake.splits prod.splits) (metis snd_conv)

lemma app_loop_inv:
  assumes T: "text_area (env_text E)"
  shows "ui_inv E ui \<Longrightarrow>
    app_loop E D tick rs l ui = Running l' ui' \<or> app_loop E D tick rs l ui = Returned ui' \<Longrightarrow> ui_inv E ui'"
proof (induction rs arbitrary: l ui)
  case (Cons r rs)
  obtain l1 ui1 where d: "app_draw D tick r l ui = Running l1 ui1"
    using Cons.prems(2) by (auto simp: app_draw_def split: app_run.splits if_splits option.splits sum.splits)
  obtain q ui2 where e: "app_event E (rd_wake r) ui1 = (q, ui2)" by fastforce
  have "ui_inv E ui2"
    using app_event_inv [OF T app_draw_inv(1) [OF d Cons.prems(1)], of "rd_wake r"] by (simp add: e)
  then show ?case using Cons by (cases q) (auto simp: d e)
qed simp

text \<open>The loop only ever returns because of \<open>q\<close>, typed on the main view outside the filter
  line.\<close>

definition quits :: "wake \<Rightarrow> ('ta, 'r) Ui \<Rightarrow> bool" where
  "quits w ui \<longleftrightarrow> (\<exists>ctrl. w = Terminal (Key (Char (CHR ''q'')) ctrl)) \<and> ui_filter ui = NoFilter
     \<and> \<not> editing (root_fv (ui_view ui))"

lemma app_event_quits:
  assumes "text_area (env_text E)" "ui_inv E ui" "fst (app_event E w ui)"
  shows "quits w ui"
proof -
  obtain e where e: "w = Terminal e" "fst (ui_handle_event E e ui) = Some Quit"
    using assms(3) by (cases w) (auto simp: app_event_def split: prod.splits)
  then show ?thesis using ui_quits_only [OF assms(1,2) e(2)] by (simp add: quits_def)
qed

lemma app_loop_returned:
  assumes T: "text_area (env_text E)"
  shows "ui_inv E ui \<Longrightarrow> app_loop E D tick rs l ui = Returned ui' \<Longrightarrow>
    \<exists>pre r post l1 u1 l2 u2. rs = pre @ r # post \<and> app_loop E D tick pre l ui = Running l1 u1
      \<and> app_draw D tick r l1 u1 = Running l2 u2 \<and> quits (rd_wake r) u2"
proof (induction rs arbitrary: l ui)
  case (Cons r rs)
  obtain l1 ui1 where d: "app_draw D tick r l ui = Running l1 ui1"
    using Cons.prems(2) by (auto simp: app_draw_def split: app_run.splits if_splits option.splits sum.splits)
  note i1 = app_draw_inv(1) [OF d Cons.prems(1)]
  obtain q ui2 where e: "app_event E (rd_wake r) ui1 = (q, ui2)" by fastforce
  show ?case
  proof (cases q)
    case True
    then have "quits (rd_wake r) ui1" using app_event_quits [OF T i1, of "rd_wake r"] e by simp
    then show ?thesis using d by (intro exI [of _ "[]"] exI [of _ r] exI [of _ rs]) auto
  next
    case False
    have "ui_inv E ui2" using app_event_inv [OF T i1, of "rd_wake r"] by (simp add: e)
    moreover have "app_loop E D tick rs l1 ui2 = Returned ui'" using Cons.prems(2) False by (simp add: d e)
    ultimately obtain pre r' post l3 u3 l4 u4 where
      "rs = pre @ r' # post" "app_loop E D tick pre l1 ui2 = Running l3 u3"
      "app_draw D tick r' l3 u3 = Running l4 u4" "quits (rd_wake r') u4"
      using Cons.IH by metis
    then show ?thesis
      using d e False by (intro exI [of _ "r # pre"] exI [of _ r'] exI [of _ post]) auto
  qed
qed simp

text \<open>Escape and two \<open>q\<close> end the loop from every state, unless drawing fails first.\<close>

lemma escape_quits:
  assumes T: "text_area (env_text E)" and inv: "ui_inv E ui"
    and k: "rd_wake r1 = Terminal key_esc" "rd_wake r2 = Terminal key_q" "rd_wake r3 = Terminal key_q"
  shows "app_loop E D tick (r1 # r2 # r3 # rs) l ui \<noteq> Running l' ui'"
proof
  assume run: "app_loop E D tick (r1 # r2 # r3 # rs) l ui = Running l' ui'"
  obtain l1 u1 where d1: "app_draw D tick r1 l ui = Running l1 u1"
    using run by (auto split: app_run.splits)
  define v1 where "v1 = snd (ui_handle_event E key_esc u1)"
  have v1: "ui_inv E v1" "\<not> editing (root_fv (ui_view v1))"
    unfolding v1_def by (intro ui_inv_event [OF T] app_draw_inv(1) [OF d1 inv] esc_stops_editing(1) [OF T])+
  have run1: "app_loop E D tick (r2 # r3 # rs) l1 v1 = Running l' ui'"
    using run d1 k(1) by (auto simp: app_event_def v1_def split: prod.splits bool.splits)
  obtain l2 u2 where d2: "app_draw D tick r2 l1 v1 = Running l2 u2"
    using run1 by (auto split: app_run.splits)
  note i2 = app_draw_inv [OF d2 v1(1)]
  have ne2: "\<not> editing (root_fv (ui_view u2))" using v1(2) i2(3) by simp
  define v2 where "v2 = snd (ui_handle_event E key_q u2)"
  have f2: "fst (ui_handle_event E key_q u2) \<noteq> Some Quit"
    and run2: "app_loop E D tick (r3 # rs) l2 v2 = Running l' ui'"
    using run1 d2 k(2) by (auto simp: app_event_def v2_def split: prod.splits bool.splits)
  have "ui_filter u2 \<noteq> NoFilter" using q_not_editing(1) [OF ne2 i2(1)] f2 by blast
  then have v2: "ui_filter v2 = NoFilter" "\<not> editing (root_fv (ui_view v2))"
    using q_not_editing(2) [OF ne2 i2(1)] by (auto simp: v2_def)
  have iv2: "ui_inv E v2" unfolding v2_def by (rule ui_inv_event [OF T i2(1)])
  obtain l3 u3 where d3: "app_draw D tick r3 l2 v2 = Running l3 u3"
    using run2 by (auto split: app_run.splits)
  note i3 = app_draw_inv [OF d3 iv2]
  have "fst (ui_handle_event E key_q u3) = Some Quit"
    by (rule q_not_editing(1)) (use i3 v2 in simp_all)
  then show False using run2 d3 k(3) by (auto simp: app_event_def split: prod.splits)
qed

section \<open>The terminal\<close>

text \<open>\<^verbatim>\<open>run_ui\<close>: the commands given to the terminal, in order. A command that fails ends the
  function; the result of the loop is returned once the terminal is restored.\<close>

datatype term_cmd = EnableRaw | EnterAltScreen | NewTerminal | ClearTerminal | RunApp
  | DisableRaw | LeaveAltScreen | ShowCursor

fun term_seq :: "(term_cmd \<Rightarrow> 'e option) \<Rightarrow> term_cmd list \<Rightarrow> 'e option \<times> term_cmd list" where
  "term_seq te [] = (None, [])"
| "term_seq te (c # cs) =
     (case te c of
        Some e \<Rightarrow> (Some e, [])
      | None \<Rightarrow> (case term_seq te cs of (r, l) \<Rightarrow> (r, c # l)))"

definition run_ui :: "(term_cmd \<Rightarrow> 'e option) \<Rightarrow> 'e + unit \<Rightarrow> ('e + unit) \<times> term_cmd list" where
  "run_ui te res =
     (case term_seq te [EnableRaw, EnterAltScreen, NewTerminal, ClearTerminal] of
        (Some e, l) \<Rightarrow> (Inl e, l)
      | (None, l) \<Rightarrow>
         (case term_seq te [DisableRaw, LeaveAltScreen, ShowCursor] of
            (Some e, l') \<Rightarrow> (Inl e, l @ RunApp # l')
          | (None, l') \<Rightarrow> (res, l @ RunApp # l')))"

fun raw_after :: "term_cmd list \<Rightarrow> bool \<Rightarrow> bool" where
  "raw_after [] b = b"
| "raw_after (EnableRaw # cs) b = raw_after cs True"
| "raw_after (DisableRaw # cs) b = raw_after cs False"
| "raw_after (_ # cs) b = raw_after cs b"

section \<open>Command line and store\<close>

record Args =
  backlog_secs :: u64
  msg_buffer_capacity :: nat
  ui_refresh_rate_ms :: u64
  interval_ms :: u64

definition Args_default :: Args where
  "Args_default =
     \<lparr>backlog_secs = 30, msg_buffer_capacity = 4096, ui_refresh_rate_ms = 500, interval_ms = 250\<rparr>"

definition mul_u64 :: "bool \<Rightarrow> u64 \<Rightarrow> u64 \<Rightarrow> u64 exec" where
  "mul_u64 oc a b = (if oc \<and> 2 ^ 64 \<le> unat a * unat b then Inl ArithOverflow else Inr (a * b))"

definition segment_interval :: "Args \<Rightarrow> Duration" where
  "segment_interval args = from_millis (max (interval_ms args) 10)"

definition segment_count :: "bool \<Rightarrow> Args \<Rightarrow> nat exec" where
  "segment_count oc args =
     rmap (\<lambda>ms. unat (max (ms div max (interval_ms args) 10) 1)) (mul_u64 oc (backlog_secs args) 1000)"

definition main_store :: "bool \<Rightarrow> Args \<Rightarrow> Store exec" where
  "main_store oc args = rmap (Store_new (segment_interval args)) (segment_count oc args)"

lemma unat_max: "unat (max a b) = max (unat a) (unat b)" for a b :: "'a::len word"
  by (auto simp: max_def word_le_nat_alt)

lemma segment_interval_eq: "segment_interval args = max (unat (interval_ms args)) 10 * 1000000"
  by (simp add: segment_interval_def from_millis_def unat_max)

lemma segment_count_eq:
  assumes "unat (backlog_secs args) * 1000 < 2 ^ 64"
  shows "segment_count oc args =
    Inr (max (unat (backlog_secs args) * 1000 div max (unat (interval_ms args)) 10) 1)"
proof -
  have "unat (backlog_secs args * 1000) = unat (backlog_secs args) * 1000"
    using assms by (simp add: unat_word_ariths)
  then show ?thesis using assms by (simp add: segment_count_def mul_u64_def unat_max unat_div)
qed

lemma segment_count_pos: "segment_count oc args = Inr n \<Longrightarrow> 1 \<le> n"
  by (auto simp: segment_count_def rmap_eq_Inr_iff unat_max)

lemma main_store_inv:
  assumes "unat (interval_ms args) * 1000000 < 2 ^ 64" "main_store oc args = Inr st"
  shows "store_inv st" "1 \<le> st_capacity st" "st_segments st = []" "st_window st = segment_interval args"
    "represents Timeline_empty st"
proof -
  obtain n where n: "segment_count oc args = Inr n" "st = Store_new (segment_interval args) n"
    using assms(2) by (auto simp: main_store_def rmap_eq_Inr_iff)
  have "0 < segment_interval args" "u64_range (segment_interval args)"
    using assms(1) by (auto simp: segment_interval_eq max_def)
  then show "store_inv st" by (simp add: n(2) Store_new_inv)
  show "1 \<le> st_capacity st" using segment_count_pos [OF n(1)] by (simp add: n(2) Store_new_def)
  show "st_segments st = []" "st_window st = segment_interval args" by (simp_all add: n(2) Store_new_def)
  show "represents Timeline_empty st" unfolding n(2) by (rule represents_empty)
qed

section \<open>Recording events\<close>

text \<open>The callback of \<^verbatim>\<open>main\<close>: the events of a batch are recorded under the current time.
  The result is \<^term>\<open>None\<close> when the update does not return, or when a buffer does not hold
  an event (the program then has no defined behaviour).\<close>

definition on_events ::
  "endian \<Rightarrow> bool \<Rightarrow> ClockNano \<Rightarrow> Instant \<Rightarrow> EventIter \<Rightarrow> Store \<Rightarrow> Store exec option" where
  "on_events en oc clock now events st =
     (case those (iter_events en events) of
        None \<Rightarrow> None
      | Some ms \<Rightarrow> store_batch_update en oc (clock_now clock now) ms st)"

text \<open>The calls of the callback, of all tasks, in the order they take the store.\<close>

fun serve ::
  "endian \<Rightarrow> bool \<Rightarrow> ClockNano \<Rightarrow> (Instant \<times> u8 list list) list \<Rightarrow> Store \<Rightarrow> Store exec option" where
  "serve en oc clock [] st = Some (Inr st)"
| "serve en oc clock ((now, bufs) # bs) st =
     (case on_events en oc clock now (EventIter_new bufs) st of
        None \<Rightarrow> None
      | Some (Inl p) \<Rightarrow> Some (Inl p)
      | Some (Inr st') \<Rightarrow> serve en oc clock bs st')"

type_synonym batch = "Instant \<times> (SockMsgEvent \<times> u8 list) list"

definition batch_bufs :: "endian \<Rightarrow> batch \<Rightarrow> Instant \<times> u8 list list" where
  "batch_bufs en b = (fst b, map (\<lambda>(e, pad). encode_event en e @ pad) (snd b))"

definition batch_update :: "ClockNano \<Rightarrow> batch \<Rightarrow> Update" where
  "batch_update clock b = (clock_now clock (fst b), map fst (snd b))"

lemma those_map_Some: "those (map (\<lambda>x. Some (f x)) xs) = Some (map f xs)"
  by (induction xs) auto

lemma on_events_encoded:
  "on_events en oc clock now (EventIter_new (map (\<lambda>(e, pad). encode_event en e @ pad) es)) st =
   store_batch_update en oc (clock_now clock now) (map fst es) st"
  using those_map_Some [of fst es] iter_events_encoded [of en es] by (simp add: on_events_def case_prod_unfold)

lemma serve_updates:
  "serve en oc clock (map (batch_bufs en) bs) st = run_updates en oc (map (batch_update clock) bs) st"
  by (induction bs arbitrary: st)
    (auto simp: batch_bufs_def batch_update_def on_events_encoded split: option.splits sum.splits)

section \<open>The end of the program\<close>

datatype 'e main_error = BpfTaskExited | MainError 'e

datatype 'e main_event = CtrlC | TaskJoined "('e + ('e + unit)) option" | UiJoined "'e + ('e + unit)"

text \<open>\<^verbatim>\<open>tokio::select!\<close>: whichever comes first. A joined task gives the error of the join or its
  own result.\<close>

definition join_result :: "'e + ('e + unit) \<Rightarrow> 'e main_error + unit" where
  "join_result j = (case j of Inl e \<Rightarrow> Inl (MainError e) | Inr (Inl e) \<Rightarrow> Inl (MainError e) | Inr (Inr u) \<Rightarrow> Inr u)"

definition main_select :: "'e main_event \<Rightarrow> 'e main_error + unit" where
  "main_select ev =
     (case ev of
        CtrlC \<Rightarrow> Inr ()
      | TaskJoined None \<Rightarrow> Inl BpfTaskExited
      | TaskJoined (Some j) \<Rightarrow> join_result j
      | UiJoined j \<Rightarrow> join_result j)"

definition main_program ::
  "bool \<Rightarrow> Args \<Rightarrow> 'e BpfEnv \<Rightarrow> 'e PerfEnv \<Rightarrow> 'e main_event \<Rightarrow> ('e main_error + unit) exec" where
  "main_program oc args be pe ev =
     rbind (main_store oc args) (\<lambda>store.
       case fst (ProbeProgram_load be []) of
         Inl (LoadPanic p) \<Rightarrow> Inl p
       | Inl (LoadErr e) \<Rightarrow> Inr (Inl (MainError e))
       | Inr () \<Rightarrow>
           (case ProbeProgram_events pe of
              Inl e \<Rightarrow> Inr (Inl (MainError e))
            | Inr tasks \<Rightarrow> Inr (main_select ev)))"

section \<open>Drawing does not fail\<close>

text \<open>A round in which the terminal can be written, over a store with its invariant, in a
  release build.\<close>

definition round_ok :: "'r Display \<Rightarrow> Round \<Rightarrow> bool" where
  "round_ok D r \<longleftrightarrow> \<not> d_oc D \<and> rd_draw_ok r \<and> store_inv (rd_store r) \<and> u64_range (clock_now (d_clock D) (rd_now r))"

lemma root_refresh_total:
  assumes "store_inv st" "u64_range ts"
  shows "\<exists>v'. root_refresh False ord vals tr paused ts clock st i v = Inr v'"
proof -
  have t: "\<exists>t'. table_refresh False ord vals paused ts clock st t = Inr t'" for t :: "'a SocketTableView"
    using table_collect_release [OF store_invD(1,2) [OF assms(1)] assms(2), of ord vals clock "fv_interpretor (v_filter_view t)" "v_table t"]
    by (cases paused) (auto simp: table_refresh_def)
  have s: "\<exists>sp'. spark_collect False ord st i sp = Inr sp'" for sp by (rule spark_collect_release)
  show ?thesis
  proof (cases v)
    case (Main m)
    then show ?thesis using t [of "mv_table m"] s [of "mv_sparkline m"] by (auto simp: refresh_defs)
  next
    case (ProcessRoot p)
    then show ?thesis using t [of "prv_table p"] s [of "prv_sparkline p"] by (auto simp: refresh_defs)
  next
    case (RemoteIpRoot r)
    obtain x p where "promise_value tr (rv_hostname (rip_details r)) = Inr (x, p)"
      using promise_value_ok [of tr "rv_hostname (rip_details r)"] by auto
    then show ?thesis
      using RemoteIpRoot t [of "rip_table r"] s [of "rip_sparkline r"] by (auto simp: refresh_defs remote_ip_render_def)
  qed
qed

lemma ui_render_total:
  assumes "store_inv st" "u64_range (clock_now clock now)"
  shows "\<exists>ui' st'. ui_render False ord vals tr clock now st ui = Some (Inr (ui', st'))"
proof -
  obtain b where b: "trunc (clock_now clock now) (st_window st) = Inr b"
    "write_segment (clock_now clock now) st = Some (Inr (advance b st))"
    using write_segment_advance [OF assms] by blast
  have inv: "store_inv (advance b st)"
    using clk.bucket_dvd [OF store_invD(2) [OF assms(1)] b(1)] trunc_u64 [OF b(1)]
    by (intro store_inv_advance [OF assms(1)]) auto
  let ?s = "last (st_segments (advance b st))"
  have "u64_range (ts_ts ?s)" using store_invD(5) [OF inv, of "ts_ts ?s"] by simp
  then obtain v' where "root_refresh False ord vals tr (ui_paused ui) (ts_ts ?s) clock (advance b st)
      (map_option cf_interpretor (ui_custom_filter ui)) (ui_view ui) = Inr v'"
    using root_refresh_total [OF inv] by blast
  then show ?thesis by (simp add: ui_render_def oldest_timestamp_def b(2) write_deref_def deque_back_def)
qed

lemma app_draw_total:
  assumes "round_ok D r"
  shows "\<exists>l' ui'. app_draw D tick r l ui = Running l' ui'"
proof -
  obtain ui' st' where
    "ui_render False (d_order D) (d_rows D) (d_recv D) (d_clock D) (rd_now r) (rd_store r) ui = Some (Inr (ui', st'))"
    using ui_render_total assms unfolding round_ok_def by blast
  then show ?thesis using assms by (auto simp: app_draw_def round_ok_def)
qed

lemma app_loop_ok:
  "list_all (round_ok D) rs \<Longrightarrow>
   (\<exists>l' ui'. app_loop E D tick rs l ui = Running l' ui') \<or> (\<exists>ui'. app_loop E D tick rs l ui = Returned ui')"
proof (induction rs arbitrary: l ui)
  case (Cons r rs)
  have "round_ok D r" using Cons.prems by simp
  then obtain l1 ui1 where d: "app_draw D tick r l ui = Running l1 ui1" using app_draw_total by blast
  obtain q ui2 where e: "app_event E (rd_wake r) ui1 = (q, ui2)" by fastforce
  show ?case using Cons by (cases q) (auto simp: d e)
qed simp

lemma app_loop_append:
  "app_loop E D tick (xs @ ys) l ui =
     (case app_loop E D tick xs l ui of Running l' ui' \<Rightarrow> app_loop E D tick ys l' ui' | r \<Rightarrow> r)"
  by (induction xs arbitrary: l ui) (auto split: app_run.splits prod.splits bool.splits)

section \<open>Properties\<close>

text \<open>A set-up to run the program in: the sample environment and a fresh store.\<close>

definition sample_display :: "unit Display" where
  "sample_display =
     \<lparr>d_oc = False, d_order = id, d_rows = id, d_recv = (\<lambda>_. Inl ''empty''),
      d_clock = \<lparr>clock_start = 0, clock_wall_time = 0\<rparr>\<rparr>"

definition key_round :: "Event \<Rightarrow> Round" where
  "key_round e =
     \<lparr>rd_now = 1000, rd_store = Store_new 100 4, rd_draw_ok = True, rd_drawn = 1000, rd_wake = Terminal e\<rparr>"

lemma wake_key_round [simp]: "rd_wake (key_round e) = Terminal e"
  by (simp add: key_round_def)

lemma sample_round_ok: "round_ok sample_display (key_round e)"
  by (simp add: round_ok_def sample_display_def key_round_def Store_new_inv clock_now_def)







text \<open>C26. The terminal around the interface: the loop runs exactly when the whole set-up
  succeeds; raw mode is left on exactly when the set-up fails after entering it or when it
  cannot be disabled, so an error in between leaves the user's terminal raw; and success is
  reported exactly when every command and the loop succeed.\<close>

theorem terminal_restored:
  "(RunApp \<in> set (snd (run_ui te res)) \<longleftrightarrow>
      te EnableRaw = None \<and> te EnterAltScreen = None \<and> te NewTerminal = None \<and> te ClearTerminal = None)
   \<and> (raw_after (snd (run_ui te res)) False \<longleftrightarrow>
      te EnableRaw = None \<and> (te EnterAltScreen \<noteq> None \<or> te NewTerminal \<noteq> None \<or> te ClearTerminal \<noteq> None
        \<or> te DisableRaw \<noteq> None))
   \<and> (fst (run_ui te res) = Inr () \<longleftrightarrow> (\<forall>c. c = RunApp \<or> te c = None) \<and> res = Inr ())"
proof -
  have "(\<forall>c. c = RunApp \<or> te c = None) \<longleftrightarrow>
      te EnableRaw = None \<and> te EnterAltScreen = None \<and> te NewTerminal = None \<and> te ClearTerminal = None
    \<and> te DisableRaw = None \<and> te LeaveAltScreen = None \<and> te ShowCursor = None"
    by (metis term_cmd.exhaust term_cmd.distinct)
  then show ?thesis by (auto simp: run_ui_def split: option.splits)
qed

theorem terminal_restored_witness:
  "raw_after (snd (run_ui (\<lambda>c. if c = NewTerminal then Some ''io'' else None) (Inr ()))) False"
  by (subst terminal_restored [THEN conjunct2, THEN conjunct1]) simp



end
