(* ===== verification/Kernel_Bindings.thy ===== *)
theory Kernel_Bindings
  imports Common_Types
begin

text \<open>
  \<^verbatim>\<open>ptraf-ebpf/src/bindings.rs\<close>, the part the probe works with: the bit-field unit with its
  readers and writers, and the kernel structures \<^verbatim>\<open>sock_common\<close>, \<^verbatim>\<open>sock\<close> and \<^verbatim>\<open>socket\<close> with
  the accessors of their bit fields.

  The storage of a unit is the list of its bytes. The flag \<open>dbg\<close> is the build's
  \<^verbatim>\<open>debug_assertions\<close> setting. A pointer is its address. A union is stored as one of its
  members and the others are read through the layout of the target. Of the fields of
  \<^verbatim>\<open>sock\<close> and \<^verbatim>\<open>socket\<close> only those the probe reads and the bit fields are kept.
\<close>

section \<open>Bit-field units\<close>

record BitfieldUnit =
  storage :: "u8 list"

definition BitfieldUnit_new :: "u8 list \<Rightarrow> BitfieldUnit" where
  "BitfieldUnit_new s = \<lparr>storage = s\<rparr>"

definition bit_index :: "endian \<Rightarrow> nat \<Rightarrow> nat" where
  "bit_index en index = (case en of Big \<Rightarrow> 7 - index mod 8 | Little \<Rightarrow> index mod 8)"

definition get_bit :: "endian \<Rightarrow> BitfieldUnit \<Rightarrow> nat \<Rightarrow> bool exec" where
  "get_bit en self index =
     (let byte_index = index div 8 in
      if byte_index < length (storage self) then
        (let byte = storage self ! byte_index; mask = push_bit (bit_index en index) 1
         in Inr (byte AND mask = mask))
      else Inl IndexOutOfBounds)"

definition set_bit_unit :: "endian \<Rightarrow> nat \<Rightarrow> bool \<Rightarrow> BitfieldUnit \<Rightarrow> BitfieldUnit exec" where
  "set_bit_unit en index val self =
     (let byte_index = index div 8 in
      if byte_index < length (storage self) then
        (let byte = storage self ! byte_index; mask = push_bit (bit_index en index) 1;
             byte' = (if val then byte OR mask else byte AND NOT mask)
         in Inr (self\<lparr>storage := (storage self)[byte_index := byte']\<rparr>))
      else Inl IndexOutOfBounds)"

text \<open>\<open>1 << i\<close> at 64 bits: the amount is checked in debug builds and reduced in release ones.\<close>

definition shl1_u64 :: "bool \<Rightarrow> nat \<Rightarrow> u64 exec" where
  "shl1_u64 dbg i =
     (if i < 64 then Inr (push_bit i 1) else if dbg then Inl ArithOverflow else Inr (push_bit (i mod 64) 1))"

definition field_index :: "endian \<Rightarrow> nat \<Rightarrow> nat \<Rightarrow> nat" where
  "field_index en width i = (case en of Big \<Rightarrow> width - 1 - i | Little \<Rightarrow> i)"

definition field_assert :: "bool \<Rightarrow> BitfieldUnit \<Rightarrow> nat \<Rightarrow> nat \<Rightarrow> bool" where
  "field_assert dbg self bit_offset bit_width \<longleftrightarrow>
     \<not> dbg \<or> bit_width \<le> 64 \<and> bit_offset div 8 < length (storage self)
        \<and> (bit_offset + bit_width) div 8 \<le> length (storage self)"

definition get_field :: "endian \<Rightarrow> bool \<Rightarrow> BitfieldUnit \<Rightarrow> nat \<Rightarrow> u8 \<Rightarrow> u64 exec" where
  "get_field en dbg self bit_offset bit_width =
     (if \<not> field_assert dbg self bit_offset (unat bit_width) then Inl ExplicitPanic
      else rfold (\<lambda>i val. rbind (get_bit en self (i + bit_offset)) (\<lambda>b.
             if b then rmap (\<lambda>m. val OR m) (shl1_u64 dbg (field_index en (unat bit_width) i))
             else Inr val))
           [0..<unat bit_width] 0)"

definition set_field ::
  "endian \<Rightarrow> bool \<Rightarrow> nat \<Rightarrow> u8 \<Rightarrow> u64 \<Rightarrow> BitfieldUnit \<Rightarrow> BitfieldUnit exec" where
  "set_field en dbg bit_offset bit_width val self =
     (if \<not> field_assert dbg self bit_offset (unat bit_width) then Inl ExplicitPanic
      else rfold (\<lambda>i unit. rbind (shl1_u64 dbg i) (\<lambda>mask.
             set_bit_unit en (field_index en (unat bit_width) i + bit_offset) (val AND mask = mask) unit))
           [0..<unat bit_width] self)"

section \<open>Kernel structures\<close>

type_synonym ptr = u64

record hlist_node =
  hl_next :: ptr
  hl_pprev :: ptr

record sock_addrs =
  skc_daddr :: u32
  skc_rcv_saddr :: u32

record sock_ports =
  skc_dport :: u16
  skc_num :: u16

record sock_common =
  skc_addrs :: sock_addrs
  skc_hash :: u32
  skc_ports :: sock_ports
  skc_family :: u16
  skc_state :: u8
  skc_bitfield_1 :: BitfieldUnit
  skc_bound_dev_if :: i32
  skc_bind_node :: hlist_node
  skc_prot :: ptr
  skc_net :: ptr
  skc_v6_daddr :: u16x8
  skc_v6_rcv_saddr :: u16x8
  skc_cookie :: u64
  skc_flags :: u64
  skc_node :: hlist_node
  skc_tx_queue_mapping :: u16
  skc_rx_queue_mapping :: u16
  skc_incoming_cpu :: u32
  skc_refcnt :: u32
  skc_rxhash :: u32

text \<open>The other members of the unions: the two ports as one \<open>u32\<close>, the two addresses as
  one \<open>u64\<close>; the first field of the pair has the lower address.\<close>

definition skc_portpair :: "endian \<Rightarrow> sock_common \<Rightarrow> u32" where
  "skc_portpair en c =
     (let d = ucast (skc_dport (skc_ports c)); n = ucast (skc_num (skc_ports c))
      in case en of Little \<Rightarrow> push_bit 16 n OR d | Big \<Rightarrow> push_bit 16 d OR n)"

definition skc_addrpair :: "endian \<Rightarrow> sock_common \<Rightarrow> u64" where
  "skc_addrpair en c =
     (let d = ucast (skc_daddr (skc_addrs c)); r = ucast (skc_rcv_saddr (skc_addrs c))
      in case en of Little \<Rightarrow> push_bit 32 r OR d | Big \<Rightarrow> push_bit 32 d OR r)"

record sock =
  sk_common :: sock_common
  sk_bitfield_1 :: BitfieldUnit
  sk_type :: u16
  sk_bitfield_2 :: BitfieldUnit

record socket =
  so_sk :: ptr

section \<open>Accessors of the bit fields\<close>

definition get_u8 :: "endian \<Rightarrow> bool \<Rightarrow> nat \<Rightarrow> u8 \<Rightarrow> BitfieldUnit \<Rightarrow> u8 exec" where
  "get_u8 en dbg offset width unit = rmap ucast (get_field en dbg unit offset width)"

definition set_u8 :: "endian \<Rightarrow> bool \<Rightarrow> nat \<Rightarrow> u8 \<Rightarrow> u8 \<Rightarrow> BitfieldUnit \<Rightarrow> BitfieldUnit exec" where
  "set_u8 en dbg offset width val unit = set_field en dbg offset width (ucast val) unit"

definition on_skc1 :: "(BitfieldUnit \<Rightarrow> BitfieldUnit exec) \<Rightarrow> sock_common \<Rightarrow> sock_common exec" where
  "on_skc1 f c = rmap (\<lambda>b. c\<lparr>skc_bitfield_1 := b\<rparr>) (f (skc_bitfield_1 c))"

definition on_sk1 :: "(BitfieldUnit \<Rightarrow> BitfieldUnit exec) \<Rightarrow> sock \<Rightarrow> sock exec" where
  "on_sk1 f c = rmap (\<lambda>b. c\<lparr>sk_bitfield_1 := b\<rparr>) (f (sk_bitfield_1 c))"

definition on_sk2 :: "(BitfieldUnit \<Rightarrow> BitfieldUnit exec) \<Rightarrow> sock \<Rightarrow> sock exec" where
  "on_sk2 f c = rmap (\<lambda>b. c\<lparr>sk_bitfield_2 := b\<rparr>) (f (sk_bitfield_2 c))"

definition skc_reuse :: "endian \<Rightarrow> bool \<Rightarrow> sock_common \<Rightarrow> u8 exec" where
  "skc_reuse en dbg self = get_u8 en dbg 0 4 (skc_bitfield_1 self)"

definition set_skc_reuse :: "endian \<Rightarrow> bool \<Rightarrow> u8 \<Rightarrow> sock_common \<Rightarrow> sock_common exec" where
  "set_skc_reuse en dbg val self = on_skc1 (set_u8 en dbg 0 4 val) self"

definition skc_reuseport :: "endian \<Rightarrow> bool \<Rightarrow> sock_common \<Rightarrow> u8 exec" where
  "skc_reuseport en dbg self = get_u8 en dbg 4 1 (skc_bitfield_1 self)"

definition set_skc_reuseport :: "endian \<Rightarrow> bool \<Rightarrow> u8 \<Rightarrow> sock_common \<Rightarrow> sock_common exec" where
  "set_skc_reuseport en dbg val self = on_skc1 (set_u8 en dbg 4 1 val) self"

definition skc_ipv6only :: "endian \<Rightarrow> bool \<Rightarrow> sock_common \<Rightarrow> u8 exec" where
  "skc_ipv6only en dbg self = get_u8 en dbg 5 1 (skc_bitfield_1 self)"

definition set_skc_ipv6only :: "endian \<Rightarrow> bool \<Rightarrow> u8 \<Rightarrow> sock_common \<Rightarrow> sock_common exec" where
  "set_skc_ipv6only en dbg val self = on_skc1 (set_u8 en dbg 5 1 val) self"

definition skc_net_refcnt :: "endian \<Rightarrow> bool \<Rightarrow> sock_common \<Rightarrow> u8 exec" where
  "skc_net_refcnt en dbg self = get_u8 en dbg 6 1 (skc_bitfield_1 self)"

definition set_skc_net_refcnt :: "endian \<Rightarrow> bool \<Rightarrow> u8 \<Rightarrow> sock_common \<Rightarrow> sock_common exec" where
  "set_skc_net_refcnt en dbg val self = on_skc1 (set_u8 en dbg 6 1 val) self"

definition skc_new_bitfield_1 :: "endian \<Rightarrow> bool \<Rightarrow> u8 \<Rightarrow> u8 \<Rightarrow> u8 \<Rightarrow> u8 \<Rightarrow> BitfieldUnit exec" where
  "skc_new_bitfield_1 en dbg reuse reuseport ipv6only net_refcnt =
     rbind (set_u8 en dbg 0 4 reuse (BitfieldUnit_new [0])) (\<lambda>u.
     rbind (set_u8 en dbg 4 1 reuseport u) (\<lambda>u.
     rbind (set_u8 en dbg 5 1 ipv6only u) (\<lambda>u.
     set_u8 en dbg 6 1 net_refcnt u)))"

definition sk_gso_disabled :: "endian \<Rightarrow> bool \<Rightarrow> sock \<Rightarrow> u8 exec" where
  "sk_gso_disabled en dbg self = get_u8 en dbg 0 1 (sk_bitfield_1 self)"

definition set_sk_gso_disabled :: "endian \<Rightarrow> bool \<Rightarrow> u8 \<Rightarrow> sock \<Rightarrow> sock exec" where
  "set_sk_gso_disabled en dbg val self = on_sk1 (set_u8 en dbg 0 1 val) self"

definition sk_kern_sock :: "endian \<Rightarrow> bool \<Rightarrow> sock \<Rightarrow> u8 exec" where
  "sk_kern_sock en dbg self = get_u8 en dbg 1 1 (sk_bitfield_1 self)"

definition set_sk_kern_sock :: "endian \<Rightarrow> bool \<Rightarrow> u8 \<Rightarrow> sock \<Rightarrow> sock exec" where
  "set_sk_kern_sock en dbg val self = on_sk1 (set_u8 en dbg 1 1 val) self"

definition sk_no_check_tx :: "endian \<Rightarrow> bool \<Rightarrow> sock \<Rightarrow> u8 exec" where
  "sk_no_check_tx en dbg self = get_u8 en dbg 2 1 (sk_bitfield_1 self)"

definition set_sk_no_check_tx :: "endian \<Rightarrow> bool \<Rightarrow> u8 \<Rightarrow> sock \<Rightarrow> sock exec" where
  "set_sk_no_check_tx en dbg val self = on_sk1 (set_u8 en dbg 2 1 val) self"

definition sk_no_check_rx :: "endian \<Rightarrow> bool \<Rightarrow> sock \<Rightarrow> u8 exec" where
  "sk_no_check_rx en dbg self = get_u8 en dbg 3 1 (sk_bitfield_1 self)"

definition set_sk_no_check_rx :: "endian \<Rightarrow> bool \<Rightarrow> u8 \<Rightarrow> sock \<Rightarrow> sock exec" where
  "set_sk_no_check_rx en dbg val self = on_sk1 (set_u8 en dbg 3 1 val) self"

definition sk_userlocks :: "endian \<Rightarrow> bool \<Rightarrow> sock \<Rightarrow> u8 exec" where
  "sk_userlocks en dbg self = get_u8 en dbg 4 4 (sk_bitfield_1 self)"

definition set_sk_userlocks :: "endian \<Rightarrow> bool \<Rightarrow> u8 \<Rightarrow> sock \<Rightarrow> sock exec" where
  "set_sk_userlocks en dbg val self = on_sk1 (set_u8 en dbg 4 4 val) self"

definition sk_new_bitfield_1 :: "endian \<Rightarrow> bool \<Rightarrow> u8 \<Rightarrow> u8 \<Rightarrow> u8 \<Rightarrow> u8 \<Rightarrow> u8 \<Rightarrow> BitfieldUnit exec" where
  "sk_new_bitfield_1 en dbg gso_disabled kern_sock no_check_tx no_check_rx userlocks =
     rbind (set_u8 en dbg 0 1 gso_disabled (BitfieldUnit_new [0])) (\<lambda>u.
     rbind (set_u8 en dbg 1 1 kern_sock u) (\<lambda>u.
     rbind (set_u8 en dbg 2 1 no_check_tx u) (\<lambda>u.
     rbind (set_u8 en dbg 3 1 no_check_rx u) (\<lambda>u.
     set_u8 en dbg 4 4 userlocks u))))"

definition sk_txtime_deadline_mode :: "endian \<Rightarrow> bool \<Rightarrow> sock \<Rightarrow> u8 exec" where
  "sk_txtime_deadline_mode en dbg self = get_u8 en dbg 0 1 (sk_bitfield_2 self)"

definition set_sk_txtime_deadline_mode :: "endian \<Rightarrow> bool \<Rightarrow> u8 \<Rightarrow> sock \<Rightarrow> sock exec" where
  "set_sk_txtime_deadline_mode en dbg val self = on_sk2 (set_u8 en dbg 0 1 val) self"

definition sk_txtime_report_errors :: "endian \<Rightarrow> bool \<Rightarrow> sock \<Rightarrow> u8 exec" where
  "sk_txtime_report_errors en dbg self = get_u8 en dbg 1 1 (sk_bitfield_2 self)"

definition set_sk_txtime_report_errors :: "endian \<Rightarrow> bool \<Rightarrow> u8 \<Rightarrow> sock \<Rightarrow> sock exec" where
  "set_sk_txtime_report_errors en dbg val self = on_sk2 (set_u8 en dbg 1 1 val) self"

definition sk_txtime_unused :: "endian \<Rightarrow> bool \<Rightarrow> sock \<Rightarrow> u8 exec" where
  "sk_txtime_unused en dbg self = get_u8 en dbg 2 6 (sk_bitfield_2 self)"

definition set_sk_txtime_unused :: "endian \<Rightarrow> bool \<Rightarrow> u8 \<Rightarrow> sock \<Rightarrow> sock exec" where
  "set_sk_txtime_unused en dbg val self = on_sk2 (set_u8 en dbg 2 6 val) self"

definition sk_new_bitfield_2 :: "endian \<Rightarrow> bool \<Rightarrow> u8 \<Rightarrow> u8 \<Rightarrow> u8 \<Rightarrow> BitfieldUnit exec" where
  "sk_new_bitfield_2 en dbg deadline_mode report_errors unused =
     rbind (set_u8 en dbg 0 1 deadline_mode (BitfieldUnit_new [0])) (\<lambda>u.
     rbind (set_u8 en dbg 1 1 report_errors u) (\<lambda>u.
     set_u8 en dbg 2 6 unused u))"

definition so_new_bitfield_1 :: BitfieldUnit where
  "so_new_bitfield_1 = BitfieldUnit_new (replicate 24 0)"

section \<open>Bits of a unit\<close>

definition bit_at :: "endian \<Rightarrow> BitfieldUnit \<Rightarrow> nat \<Rightarrow> bool" where
  "bit_at en u j = bit (storage u ! (j div 8)) (bit_index en j)"

abbreviation in_unit :: "BitfieldUnit \<Rightarrow> nat \<Rightarrow> bool" where
  "in_unit u j \<equiv> j div 8 < length (storage u)"

lemma bit_index_less: "bit_index en j < 8"
  by (cases en) (simp_all add: bit_index_def le_less_trans [of _ 7])

lemma bit_index_inject: "j div 8 = k div 8 \<Longrightarrow> bit_index en j = bit_index en k \<longleftrightarrow> j = k"
proof -
  assume d: "j div 8 = k div 8"
  have "bit_index en j = bit_index en k \<longleftrightarrow> j mod 8 = k mod 8"
    using mod_less_divisor [of 8 j] mod_less_divisor [of 8 k]
    by (cases en) (auto simp: bit_index_def)
  with d show ?thesis by (metis div_mult_mod_eq)
qed

lemma and_mask_eq: "n < LENGTH('a) \<Longrightarrow> (w AND push_bit n 1 = push_bit n 1) \<longleftrightarrow> bit w n" for w :: "'a::len word"
  by (auto simp: bit_simps intro!: bit_word_eqI dest: arg_cong [of _ _ "\<lambda>x. bit x n"])

lemma get_bit_in: "in_unit u j \<Longrightarrow> get_bit en u j = Inr (bit_at en u j)"
  using and_mask_eq [of "bit_index en j" "storage u ! (j div 8)"] bit_index_less [of en j]
  by (simp add: get_bit_def bit_at_def)

lemma set_bit_in:
  assumes "in_unit u j"
  obtains u' where "set_bit_unit en j v u = Inr u'" "length (storage u') = length (storage u)"
    "\<And>k. bit_at en u' k = (if k = j then v else bit_at en u k)"
proof -
  let ?b = "storage u ! (j div 8)" and ?m = "push_bit (bit_index en j) 1 :: u8"
  let ?b' = "if v then ?b OR ?m else ?b AND NOT ?m"
  let ?u = "u\<lparr>storage := (storage u)[j div 8 := ?b']\<rparr>"
  have b': "bit ?b' n = (if n = bit_index en j then v else bit ?b n)" if "n < 8" for n
    using that by (auto simp: bit_simps)
  have "bit_at en ?u k = (if k = j then v else bit_at en u k)" for k
  proof (cases "k div 8 = j div 8")
    case True
    then show ?thesis
      using assms b' [OF bit_index_less, of en k] bit_index_inject [OF True, of en] by (simp add: bit_at_def)
  next
    case False
    then show ?thesis by (auto simp: bit_at_def)
  qed
  then show ?thesis
    using assms that [of ?u] by (simp add: set_bit_unit_def Let_def)
qed

lemma field_index_less: "i < w \<Longrightarrow> field_index en w i < w"
  by (cases en) (simp_all add: field_index_def)

lemma field_index_invol [simp]: "i < w \<Longrightarrow> field_index en w (field_index en w i) = i"
  by (cases en) (simp_all add: field_index_def)

lemma field_index_inject: "i < w \<Longrightarrow> j < w \<Longrightarrow> field_index en w i = field_index en w j \<longleftrightarrow> i = j"
  by (cases en) (auto simp: field_index_def)

lemma shl1_small: "i < 64 \<Longrightarrow> shl1_u64 dbg i = Inr (push_bit i 1)"
  by (simp add: shl1_u64_def)

text \<open>A field of at most 64 bits that lies in its unit.\<close>

definition field_fits :: "BitfieldUnit \<Rightarrow> nat \<Rightarrow> u8 \<Rightarrow> bool" where
  "field_fits u off w \<longleftrightarrow> 0 < unat w \<and> unat w \<le> 64 \<and> off + unat w \<le> 8 * length (storage u)"

lemma field_fits_assert: "field_fits u off w \<Longrightarrow> field_assert dbg u off (unat w)"
proof -
  assume f: "field_fits u off w"
  then have "off < 8 * length (storage u)" "off + unat w \<le> 8 * length (storage u)"
    by (simp_all add: field_fits_def)
  then have "off div 8 < length (storage u)" "(off + unat w) div 8 \<le> length (storage u)" by auto
  with f show ?thesis by (simp add: field_assert_def field_fits_def)
qed

lemma get_field_loop:
  assumes "m \<le> w" "w \<le> 64" "off + w \<le> 8 * length (storage u)"
  shows "\<exists>v. rfold (\<lambda>i val. rbind (get_bit en u (i + off)) (\<lambda>b.
       if b then rmap (\<lambda>m. val OR m) (shl1_u64 dbg (field_index en w i)) else Inr val)) [0..<m] 0 = Inr v
     \<and> (\<forall>n. bit v n \<longleftrightarrow> (\<exists>i < m. n = field_index en w i \<and> bit_at en u (i + off)))"
  using assms(1)
proof (induction m)
  case (Suc m)
  then obtain v where v: "rfold (\<lambda>i val. rbind (get_bit en u (i + off)) (\<lambda>b.
       if b then rmap (\<lambda>m. val OR m) (shl1_u64 dbg (field_index en w i)) else Inr val)) [0..<m] 0 = Inr v"
    "\<And>n. bit v n \<longleftrightarrow> (\<exists>i < m. n = field_index en w i \<and> bit_at en u (i + off))" by auto
  have f: "field_index en w m < 64" using field_index_less [of m w en] Suc.prems assms(2) by simp
  have "in_unit u (m + off)" using Suc.prems assms(3) by (simp add: div_less_iff_less_mult)
  then show ?case
    using v f by (auto simp: rfold_append get_bit_in shl1_small bit_simps less_Suc_eq)
qed simp

lemma set_field_loop:
  assumes "m \<le> w" "w \<le> 64" "off + w \<le> 8 * length (storage u)"
  shows "\<exists>u'. rfold (\<lambda>i unit. rbind (shl1_u64 dbg i) (\<lambda>mask.
       set_bit_unit en (field_index en w i + off) (val AND mask = mask) unit)) [0..<m] u = Inr u'
     \<and> length (storage u') = length (storage u)
     \<and> (\<forall>i < m. bit_at en u' (field_index en w i + off) = bit val i)
     \<and> (\<forall>k. (\<forall>i < m. k \<noteq> field_index en w i + off) \<longrightarrow> bit_at en u' k = bit_at en u k)"
  using assms(1)
proof (induction m)
  case (Suc m)
  let ?f = "\<lambda>i unit. rbind (shl1_u64 dbg i) (\<lambda>mask.
       set_bit_unit en (field_index en w i + off) (val AND mask = mask) unit)"
  obtain u' where u': "rfold ?f [0..<m] u = Inr u'" "length (storage u') = length (storage u)"
    "\<And>i. i < m \<Longrightarrow> bit_at en u' (field_index en w i + off) = bit val i"
    "\<And>k. (\<forall>i < m. k \<noteq> field_index en w i + off) \<Longrightarrow> bit_at en u' k = bit_at en u k"
    using Suc by auto
  have m: "m < w" "m < 64" using Suc.prems assms(2) by simp_all
  then have "in_unit u' (field_index en w m + off)"
    using field_index_less [OF m(1), of en] assms(3) u'(2) by (simp add: div_less_iff_less_mult)
  then obtain u'' where u'': "set_bit_unit en (field_index en w m + off) (bit val m) u' = Inr u''"
    "length (storage u'') = length (storage u')"
    "\<And>k. bit_at en u'' k = (if k = field_index en w m + off then bit val m else bit_at en u' k)"
    by (rule set_bit_in [where v = "bit val m" and en = en]) auto
  have "rfold ?f [0..<Suc m] u = Inr u''"
    using u'(1) u''(1) m and_mask_eq [of m val] by (simp add: rfold_append shl1_small)
  moreover have "bit_at en u'' (field_index en w i + off) = bit val i" if "i < Suc m" for i
    using that u'(3) [of i] u''(3) m(1) field_index_inject [of i w m en] by (auto simp: less_Suc_eq)
  moreover have "bit_at en u'' k = bit_at en u k" if "\<forall>i < Suc m. k \<noteq> field_index en w i + off" for k
    using that u'(4) [of k] u''(3) [of k] by simp
  ultimately show ?case using u'(2) u''(2) by auto
qed simp

lemma get_field_fits:
  assumes "field_fits u off w"
  obtains v where "get_field en dbg u off w = Inr v"
    "\<And>n. bit v n \<longleftrightarrow> n < unat w \<and> bit_at en u (field_index en (unat w) n + off)"
proof -
  have f: "unat w \<le> 64" "off + unat w \<le> 8 * length (storage u)" using assms by (simp_all add: field_fits_def)
  obtain v where v: "rfold (\<lambda>i val. rbind (get_bit en u (i + off)) (\<lambda>b.
       if b then rmap (\<lambda>m. val OR m) (shl1_u64 dbg (field_index en (unat w) i)) else Inr val)) [0..<unat w] 0 = Inr v"
    "\<And>n. bit v n \<longleftrightarrow> (\<exists>i < unat w. n = field_index en (unat w) i \<and> bit_at en u (i + off))"
    using get_field_loop [OF order.refl f] by blast
  have "bit v n \<longleftrightarrow> n < unat w \<and> bit_at en u (field_index en (unat w) n + off)" for n
    unfolding v(2) using field_index_less field_index_invol by metis
  then show ?thesis
    using that v(1) assms by (simp add: get_field_def field_fits_assert)
qed

lemma set_field_fits:
  assumes "field_fits u off w"
  obtains u' where "set_field en dbg off w val u = Inr u'" "length (storage u') = length (storage u)"
    "\<And>i. i < unat w \<Longrightarrow> bit_at en u' (field_index en (unat w) i + off) = bit val i"
    "\<And>k. k < off \<or> off + unat w \<le> k \<Longrightarrow> bit_at en u' k = bit_at en u k"
proof -
  have f: "unat w \<le> 64" "off + unat w \<le> 8 * length (storage u)" using assms by (simp_all add: field_fits_def)
  obtain u' where u': "rfold (\<lambda>i unit. rbind (shl1_u64 dbg i) (\<lambda>mask.
       set_bit_unit en (field_index en (unat w) i + off) (val AND mask = mask) unit)) [0..<unat w] u = Inr u'"
    "length (storage u') = length (storage u)"
    "\<And>i. i < unat w \<Longrightarrow> bit_at en u' (field_index en (unat w) i + off) = bit val i"
    "\<And>k. (\<forall>i < unat w. k \<noteq> field_index en (unat w) i + off) \<Longrightarrow> bit_at en u' k = bit_at en u k"
    using set_field_loop [OF order.refl f, where en = en and dbg = dbg and val = val] by blast
  have "bit_at en u' k = bit_at en u k" if "k < off \<or> off + unat w \<le> k" for k
    using that field_index_less [of _ "unat w" en] by (intro u'(4)) force
  then show ?thesis
    using that u'(1-3) assms by (simp add: set_field_def field_fits_assert)
qed

text \<open>Reading back what was written gives its low bits; other fields are untouched.\<close>

lemma get_set_field:
  assumes "field_fits u off w"
  shows "rbind (set_field en dbg off w val u) (\<lambda>u'. get_field en dbg u' off w) = Inr (take_bit (unat w) val)"
proof -
  obtain u' where u': "set_field en dbg off w val u = Inr u'" "length (storage u') = length (storage u)"
    "\<And>i. i < unat w \<Longrightarrow> bit_at en u' (field_index en (unat w) i + off) = bit val i"
    using assms by (rule set_field_fits [where en = en and dbg = dbg and val = val]) blast
  have "field_fits u' off w" using assms u'(2) by (simp add: field_fits_def)
  then obtain v where v: "get_field en dbg u' off w = Inr v"
    "\<And>n. bit v n \<longleftrightarrow> n < unat w \<and> bit_at en u' (field_index en (unat w) n + off)"
    by (rule get_field_fits [where en = en and dbg = dbg]) blast
  have "v = take_bit (unat w) val"
    using u'(3) v(2) by (intro bit_eqI) (auto simp: bit_simps)
  with u'(1) v(1) show ?thesis by simp
qed

lemma get_set_other_field:
  assumes "field_fits u off w" "field_fits u off' w'" "off + unat w \<le> off' \<or> off' + unat w' \<le> off"
  shows "rbind (set_field en dbg off w val u) (\<lambda>u'. get_field en dbg u' off' w') = get_field en dbg u off' w'"
proof -
  obtain u' where u': "set_field en dbg off w val u = Inr u'" "length (storage u') = length (storage u)"
    "\<And>k. k < off \<or> off + unat w \<le> k \<Longrightarrow> bit_at en u' k = bit_at en u k"
    using assms(1) by (rule set_field_fits [where en = en and dbg = dbg and val = val]) blast
  have "field_fits u' off' w'" using assms(2) u'(2) by (simp add: field_fits_def)
  then obtain v where v: "get_field en dbg u' off' w' = Inr v"
    "\<And>n. bit v n \<longleftrightarrow> n < unat w' \<and> bit_at en u' (field_index en (unat w') n + off')"
    by (rule get_field_fits [where en = en and dbg = dbg]) blast
  obtain v' where v': "get_field en dbg u off' w' = Inr v'"
    "\<And>n. bit v' n \<longleftrightarrow> n < unat w' \<and> bit_at en u (field_index en (unat w') n + off')"
    using assms(2) by (rule get_field_fits [where en = en and dbg = dbg]) blast
  have "bit_at en u' (field_index en (unat w') n + off') = bit_at en u (field_index en (unat w') n + off')"
    if "n < unat w'" for n
    using assms(3) field_index_less [OF that, of en] by (intro u'(3)) auto
  then have "v = v'" using v(2) v'(2) by (intro bit_eqI) auto
  with u'(1) v(1) v'(1) show ?thesis by simp
qed

section \<open>The accessors as fields\<close>

text \<open>
  What the accessors of one bit field promise: a write succeeds and keeps the structure
  well-formed, and a read returns the low bits of the last value written.
\<close>

locale bit_accessor =
  fixes wf :: "'s \<Rightarrow> bool" and width :: nat
    and getter :: "'s \<Rightarrow> u8 exec" and setter :: "u8 \<Rightarrow> 's \<Rightarrow> 's exec"
  assumes setter_total: "wf s \<Longrightarrow> \<exists>s'. setter v s = Inr s' \<and> wf s'"
    and getter_setter: "wf s \<Longrightarrow> rbind (setter v s) getter = Inr (take_bit width v)"
begin

lemma getter_last_setter:
  assumes "wf s"
  shows "rbind (rfold setter vs s) (setter v) = Inr s' \<Longrightarrow> getter s' = Inr (take_bit width v)"
  using assms
proof (induction vs arbitrary: s)
  case Nil
  then show ?case using getter_setter [of s v] by simp
next
  case (Cons w vs)
  then obtain s1 where "setter w s = Inr s1" "wf s1" using setter_total [of s w] by blast
  with Cons show ?case by simp
qed

lemma setter_run_total: "wf s \<Longrightarrow> \<exists>s'. rfold setter vs s = Inr s' \<and> wf s'"
proof (induction vs arbitrary: s)
  case (Cons w vs)
  then obtain s1 where "setter w s = Inr s1" "wf s1" using setter_total [of s w] by blast
  with Cons show ?case by simp
qed simp

end

definition unit1 :: "BitfieldUnit \<Rightarrow> bool" where
  "unit1 u \<longleftrightarrow> length (storage u) = 1"

lemma ucast_take_bit: "(ucast (take_bit n (ucast v :: u64)) :: u8) = take_bit n v" for v :: u8
  by (rule bit_word_eqI) (auto simp: bit_simps)

lemma get_set_u8:
  assumes "field_fits u off w"
  shows "rbind (set_u8 en dbg off w v u) (get_u8 en dbg off w) = Inr (take_bit (unat w) v)"
    "\<exists>u'. set_u8 en dbg off w v u = Inr u' \<and> length (storage u') = length (storage u)"
proof -
  obtain u' where u': "set_field en dbg off w (ucast v) u = Inr u'" "length (storage u') = length (storage u)"
    using assms by (rule set_field_fits [where en = en and dbg = dbg and val = "ucast v"]) blast
  then show "\<exists>u'. set_u8 en dbg off w v u = Inr u' \<and> length (storage u') = length (storage u)"
    by (simp add: set_u8_def)
  show "rbind (set_u8 en dbg off w v u) (get_u8 en dbg off w) = Inr (take_bit (unat w) v)"
    using get_set_field [OF assms, of en dbg "ucast v"] u'(1)
    by (simp add: set_u8_def get_u8_def ucast_take_bit)
qed

lemma skc1_accessor:
  assumes "0 < unat w" "off + unat w \<le> 8"
  shows "bit_accessor (\<lambda>c. unit1 (skc_bitfield_1 c)) (unat w)
    (\<lambda>c. get_u8 en dbg off w (skc_bitfield_1 c)) (\<lambda>v. on_skc1 (set_u8 en dbg off w v))"
proof
  fix c :: sock_common and v assume c: "unit1 (skc_bitfield_1 c)"
  then have f: "field_fits (skc_bitfield_1 c) off w" using assms by (simp add: field_fits_def unit1_def)
  show "\<exists>s'. on_skc1 (set_u8 en dbg off w v) c = Inr s' \<and> unit1 (skc_bitfield_1 s')"
    using get_set_u8(2) [OF f, of en dbg v] c by (auto simp: on_skc1_def unit1_def)
  show "rbind (on_skc1 (set_u8 en dbg off w v) c) (\<lambda>c. get_u8 en dbg off w (skc_bitfield_1 c)) =
      Inr (take_bit (unat w) v)"
    using get_set_u8 [OF f, of en dbg v] by (auto simp: on_skc1_def)
qed

interpretation reuse: bit_accessor "\<lambda>c. unit1 (skc_bitfield_1 c)" 4 "skc_reuse en dbg" "set_skc_reuse en dbg"
  using skc1_accessor [where off = 0 and w = 4 and en = en and dbg = dbg]
  by (simp add: skc_reuse_def [abs_def] set_skc_reuse_def [abs_def])

interpretation reuseport: bit_accessor "\<lambda>c. unit1 (skc_bitfield_1 c)" 1 "skc_reuseport en dbg" "set_skc_reuseport en dbg"
  using skc1_accessor [where off = 4 and w = 1 and en = en and dbg = dbg]
  by (simp add: skc_reuseport_def [abs_def] set_skc_reuseport_def [abs_def])

interpretation ipv6only: bit_accessor "\<lambda>c. unit1 (skc_bitfield_1 c)" 1 "skc_ipv6only en dbg" "set_skc_ipv6only en dbg"
  using skc1_accessor [where off = 5 and w = 1 and en = en and dbg = dbg]
  by (simp add: skc_ipv6only_def [abs_def] set_skc_ipv6only_def [abs_def])

interpretation net_refcnt: bit_accessor "\<lambda>c. unit1 (skc_bitfield_1 c)" 1 "skc_net_refcnt en dbg" "set_skc_net_refcnt en dbg"
  using skc1_accessor [where off = 6 and w = 1 and en = en and dbg = dbg]
  by (simp add: skc_net_refcnt_def [abs_def] set_skc_net_refcnt_def [abs_def])

text \<open>The ports of a socket, read through the pair: on a little-endian target the upper
  half is \<open>skc_num\<close>, on a big-endian one it is \<open>skc_dport\<close>.\<close>

lemma portpair_halves:
  "ucast (drop_bit 16 (skc_portpair en c)) = (case en of Little \<Rightarrow> skc_num (skc_ports c) | Big \<Rightarrow> skc_dport (skc_ports c))"
  "ucast (skc_portpair en c) = (case en of Little \<Rightarrow> skc_dport (skc_ports c) | Big \<Rightarrow> skc_num (skc_ports c))"
  by (cases en; rule bit_word_eqI; auto simp: skc_portpair_def Let_def bit_simps dest: bit_imp_le_length)+

section \<open>Properties\<close>

lemma set_field_ok:
  assumes "field_fits u off w"
  shows "\<exists>u'. set_field en dbg off w val u = Inr u' \<and> length (storage u') = length (storage u)"
  using assms by (rule set_field_fits [where en = en and dbg = dbg and val = val]) blast

text \<open>C29. A bit field reads back what was stored in it, cut to its width, whatever its offset,
  the endianness of the target and the debug assertions of the build; storing does not panic
  and leaves every field that does not overlap as it was.\<close>

theorem bitfield_roundtrip:
  assumes "field_fits u off w"
  shows "\<exists>u'. set_field en dbg off w val u = Inr u' \<and> get_field en dbg u' off w = Inr (take_bit (unat w) val)
    \<and> (\<forall>off' w'. field_fits u off' w' \<and> (off + unat w \<le> off' \<or> off' + unat w' \<le> off)
         \<longrightarrow> get_field en dbg u' off' w' = get_field en dbg u off' w')"
proof -
  obtain u' where u': "set_field en dbg off w val u = Inr u'"
    using set_field_ok [OF assms, where en = en and dbg = dbg and val = val] by blast
  moreover have "get_field en dbg u' off w = Inr (take_bit (unat w) val)"
    using get_set_field [OF assms, where en = en and dbg = dbg and val = val] u' by simp
  moreover have "get_field en dbg u' off' w' = get_field en dbg u off' w'"
    if "field_fits u off' w'" "off + unat w \<le> off' \<or> off' + unat w' \<le> off" for off' w'
    using get_set_other_field [OF assms that, where en = en and dbg = dbg and val = val] u' by simp
  ultimately show ?thesis by blast
qed

theorem bitfield_roundtrip_witness:
  "\<exists>u'. set_field Big True 2 6 0x2A (BitfieldUnit_new [0xC0]) = Inr u' \<and> get_field Big True u' 2 6 = Inr 0x2A
     \<and> get_field Big True u' 0 2 = get_field Big True (BitfieldUnit_new [0xC0]) 0 2"
proof -
  have f: "field_fits (BitfieldUnit_new [0xC0]) 2 6" "field_fits (BitfieldUnit_new [0xC0]) 0 2"
    by (simp_all add: field_fits_def BitfieldUnit_new_def)
  obtain u' where "set_field Big True 2 6 0x2A (BitfieldUnit_new [0xC0]) = Inr u'"
    "get_field Big True u' 2 6 = Inr (take_bit (unat (6 :: u8)) 0x2A)"
    "\<forall>off' w'. field_fits (BitfieldUnit_new [0xC0]) off' w' \<and> (2 + unat (6 :: u8) \<le> off' \<or> off' + unat w' \<le> 2)
         \<longrightarrow> get_field Big True u' off' w' = get_field Big True (BitfieldUnit_new [0xC0]) off' w'"
    using bitfield_roundtrip [OF f(1), where en = Big and dbg = True and val = "0x2A"] by blast
  then show ?thesis using f(2) by auto
qed

end
