(* ===== verification/Probe_Ebpf.thy ===== *)
theory Probe_Ebpf
  imports Kernel_Bindings
begin

text \<open>
  \<^verbatim>\<open>ptraf-ebpf/src/ptraf-ebpf.rs\<close>: the kernel side. An entry probe of
  \<^verbatim>\<open>sock_sendmsg\<close>/\<^verbatim>\<open>sock_recvmsg\<close> remembers the socket of the calling thread in \<^verbatim>\<open>CACHE\<close>,
  the return probe takes it back and sends an event with the outcome of the call to user
  space; a tracepoint reports the state changes of sockets.

  The BPF runtime is not part of the repository. Its hash map is the record \<open>BpfHashMap\<close>
  of the operations used, with their documented behaviour as the locale \<open>bpf_hash_map\<close>:
  a lookup returns a reference into the map's storage, which a removal does not clear.
  What a probe can read from the kernel is part of its context \<open>ProbeContext\<close>:
  the registers, the current thread and \<open>bpf_probe_read_kernel\<close> at the addresses read.
  The events handed to \<^verbatim>\<open>EVENTS.output\<close> are collected in order.
\<close>

section \<open>The BPF runtime\<close>

type_synonym i64 = "64 word"

record ('m, 'r) BpfHashMap =
  bm_get :: "'m \<Rightarrow> u64 \<Rightarrow> 'r option"
  bm_deref :: "'m \<Rightarrow> 'r \<Rightarrow> ptr"
  bm_insert :: "u64 \<Rightarrow> ptr \<Rightarrow> 'm \<Rightarrow> i64 + 'm"
  bm_remove :: "u64 \<Rightarrow> 'm \<Rightarrow> 'm"

record ProbeContext =
  cx_arg0 :: "ptr option"
  cx_ret :: "i32 option"
  cx_pid :: u32
  cx_pid_tgid :: u64
  cx_read_sk :: "ptr \<Rightarrow> i64 + ptr"
  cx_read_common :: "ptr \<Rightarrow> i64 + sock_common"
  cx_read_type :: "ptr \<Rightarrow> i64 + u16"

record 'm Probe =
  pr_cache :: 'm
  pr_events :: "SockMsgEvent list"

section \<open>The probes\<close>

definition AF_INET :: u16 where
  "AF_INET = 2"

definition AF_INET6 :: u16 where
  "AF_INET6 = 10"

definition events_output :: "SockMsgEvent \<Rightarrow> 'm Probe \<Rightarrow> 'm Probe" where
  "events_output e st = st\<lparr>pr_events := pr_events st @ [e]\<rparr>"

definition sk_addrs :: "sock_common \<Rightarrow> (IpAddr \<times> IpAddr) option" where
  "sk_addrs c =
     (if skc_family c = AF_INET then
        Some (IpAddr_v4 (skc_rcv_saddr (skc_addrs c)), IpAddr_v4 (skc_daddr (skc_addrs c)))
      else if skc_family c = AF_INET6 then
        Some (IpAddr_v6 (skc_v6_rcv_saddr c), IpAddr_v6 (skc_v6_daddr c))
      else None)"

definition notify ::
  "endian \<Rightarrow> ProbeContext \<Rightarrow> ptr \<Rightarrow> i32 \<Rightarrow> Channel \<Rightarrow> 'm Probe \<Rightarrow> (i64 + unit) \<times> 'm Probe" where
  "notify en ctx sk ret channel st =
     (case cx_read_common ctx sk of
        Inl e \<Rightarrow> (Inl e, st)
      | Inr common \<Rightarrow>
         (case cx_read_type ctx sk of
            Inl e \<Rightarrow> (Inl e, st)
          | Inr ty \<Rightarrow>
             (let ports = skc_portpair en common;
                  local_port = ucast (drop_bit 16 ports);
                  remote_port = ucast ports
              in case sk_addrs common of
                   None \<Rightarrow> (Inr (), st)
                 | Some (local_addr, remote_addr) \<Rightarrow>
                     (Inr (),
                      events_output
                        \<lparr>msg_sock_type = SockType_from_u16 ty,
                         msg_local_addr = local_addr, msg_remote_addr = remote_addr,
                         msg_local_port = local_port, msg_remote_port = remote_port,
                         msg_ret = ret, msg_pid = cx_pid ctx, msg_channel = channel\<rparr> st))))"

definition try_msg_ret ::
  "endian \<Rightarrow> ('m, 'r) BpfHashMap \<Rightarrow> ProbeContext \<Rightarrow> Channel \<Rightarrow> 'm Probe \<Rightarrow> (i64 + u32) \<times> 'm Probe" where
  "try_msg_ret en bm ctx channel st =
     (let pid_tgid = cx_pid_tgid ctx in
      case bm_get bm (pr_cache st) pid_tgid of
        None \<Rightarrow> (Inr 0, st)
      | Some r \<Rightarrow>
         (let st1 = st\<lparr>pr_cache := bm_remove bm pid_tgid (pr_cache st)\<rparr>;
              socket = bm_deref bm (pr_cache st1) r
          in case cx_ret ctx of
               None \<Rightarrow> (Inl 1, st1)
             | Some val \<Rightarrow>
                (case cx_read_sk ctx socket of
                   Inl e \<Rightarrow> (Inl e, st1)
                 | Inr sk \<Rightarrow>
                    (case notify en ctx sk val channel st1 of
                       (Inr _, st2) \<Rightarrow> (Inr 0, st2)
                     | (Inl _, st2) \<Rightarrow> (Inl 1, st2)))))"

definition try_msg ::
  "('m, 'r) BpfHashMap \<Rightarrow> ProbeContext \<Rightarrow> 'm Probe \<Rightarrow> (i64 + u32) \<times> 'm Probe" where
  "try_msg bm ctx st =
     (case cx_arg0 ctx of
        None \<Rightarrow> (Inl 1, st)
      | Some socket \<Rightarrow>
         (case cx_read_sk ctx socket of
            Inl e \<Rightarrow> (Inl e, st)
          | Inr sk \<Rightarrow>
             (case cx_read_common ctx sk of
                Inl e \<Rightarrow> (Inl e, st)
              | Inr common \<Rightarrow>
                  if skc_family common = AF_INET \<or> skc_family common = AF_INET6 then
                    (case bm_insert bm (cx_pid_tgid ctx) socket (pr_cache st) of
                       Inl e \<Rightarrow> (Inl e, st)
                     | Inr m \<Rightarrow> (Inr 0, st\<lparr>pr_cache := m\<rparr>))
                  else (Inr 0, st))))"

definition unwrap_or1 :: "(i64 + u32) \<times> 's \<Rightarrow> u32 \<times> 's" where
  "unwrap_or1 r = (case r of (Inl _, st) \<Rightarrow> (1, st) | (Inr v, st) \<Rightarrow> (v, st))"

definition msg_probe :: "('m, 'r) BpfHashMap \<Rightarrow> ProbeContext \<Rightarrow> 'm Probe \<Rightarrow> u32 \<times> 'm Probe" where
  "msg_probe bm ctx st = unwrap_or1 (try_msg bm ctx st)"

definition recv_msg_ret ::
  "endian \<Rightarrow> ('m, 'r) BpfHashMap \<Rightarrow> ProbeContext \<Rightarrow> 'm Probe \<Rightarrow> u32 \<times> 'm Probe" where
  "recv_msg_ret en bm ctx st = unwrap_or1 (try_msg_ret en bm ctx Rx st)"

definition send_msg_ret ::
  "endian \<Rightarrow> ('m, 'r) BpfHashMap \<Rightarrow> ProbeContext \<Rightarrow> 'm Probe \<Rightarrow> u32 \<times> 'm Probe" where
  "send_msg_ret en bm ctx st = unwrap_or1 (try_msg_ret en bm ctx Tx st)"

text \<open>The tracepoint's arguments; \<open>ctx.read_at\<close> may fail, and the result is unwrapped.\<close>

record InetSockSetState =
  ss_skaddr :: ptr
  ss_oldstate :: i32
  ss_newstate :: i32
  ss_sport :: u16
  ss_dport :: u16
  ss_family :: u16
  ss_protocol :: u16
  ss_saddr :: "u8 list"
  ss_daddr :: "u8 list"
  ss_saddr_v6 :: "u8 list"
  ss_daddr_v6 :: "u8 list"

definition inet_sock_set_state ::
  "endian \<Rightarrow> ProbeContext \<Rightarrow> InetSockSetState option \<Rightarrow> 'm Probe \<Rightarrow> (u32 \<times> 'm Probe) exec" where
  "inet_sock_set_state en ctx read_at st =
     (case read_at of
        None \<Rightarrow> Inl UnwrapNone
      | Some args \<Rightarrow>
          Inr (if ss_family args = AF_INET \<or> ss_family args = AF_INET6 then
                 (case notify en ctx (ss_skaddr args) 0 Tx st of
                    (Inr _, st') \<Rightarrow> (0, st')
                  | (Inl _, st') \<Rightarrow> (1, st'))
               else (0, st)))"

section \<open>Runs of probes\<close>

datatype probe_call =
    Enter ProbeContext
  | Leave Channel ProbeContext
  | SetState ProbeContext InetSockSetState

fun call_thread :: "probe_call \<Rightarrow> u64" where
  "call_thread (Enter c) = cx_pid_tgid c"
| "call_thread (Leave ch c) = cx_pid_tgid c"
| "call_thread (SetState c a) = cx_pid_tgid c"

fun probe_step :: "endian \<Rightarrow> ('m, 'r) BpfHashMap \<Rightarrow> probe_call \<Rightarrow> 'm Probe \<Rightarrow> 'm Probe" where
  "probe_step en bm (Enter c) st = snd (msg_probe bm c st)"
| "probe_step en bm (Leave Rx c) st = snd (recv_msg_ret en bm c st)"
| "probe_step en bm (Leave Tx c) st = snd (send_msg_ret en bm c st)"
| "probe_step en bm (SetState c a) st =
     (case inet_sock_set_state en c (Some a) st of Inl p \<Rightarrow> st | Inr (v, st') \<Rightarrow> st')"

abbreviation probe_run :: "endian \<Rightarrow> ('m, 'r) BpfHashMap \<Rightarrow> probe_call list \<Rightarrow> 'm Probe \<Rightarrow> 'm Probe" where
  "probe_run en bm cs st \<equiv> fold (probe_step en bm) cs st"

text \<open>The event of a readable socket.\<close>

definition sock_event ::
  "endian \<Rightarrow> ProbeContext \<Rightarrow> ptr \<Rightarrow> i32 \<Rightarrow> Channel \<Rightarrow> SockMsgEvent option" where
  "sock_event en ctx sk ret ch =
     (case (cx_read_common ctx sk, cx_read_type ctx sk) of
        (Inr c, Inr ty) \<Rightarrow>
          map_option (\<lambda>(l, r).
            \<lparr>msg_sock_type = SockType_from_u16 ty, msg_local_addr = l, msg_remote_addr = r,
             msg_local_port = ucast (drop_bit 16 (skc_portpair en c)),
             msg_remote_port = ucast (skc_portpair en c),
             msg_ret = ret, msg_pid = cx_pid ctx, msg_channel = ch\<rparr>) (sk_addrs c)
      | _ \<Rightarrow> None)"

lemma notify_event:
  "snd (notify en ctx sk ret ch st) =
     (case sock_event en ctx sk ret ch of None \<Rightarrow> st | Some e \<Rightarrow> events_output e st)"
  by (auto simp: notify_def sock_event_def Let_def split: sum.splits option.splits)

lemma pr_cache_notify [simp]: "pr_cache (snd (notify en ctx sk ret ch st)) = pr_cache st"
  by (simp add: notify_event events_output_def split: option.splits)

lemma snd_unwrap_or1 [simp]: "snd (unwrap_or1 r) = snd r"
  by (cases r) (simp add: unwrap_or1_def split: sum.splits)

lemma snd_try_msg_ret:
  "snd (try_msg_ret en bm ctx ch st) =
     (case bm_get bm (pr_cache st) (cx_pid_tgid ctx) of
        None \<Rightarrow> st
      | Some r \<Rightarrow>
         (let st1 = st\<lparr>pr_cache := bm_remove bm (cx_pid_tgid ctx) (pr_cache st)\<rparr> in
          case (cx_ret ctx, cx_read_sk ctx (bm_deref bm (pr_cache st1) r)) of
            (Some v, Inr sk) \<Rightarrow> snd (notify en ctx sk v ch st1)
          | _ \<Rightarrow> st1))"
  by (auto simp: try_msg_ret_def Let_def split: option.splits sum.splits prod.splits)

lemma probe_step_set_state:
  "probe_step en bm (SetState c a) st =
     (if ss_family a = AF_INET \<or> ss_family a = AF_INET6 then snd (notify en c (ss_skaddr a) 0 Tx st) else st)"
  by (auto simp: inet_sock_set_state_def split: prod.splits sum.splits)

section \<open>The documented behaviour of the hash map\<close>

definition bm_lookup :: "('m, 'r) BpfHashMap \<Rightarrow> 'm \<Rightarrow> u64 \<Rightarrow> ptr option" where
  "bm_lookup bm m k = map_option (bm_deref bm m) (bm_get bm m k)"

locale bpf_hash_map =
  fixes bm :: "('m, 'r) BpfHashMap" and wf :: "'m \<Rightarrow> bool"
  assumes insert_wf: "wf m \<Longrightarrow> bm_insert bm k v m = Inr m' \<Longrightarrow> wf m'"
    and remove_wf: "wf m \<Longrightarrow> wf (bm_remove bm k m)"
    and lookup_insert: "wf m \<Longrightarrow> bm_insert bm k v m = Inr m' \<Longrightarrow>
      bm_lookup bm m' k' = (if k' = k then Some v else bm_lookup bm m k')"
    and lookup_remove: "wf m \<Longrightarrow> bm_lookup bm (bm_remove bm k m) k' = (if k' = k then None else bm_lookup bm m k')"
    and deref_removed: "wf m \<Longrightarrow> bm_get bm m k = Some r \<Longrightarrow> bm_deref bm (bm_remove bm k m) r = bm_deref bm m r"
begin

lemma step_cases:
  assumes "wf (pr_cache st)"
  shows "pr_cache (probe_step en bm c st) = pr_cache st
    \<or> (\<exists>v. bm_insert bm (call_thread c) v (pr_cache st) = Inr (pr_cache (probe_step en bm c st)))
    \<or> pr_cache (probe_step en bm c st) = bm_remove bm (call_thread c) (pr_cache st)"
proof -
  have leave: "pr_cache (snd (try_msg_ret en bm x ch st)) = pr_cache st
      \<or> pr_cache (snd (try_msg_ret en bm x ch st)) = bm_remove bm (cx_pid_tgid x) (pr_cache st)" for x ch
    by (auto simp: snd_try_msg_ret Let_def split: option.splits sum.splits)
  show ?thesis
  proof (cases "(en, bm, c, st)" rule: probe_step.cases)
    case (1 e b x s)
    then show ?thesis by (auto simp: msg_probe_def try_msg_def split: option.splits sum.splits)
  next
    case (2 e b x s)
    then show ?thesis using leave [of x Rx] by (auto simp: recv_msg_ret_def)
  next
    case (3 e b x s)
    then show ?thesis using leave [of x Tx] by (auto simp: send_msg_ret_def)
  next
    case (4 e b x a s)
    then show ?thesis by (simp add: probe_step_set_state del: probe_step.simps)
  qed
qed

lemma step_wf: "wf (pr_cache st) \<Longrightarrow> wf (pr_cache (probe_step en bm c st))"
  using step_cases insert_wf remove_wf by metis

lemma step_other:
  "wf (pr_cache st) \<Longrightarrow> call_thread c \<noteq> k \<Longrightarrow>
   bm_lookup bm (pr_cache (probe_step en bm c st)) k = bm_lookup bm (pr_cache st) k"
  using step_cases [of st en c] lookup_insert [of "pr_cache st"] lookup_remove [of "pr_cache st"] by metis

lemma run_wf: "wf (pr_cache st) \<Longrightarrow> wf (pr_cache (probe_run en bm cs st))"
  by (induction cs arbitrary: st) (simp_all add: step_wf)

lemma run_others:
  "wf (pr_cache st) \<Longrightarrow> (\<And>c. c \<in> set cs \<Longrightarrow> call_thread c \<noteq> k) \<Longrightarrow>
   bm_lookup bm (pr_cache (probe_run en bm cs st)) k = bm_lookup bm (pr_cache st) k"
  by (induction cs arbitrary: st) (simp_all add: step_other step_wf)

text \<open>The return probe of a thread with a remembered socket forgets it and reports the call.\<close>

lemma leave_reports:
  assumes "wf (pr_cache st)" "bm_lookup bm (pr_cache st) (cx_pid_tgid x) = Some so"
    "cx_ret x = Some v" "cx_read_sk x so = Inr sk" "sock_event en x sk v ch = Some e"
  shows "pr_events (probe_step en bm (Leave ch x) st) = pr_events st @ [e]"
    "bm_lookup bm (pr_cache (probe_step en bm (Leave ch x) st)) (cx_pid_tgid x) = None"
proof -
  obtain r where r: "bm_get bm (pr_cache st) (cx_pid_tgid x) = Some r" "bm_deref bm (pr_cache st) r = so"
    using assms(2) by (auto simp: bm_lookup_def)
  let ?m = "bm_remove bm (cx_pid_tgid x) (pr_cache st)"
  have "bm_deref bm ?m r = so" using deref_removed [OF assms(1) r(1)] r(2) by simp
  then have step: "probe_step en bm (Leave ch x) st = events_output e (st\<lparr>pr_cache := ?m\<rparr>)"
    using r(1) assms(3-5)
    by (cases ch) (simp_all add: recv_msg_ret_def send_msg_ret_def snd_try_msg_ret Let_def notify_event)
  then show "pr_events (probe_step en bm (Leave ch x) st) = pr_events st @ [e]"
    by (simp add: events_output_def)
  show "bm_lookup bm (pr_cache (probe_step en bm (Leave ch x) st)) (cx_pid_tgid x) = None"
    using step lookup_remove [OF assms(1)] by (simp add: events_output_def)
qed

text \<open>An entry probe on an internet socket, whatever other threads do, then the return
  probe of the same thread.\<close>

lemma call_reported:
  assumes wf: "wf (pr_cache st)"
    and enter: "cx_arg0 x = Some so" "cx_read_sk x so = Inr sk0" "cx_read_common x sk0 = Inr c0"
      "skc_family c0 = AF_INET \<or> skc_family c0 = AF_INET6"
      "bm_insert bm (cx_pid_tgid x) so (pr_cache st) = Inr m"
    and others: "\<And>c. c \<in> set cs \<Longrightarrow> call_thread c \<noteq> cx_pid_tgid x"
    and leave: "cx_pid_tgid y = cx_pid_tgid x" "cx_ret y = Some v" "cx_read_sk y so = Inr sk"
      "sock_event en y sk v ch = Some e"
  shows "pr_events (probe_run en bm (Enter x # cs @ [Leave ch y]) st)
      = pr_events (probe_run en bm (Enter x # cs) st) @ [e]"
    "bm_lookup bm (pr_cache (probe_run en bm (Enter x # cs @ [Leave ch y]) st)) (cx_pid_tgid x) = None"
proof -
  let ?st1 = "probe_step en bm (Enter x) st"
  have 1: "?st1 = st\<lparr>pr_cache := m\<rparr>"
    using enter by (simp add: msg_probe_def try_msg_def)
  have wf1: "wf (pr_cache ?st1)" using insert_wf [OF wf enter(5)] 1 by simp
  have "bm_lookup bm (pr_cache ?st1) (cx_pid_tgid x) = Some so"
    using lookup_insert [OF wf enter(5)] 1 by simp
  then have l: "bm_lookup bm (pr_cache (probe_run en bm cs ?st1)) (cx_pid_tgid y) = Some so"
    using run_others [OF wf1 others] leave(1) by simp
  note R = leave_reports [OF run_wf [OF wf1] l leave(2-4)]
  show "pr_events (probe_run en bm (Enter x # cs @ [Leave ch y]) st)
      = pr_events (probe_run en bm (Enter x # cs) st) @ [e]"
    using R(1) by simp
  show "bm_lookup bm (pr_cache (probe_run en bm (Enter x # cs @ [Leave ch y]) st)) (cx_pid_tgid x) = None"
    using R(2) leave(1) by simp
qed

end

section \<open>A preallocated hash map\<close>

text \<open>A map with preallocated slots, as the kernel's \<^verbatim>\<open>BPF_MAP_TYPE_HASH\<close> keeps by default:
  a full map refuses a new key with \<open>-E2BIG\<close>.\<close>

record SlotMap =
  sm_index :: "u64 \<Rightarrow> nat option"
  sm_slots :: "nat \<Rightarrow> ptr"
  sm_free :: "nat list"

definition slot_insert :: "u64 \<Rightarrow> ptr \<Rightarrow> SlotMap \<Rightarrow> i64 + SlotMap" where
  "slot_insert k v m =
     (case sm_index m k of
        Some s \<Rightarrow> Inr (m\<lparr>sm_slots := (sm_slots m)(s := v)\<rparr>)
      | None \<Rightarrow>
         (case sm_free m of
            [] \<Rightarrow> Inl (- 7)
          | s # fs \<Rightarrow> Inr \<lparr>sm_index = (sm_index m)(k \<mapsto> s), sm_slots = (sm_slots m)(s := v), sm_free = fs\<rparr>))"

definition slot_remove :: "u64 \<Rightarrow> SlotMap \<Rightarrow> SlotMap" where
  "slot_remove k m =
     (case sm_index m k of
        None \<Rightarrow> m
      | Some s \<Rightarrow> m\<lparr>sm_index := (sm_index m)(k := None), sm_free := sm_free m @ [s]\<rparr>)"

definition slot_bm :: "(SlotMap, nat) BpfHashMap" where
  "slot_bm = \<lparr>bm_get = sm_index, bm_deref = sm_slots, bm_insert = slot_insert, bm_remove = slot_remove\<rparr>"

definition slot_wf :: "SlotMap \<Rightarrow> bool" where
  "slot_wf m \<longleftrightarrow> inj_on (sm_index m) (dom (sm_index m)) \<and> ran (sm_index m) \<inter> set (sm_free m) = {}
     \<and> distinct (sm_free m)"

definition slot_empty :: "nat \<Rightarrow> SlotMap" where
  "slot_empty n = \<lparr>sm_index = Map.empty, sm_slots = (\<lambda>_. 0), sm_free = [0..<n]\<rparr>"

lemma slot_wf_empty: "slot_wf (slot_empty n)"
  by (simp add: slot_wf_def slot_empty_def)

lemma slot_index_inject:
  "slot_wf m \<Longrightarrow> sm_index m k = Some s \<Longrightarrow> sm_index m k' = Some s \<Longrightarrow> k = k'"
  by (auto simp: slot_wf_def inj_on_def dom_def)

lemma slot_free_unused: "slot_wf m \<Longrightarrow> s \<in> set (sm_free m) \<Longrightarrow> sm_index m k \<noteq> Some s"
  by (auto simp: slot_wf_def ran_def)

lemma slot_wfI:
  assumes "\<And>k k' s. sm_index m k = Some s \<Longrightarrow> sm_index m k' = Some s \<Longrightarrow> k = k'"
    "\<And>s k. s \<in> set (sm_free m) \<Longrightarrow> sm_index m k \<noteq> Some s" "distinct (sm_free m)"
  shows "slot_wf m"
  using assms by (fastforce simp: slot_wf_def inj_on_def dom_def ran_def)

lemma slot_insert_wf: "slot_wf m \<Longrightarrow> slot_insert k v m = Inr m' \<Longrightarrow> slot_wf m'"
proof (rule slot_wfI)
  assume m: "slot_wf m" "slot_insert k v m = Inr m'"
  note I = slot_index_inject [OF m(1)] and F = slot_free_unused [OF m(1)]
  show "k1 = k2" if "sm_index m' k1 = Some s" "sm_index m' k2 = Some s" for k1 k2 s
    using that m(2) I F by (fastforce simp: slot_insert_def split: option.splits list.splits if_splits)
  show "sm_index m' k1 \<noteq> Some s" if "s \<in> set (sm_free m')" for s k1
    using that m I F by (fastforce simp: slot_insert_def slot_wf_def split: option.splits list.splits if_splits)
  show "distinct (sm_free m')"
    using m by (auto simp: slot_insert_def slot_wf_def split: option.splits list.splits)
qed

lemma slot_remove_wf: "slot_wf m \<Longrightarrow> slot_wf (slot_remove k m)"
proof (cases "sm_index m k")
  case (Some s0)
  assume m: "slot_wf m"
  have r: "slot_remove k m = m\<lparr>sm_index := (sm_index m)(k := None), sm_free := sm_free m @ [s0]\<rparr>"
    using Some by (simp add: slot_remove_def)
  have "s0 \<notin> set (sm_free m)" using slot_free_unused [OF m, of s0 k] Some by blast
  then show ?thesis
    unfolding r using m slot_index_inject [OF m Some] slot_index_inject [OF m] slot_free_unused [OF m]
    by (intro slot_wfI) (auto simp: slot_wf_def split: if_splits)
qed (simp add: slot_remove_def)

lemma slot_insert_lookup:
  assumes m: "slot_wf m" "slot_insert k v m = Inr m'"
  shows "map_option (sm_slots m') (sm_index m' k') =
    (if k' = k then Some v else map_option (sm_slots m) (sm_index m k'))"
proof (cases "sm_index m k")
  case (Some s)
  then have m': "m' = m\<lparr>sm_slots := (sm_slots m)(s := v)\<rparr>" using m(2) by (simp add: slot_insert_def)
  show ?thesis
  proof (cases "k' = k")
    case False
    then have "sm_index m k' \<noteq> Some s" using slot_index_inject [OF m(1) Some] by blast
    with False show ?thesis unfolding m' by (cases "sm_index m k'") simp_all
  qed (simp add: m' Some)
next
  case None
  then obtain s fs where f: "sm_free m = s # fs"
    and m': "m' = \<lparr>sm_index = (sm_index m)(k \<mapsto> s), sm_slots = (sm_slots m)(s := v), sm_free = fs\<rparr>"
    using m(2) by (auto simp: slot_insert_def split: list.splits)
  have "sm_index m k' \<noteq> Some s" using slot_free_unused [OF m(1), of s k'] f by simp
  then show ?thesis unfolding m' by (cases "sm_index m k'") simp_all
qed

interpretation slot: bpf_hash_map slot_bm slot_wf
proof
  show "slot_wf m'" if "slot_wf m" "bm_insert slot_bm k v m = Inr m'" for m k v m'
    using that slot_insert_wf by (simp add: slot_bm_def)
  show "slot_wf (bm_remove slot_bm k m)" if "slot_wf m" for m k
    using that slot_remove_wf by (simp add: slot_bm_def)
  show "bm_lookup slot_bm m' k' = (if k' = k then Some v else bm_lookup slot_bm m k')"
    if "slot_wf m" "bm_insert slot_bm k v m = Inr m'" for m k v m' k'
    using that by (simp add: bm_lookup_def slot_bm_def slot_insert_lookup)
  show "bm_lookup slot_bm (bm_remove slot_bm k m) k' = (if k' = k then None else bm_lookup slot_bm m k')"
    if "slot_wf m" for m k k'
    by (auto simp: bm_lookup_def slot_bm_def slot_remove_def split: option.splits)
  show "bm_deref slot_bm (bm_remove slot_bm k m) r = bm_deref slot_bm m r"
    if "slot_wf m" "bm_get slot_bm m k = Some r" for m k r
    using that by (simp add: slot_bm_def slot_remove_def)
qed

section \<open>What the events say\<close>

definition msg_wf :: "SockMsgEvent \<Rightarrow> bool" where
  "msg_wf e \<longleftrightarrow> version (msg_local_addr e) = version (msg_remote_addr e)"

lemma sock_event_wf: "sock_event en x sk v ch = Some e \<Longrightarrow> msg_wf e"
  by (auto simp: sock_event_def sk_addrs_def msg_wf_def IpAddr_v4_def IpAddr_v6_def split: sum.splits if_splits)

lemma notify_wf:
  "\<forall>e \<in> set (pr_events st). msg_wf e \<Longrightarrow> \<forall>e \<in> set (pr_events (snd (notify en x sk v ch st))). msg_wf e"
  using sock_event_wf [of en x sk v ch] by (auto simp: notify_event events_output_def split: option.splits)

lemma step_msg_wf:
  assumes "\<forall>e \<in> set (pr_events st). msg_wf e"
  shows "\<forall>e \<in> set (pr_events (probe_step en bm c st)). msg_wf e"
proof -
  have leave: "\<forall>e \<in> set (pr_events (snd (try_msg_ret en bm x ch st))). msg_wf e" for x ch
    using assms by (auto simp: snd_try_msg_ret Let_def notify_event events_output_def
        split: option.splits sum.splits dest: sock_event_wf)
  show ?thesis
  proof (cases "(en, bm, c, st)" rule: probe_step.cases)
    case (1 e b x s)
    then show ?thesis using assms by (auto simp: msg_probe_def try_msg_def split: option.splits sum.splits)
  next
    case (2 e b x s)
    then show ?thesis using leave [of x Rx] by (simp add: recv_msg_ret_def)
  next
    case (3 e b x s)
    then show ?thesis using leave [of x Tx] by (simp add: send_msg_ret_def)
  next
    case (4 e b x a s)
    then show ?thesis
      using assms notify_wf [OF assms] by (auto simp: probe_step_set_state simp del: probe_step.simps)
  qed
qed

lemma run_msg_wf:
  "\<forall>e \<in> set (pr_events st). msg_wf e \<Longrightarrow> \<forall>e \<in> set (pr_events (probe_run en bm cs st)). msg_wf e"
proof (induction cs arbitrary: st)
  case (Cons c cs)
  show ?case using Cons.IH [OF step_msg_wf [OF Cons.prems]] by simp
qed simp

lemma std_from_version:
  "(case std_from_IpAddr en a of V4 _ \<Rightarrow> V4_tag | V6 _ \<Rightarrow> V6_tag) = version a"
  by (cases "(en, a)" rule: std_from_IpAddr.cases) simp_all

text \<open>The ports: both are put in the event as the kernel stores them, the remote one in
  network order, the local one (\<open>skc_num\<close>) in host order.\<close>

lemma sock_event_ports:
  assumes "sock_event Little x sk v ch = Some e" "cx_read_common x sk = Inr c"
  shows "msg_remote_port e = skc_dport (skc_ports c)" "msg_local_port e = skc_num (skc_ports c)"
  using assms by (auto simp: sock_event_def portpair_halves split: sum.splits)

lemma sock_event_fields:
  assumes "sock_event en x sk v ch = Some e"
  shows "msg_ret e = v" "msg_pid e = cx_pid x" "msg_channel e = ch"
  using assms by (auto simp: sock_event_def split: sum.splits)

lemma leave_unmatched:
  assumes "bm_get bm (pr_cache st) (cx_pid_tgid x) = None"
  shows "probe_step en bm (Leave ch x) st = st"
  using assms by (cases ch) (simp_all add: recv_msg_ret_def send_msg_ret_def snd_try_msg_ret)

section \<open>Properties\<close>

text \<open>A readable IPv4 socket, and a thread that sends on it.\<close>

definition sample_common :: sock_common where
  "sample_common =
     \<lparr>skc_addrs = \<lparr>skc_daddr = 0x01010101, skc_rcv_saddr = 0x0100007F\<rparr>, skc_hash = 0,
      skc_ports = \<lparr>skc_dport = 0xBB01, skc_num = 12382\<rparr>, skc_family = 2, skc_state = 1,
      skc_bitfield_1 = BitfieldUnit_new [0], skc_bound_dev_if = 0, skc_bind_node = \<lparr>hl_next = 0, hl_pprev = 0\<rparr>,
      skc_prot = 0, skc_net = 0, skc_v6_daddr = Arr8 0 0 0 0 0 0 0 0, skc_v6_rcv_saddr = Arr8 0 0 0 0 0 0 0 0,
      skc_cookie = 0, skc_flags = 0, skc_node = \<lparr>hl_next = 0, hl_pprev = 0\<rparr>, skc_tx_queue_mapping = 0,
      skc_rx_queue_mapping = 0, skc_incoming_cpu = 0, skc_refcnt = 1, skc_rxhash = 0\<rparr>"

definition sample_context :: ProbeContext where
  "sample_context =
     \<lparr>cx_arg0 = Some 0x1000, cx_ret = Some 64, cx_pid = 213, cx_pid_tgid = 213,
      cx_read_sk = (\<lambda>_. Inr 0x2000), cx_read_common = (\<lambda>_. Inr sample_common), cx_read_type = (\<lambda>_. Inr 1)\<rparr>"

definition sample_event :: SockMsgEvent where
  "sample_event =
     \<lparr>msg_sock_type = Stream, msg_local_addr = IpAddr_v4 0x0100007F, msg_remote_addr = IpAddr_v4 0x01010101,
      msg_local_port = 12382, msg_remote_port = 0xBB01, msg_ret = 64, msg_pid = 213, msg_channel = Tx\<rparr>"

lemma sample_sock_event: "sock_event Little sample_context sk 64 Tx = Some sample_event"
  by (simp add: sock_event_def sample_context_def sample_common_def sample_event_def sk_addrs_def AF_INET_def
      portpair_halves SockType_from_u16_def)

text \<open>A call to \<open>sendmsg\<close> or \<open>recvmsg\<close> on an IP socket is reported once: if the entry probe
  could remember the socket, then whatever probes of other threads run in between, the
  return probe of the thread sends one event with the data of that socket and the outcome of
  the call, and forgets the socket.\<close>

lemma call_reported_once:
  assumes "bpf_hash_map bm valid" "valid (pr_cache st)"
    and "cx_arg0 x = Some so" "cx_read_sk x so = Inr sk0" "cx_read_common x sk0 = Inr c0"
      "skc_family c0 = AF_INET \<or> skc_family c0 = AF_INET6"
      "bm_insert bm (cx_pid_tgid x) so (pr_cache st) = Inr m"
    and "\<And>c. c \<in> set cs \<Longrightarrow> call_thread c \<noteq> cx_pid_tgid x"
    and "cx_pid_tgid y = cx_pid_tgid x" "cx_ret y = Some v" "cx_read_sk y so = Inr sk"
      "sock_event en y sk v ch = Some e"
  shows "pr_events (probe_run en bm (Enter x # cs @ [Leave ch y]) st)
      = pr_events (probe_run en bm (Enter x # cs) st) @ [e]
    \<and> bm_lookup bm (pr_cache (probe_run en bm (Enter x # cs @ [Leave ch y]) st)) (cx_pid_tgid x) = None"
  using bpf_hash_map.call_reported [OF assms] by blast

lemma call_reported_once_witness:
  "pr_events (probe_run Little slot_bm [Enter sample_context, Leave Tx sample_context]
     \<lparr>pr_cache = slot_empty 4, pr_events = []\<rparr>) = [sample_event]"
proof -
  let ?st = "\<lparr>pr_cache = slot_empty 4, pr_events = []\<rparr>"
  obtain m where m: "bm_insert slot_bm 213 0x1000 (slot_empty 4) = Inr m"
    by (simp add: slot_bm_def slot_insert_def slot_empty_def upt_conv_Cons)
  have "pr_events (probe_run Little slot_bm (Enter sample_context # [] @ [Leave Tx sample_context]) ?st)
      = pr_events (probe_run Little slot_bm [Enter sample_context] ?st) @ [sample_event]
    \<and> bm_lookup slot_bm (pr_cache (probe_run Little slot_bm (Enter sample_context # [] @ [Leave Tx sample_context]) ?st))
        (cx_pid_tgid sample_context) = None"
    by (rule call_reported_once [where so = "0x1000" and ?sk0.0 = "0x2000" and ?c0.0 = sample_common and m = m
          and sk = "0x2000" and v = 64, OF slot.bpf_hash_map_axioms])
      (use m sample_sock_event in \<open>simp_all add: slot_wf_empty sample_context_def sample_common_def AF_INET_def\<close>)
  then show ?thesis
    by (simp add: msg_probe_def try_msg_def sample_context_def sample_common_def AF_INET_def split: sum.splits)
qed

text \<open>C32. Every event sent to user space has local and remote addresses of the same family,
  whatever calls, returns and state changes were probed.\<close>

theorem events_one_family: "list_all msg_wf (pr_events (probe_run en bm cs \<lparr>pr_cache = m, pr_events = []\<rparr>))"
  using run_msg_wf [of "\<lparr>pr_cache = m, pr_events = []\<rparr>" en bm cs] by (simp add: list_all_iff)



end
