(* ===== verification/Call_Trace.thy ===== *)
theory Call_Trace
  imports Probe_Ebpf
begin

text \<open>
  What the probes of \<^verbatim>\<open>ptraf-ebpf/src/ptraf-ebpf.rs\<close> promise, without the BPF hash map: calls in
  progress are a map from threads to sockets, every return reports the call of its thread.

  The map \<^verbatim>\<open>CACHE\<close> has room for a fixed number of threads; \<open>bounded_map\<close> adds that to the
  contract of a BPF hash map. As long as no more threads are traced than it has entries, the
  probes refine the abstract calls.
\<close>

section \<open>Calls in progress\<close>

type_synonym calls = "(u64 \<Rightarrow> ptr option) \<times> SockMsgEvent list"

text \<open>The socket an entry is about, if it is an internet socket that can be read.\<close>

definition inet_socket :: "ProbeContext \<Rightarrow> ptr option" where
  "inet_socket x =
     (case cx_arg0 x of None \<Rightarrow> None
      | Some so \<Rightarrow>
         (case cx_read_sk x so of Inl _ \<Rightarrow> None
          | Inr sk \<Rightarrow>
             (case cx_read_common x sk of Inl _ \<Rightarrow> None
              | Inr c \<Rightarrow> if skc_family c = AF_INET \<or> skc_family c = AF_INET6 then Some so else None)))"

definition event_list :: "SockMsgEvent option \<Rightarrow> SockMsgEvent list" where
  "event_list e = (case e of None \<Rightarrow> [] | Some e \<Rightarrow> [e])"

definition call_report :: "endian \<Rightarrow> Channel \<Rightarrow> ProbeContext \<Rightarrow> ptr \<Rightarrow> SockMsgEvent list" where
  "call_report en ch x so =
     (case (cx_ret x, cx_read_sk x so) of
        (Some v, Inr sk) \<Rightarrow> event_list (sock_event en x sk v ch)
      | _ \<Rightarrow> [])"

fun calls_step :: "endian \<Rightarrow> probe_call \<Rightarrow> calls \<Rightarrow> calls" where
  "calls_step en (Enter x) (p, es) =
     (case inet_socket x of None \<Rightarrow> (p, es) | Some so \<Rightarrow> (p(cx_pid_tgid x \<mapsto> so), es))"
| "calls_step en (Leave ch x) (p, es) =
     (case p (cx_pid_tgid x) of
        None \<Rightarrow> (p, es)
      | Some so \<Rightarrow> (p(cx_pid_tgid x := None), es @ call_report en ch x so))"
| "calls_step en (SetState x a) (p, es) =
     (p, es @ (if ss_family a = AF_INET \<or> ss_family a = AF_INET6
               then event_list (sock_event en x (ss_skaddr a) 0 Tx) else []))"

definition calls_run :: "endian \<Rightarrow> probe_call list \<Rightarrow> calls" where
  "calls_run en cs = fold (calls_step en) cs (Map.empty, [])"

section \<open>A hash map with room\<close>

definition cache_entries :: nat where
  "cache_entries = 16384"

lemma snd_try_msg:
  "snd (try_msg bm x st) =
     (case inet_socket x of None \<Rightarrow> st
      | Some so \<Rightarrow> (case bm_insert bm (cx_pid_tgid x) so (pr_cache st) of
                     Inl e \<Rightarrow> st | Inr m \<Rightarrow> st\<lparr>pr_cache := m\<rparr>))"
  by (simp add: try_msg_def inet_socket_def split: option.split sum.split)

text \<open>The documented behaviour of a map with a maximal number of entries: an insertion
  succeeds if the key is present or an entry is left.\<close>

locale bounded_map = bpf_hash_map +
  fixes cap :: nat
  assumes insert_room: "wf m \<Longrightarrow> k \<in> dom (bm_lookup bm m) \<or> card (dom (bm_lookup bm m)) < cap \<Longrightarrow>
    \<exists>m'. bm_insert bm k v m = Inr m'"
begin

definition tracks :: "'a Probe \<Rightarrow> calls \<Rightarrow> bool" where
  "tracks st s \<longleftrightarrow> wf (pr_cache st) \<and> bm_lookup bm (pr_cache st) = fst s \<and> pr_events st = snd s"

lemma tracks_notify:
  "tracks st s \<Longrightarrow> tracks (snd (notify en x sk v ch st)) (fst s, snd s @ event_list (sock_event en x sk v ch))"
  by (auto simp: tracks_def notify_event events_output_def event_list_def split: option.splits)

lemma tracks_remove:
  "tracks st s \<Longrightarrow> tracks (st\<lparr>pr_cache := bm_remove bm k (pr_cache st)\<rparr>) ((fst s)(k := None), snd s)"
  by (auto simp: tracks_def remove_wf lookup_remove)

lemma tracks_leave:
  assumes "tracks st s"
  shows "tracks (snd (try_msg_ret en bm x ch st)) (calls_step en (Leave ch x) s)"
proof (cases "bm_get bm (pr_cache st) (cx_pid_tgid x)")
  case None
  then have "fst s (cx_pid_tgid x) = None"
    using assms by (auto simp: tracks_def bm_lookup_def dest: fun_cong [of _ _ "cx_pid_tgid x"])
  then show ?thesis using None assms by (cases s) (simp add: snd_try_msg_ret)
next
  case (Some r)
  let ?so = "bm_deref bm (pr_cache st) r" and ?m = "bm_remove bm (cx_pid_tgid x) (pr_cache st)"
  have s: "fst s (cx_pid_tgid x) = Some ?so"
    using assms Some by (auto simp: tracks_def bm_lookup_def dest: fun_cong [of _ _ "cx_pid_tgid x"])
  have d: "bm_deref bm ?m r = ?so"
    using assms Some deref_removed by (simp add: tracks_def)
  note R = tracks_remove [OF assms, of "cx_pid_tgid x"]
  show ?thesis
    using Some s d R tracks_notify [OF R]
    by (cases s) (auto simp: snd_try_msg_ret call_report_def Let_def split: option.splits sum.splits)
qed

lemma tracks_enter:
  assumes t: "tracks st s" and room: "cx_pid_tgid x \<in> dom (fst s) \<or> card (dom (fst s)) < cap"
  shows "tracks (snd (try_msg bm x st)) (calls_step en (Enter x) s)"
proof -
  have w: "wf (pr_cache st)" and l: "bm_lookup bm (pr_cache st) = fst s" using t by (simp_all add: tracks_def)
  have ins: "tracks (st\<lparr>pr_cache := m\<rparr>) ((fst s)(cx_pid_tgid x \<mapsto> so), snd s)"
    if "bm_insert bm (cx_pid_tgid x) so (pr_cache st) = Inr m" for so m
    using t insert_wf [OF w that] lookup_insert [OF w that] by (auto simp: tracks_def l)
  show ?thesis
  proof (cases "inet_socket x")
    case (Some so)
    obtain m where "bm_insert bm (cx_pid_tgid x) so (pr_cache st) = Inr m"
      using insert_room [OF w] room by (auto simp: l)
    then show ?thesis using Some ins by (cases s) (simp add: snd_try_msg)
  qed (use t in \<open>cases s; simp add: snd_try_msg\<close>)
qed

lemma tracks_step:
  assumes "tracks st s" "call_thread c \<in> dom (fst s) \<or> card (dom (fst s)) < cap"
  shows "tracks (probe_step en bm c st) (calls_step en c s)"
proof (cases "(en, bm, c, st)" rule: probe_step.cases)
  case (1 e b x s')
  then show ?thesis using tracks_enter assms by (simp add: msg_probe_def)
next
  case (2 e b x s')
  then show ?thesis using tracks_leave [OF assms(1)] by (simp add: recv_msg_ret_def)
next
  case (3 e b x s')
  then show ?thesis using tracks_leave [OF assms(1)] by (simp add: send_msg_ret_def)
next
  case (4 e b x a s')
  then show ?thesis
    using assms(1) tracks_notify [OF assms(1)]
    by (cases s) (simp add: probe_step_set_state del: probe_step.simps)
qed

lemma dom_calls_step: "dom (fst (calls_step en c s)) \<subseteq> insert (call_thread c) (dom (fst s))"
  by (cases "(en, c, s)" rule: calls_step.cases) (auto split: option.splits)

text \<open>Tracing at most as many threads as there are entries never runs out of room.\<close>

lemma tracks_run:
  assumes "finite T" "card T \<le> cap"
  shows "tracks st s \<Longrightarrow> dom (fst s) \<subseteq> T \<Longrightarrow> call_thread ` set cs \<subseteq> T
    \<Longrightarrow> tracks (probe_run en bm cs st) (fold (calls_step en) cs s)"
proof (induction cs arbitrary: st s)
  case (Cons c cs)
  have "call_thread c \<in> dom (fst s) \<or> card (dom (fst s)) < cap"
  proof (rule disjCI)
    assume "\<not> card (dom (fst s)) < cap"
    then have "dom (fst s) = T" using assms card_seteq [OF assms(1) Cons.prems(2)] by simp
    then show "call_thread c \<in> dom (fst s)" using Cons.prems(3) by simp
  qed
  note S = tracks_step [OF Cons.prems(1) this, of en]
  have "dom (fst (calls_step en c s)) \<subseteq> T" using dom_calls_step [of en c s] Cons.prems(2,3) by auto
  then show ?case using Cons.IH [OF S] Cons.prems(3) by simp
qed simp

lemma run_refines:
  assumes "wf m" "bm_lookup bm m = Map.empty" "card (call_thread ` set cs) \<le> cap"
  shows "tracks (probe_run en bm cs \<lparr>pr_cache = m, pr_events = []\<rparr>) (calls_run en cs)"
  unfolding calls_run_def using assms by (intro tracks_run [OF _ assms(3)]) (simp_all add: tracks_def)

end

section \<open>The preallocated map has room\<close>

definition slot_ok :: "nat \<Rightarrow> SlotMap \<Rightarrow> bool" where
  "slot_ok n m \<longleftrightarrow> slot_wf m \<and> length (sm_free m) + card (dom (sm_index m)) = n"

lemma slot_ok_empty: "slot_ok n (slot_empty n)"
  using slot_wf_empty [of n] by (simp add: slot_ok_def slot_empty_def)

lemma dom_slot_lookup: "dom (bm_lookup slot_bm m) = dom (sm_index m)"
  by (auto simp: bm_lookup_def slot_bm_def)

lemma slot_ok_insert: "slot_ok n m \<Longrightarrow> slot_insert k v m = Inr m' \<Longrightarrow> slot_ok n m'"
  using slot_insert_wf [of m k v m']
  by (auto simp: slot_ok_def slot_insert_def domIff split: option.splits list.splits)

lemma slot_ok_remove: "slot_ok n m \<Longrightarrow> slot_ok n (slot_remove k m)"
proof (cases "sm_index m k")
  case (Some s)
  assume m: "slot_ok n m"
  have "card (dom (sm_index m)) = Suc (card (dom (sm_index m) - {k}))"
    using Some by (intro card.remove) auto
  then show ?thesis
    using m Some slot_remove_wf [of m k] by (simp add: slot_ok_def slot_remove_def)
qed (simp add: slot_remove_def)

interpretation slots: bounded_map slot_bm "slot_ok n" n
proof
  show "slot_ok n m'" if "slot_ok n m" "bm_insert slot_bm k v m = Inr m'" for m k v m'
    using that slot_ok_insert by (simp add: slot_bm_def)
  show "slot_ok n (bm_remove slot_bm k m)" if "slot_ok n m" for m k
    using that slot_ok_remove by (simp add: slot_bm_def)
  show "bm_lookup slot_bm m' k' = (if k' = k then Some v else bm_lookup slot_bm m k')"
    if "slot_ok n m" "bm_insert slot_bm k v m = Inr m'" for m k v m' k'
    using that slot.lookup_insert by (simp add: slot_ok_def)
  show "bm_lookup slot_bm (bm_remove slot_bm k m) k' = (if k' = k then None else bm_lookup slot_bm m k')"
    if "slot_ok n m" for m k k'
    using that slot.lookup_remove by (simp add: slot_ok_def)
  show "bm_deref slot_bm (bm_remove slot_bm k m) r = bm_deref slot_bm m r"
    if "slot_ok n m" "bm_get slot_bm m k = Some r" for m k r
    using that slot.deref_removed by (simp add: slot_ok_def)
  show "\<exists>m'. bm_insert slot_bm k v m = Inr m'"
    if "slot_ok n m" "k \<in> dom (bm_lookup slot_bm m) \<or> card (dom (bm_lookup slot_bm m)) < n" for m k v
    using that unfolding dom_slot_lookup by (auto simp: slot_ok_def slot_bm_def slot_insert_def split: option.split list.split)
qed

section \<open>Properties\<close>

lemma slot_empty_lookup: "bm_lookup slot_bm (slot_empty n) = Map.empty"
  by (rule ext) (simp add: bm_lookup_def slot_bm_def slot_empty_def)

lemma sample_calls: "snd (calls_run Little [Enter sample_context, Leave Tx sample_context]) = [sample_event]"
  using sample_sock_event
  by (simp add: calls_run_def inet_socket_def sample_context_def sample_common_def AF_INET_def call_report_def event_list_def)



end
