(* ===== verification/World.thy ===== *)
theory World
  imports App_Main Call_Trace
begin

text \<open>
  The whole program at work: probes firing in the kernel, the perf buffers, the task of each CPU
  recording batches in the store, the interface drawing and handling keys, in any order, until
  the program is told to stop.

  The steps are those of the components; this theory puts them side by side, as
  \<^verbatim>\<open>ptraf/src/main.rs\<close> does with the tasks it spawns. The perf buffers, one per CPU, are
  queues of events; the kernel drops the events for which a buffer has no room. A task reads
  its clock before it takes the lock of the store, so the timestamps of batches and redraws
  come in any order. A batch is one step: \<open>Store_Linear\<close> shows that the interleaved updates of
  the tasks amount to that. A redraw sees whole batches; \<open>Store_View\<close> treats one that meets a
  batch half recorded. Histories (the calls probed, the updates of the store, the events lost)
  are kept to state what has been counted; a redraw is recorded as an update without messages,
  since it makes the store reach the present window.
\<close>

section \<open>States and steps\<close>

datatype status = Alive | Ended | Crashed

record ('m, 'ta, 'r) World =
  w_probe :: "'m Probe"
  w_buffers :: "SockMsgEvent list list"
  w_store :: Store
  w_ui :: "('ta, 'r) Ui"
  w_status :: status
  w_calls :: "probe_call list"
  w_updates :: "Update list"
  w_lost :: "SockMsgEvent list"

definition World_init ::
  "('ta, 'p, 'path, 'r) Env \<Rightarrow> 'm \<Rightarrow> nat \<Rightarrow> Store \<Rightarrow> ('m, 'ta, 'r) World" where
  "World_init E m cpus st =
     \<lparr>w_probe = \<lparr>pr_cache = m, pr_events = []\<rparr>, w_buffers = replicate cpus [], w_store = st,
      w_ui = Ui_default E, w_status = Alive, w_calls = [], w_updates = [], w_lost = []\<rparr>"

text \<open>A call: the events it sends go to the buffer of its CPU, as far as there is room.\<close>

definition sent :: "endian \<Rightarrow> ('m, 's) BpfHashMap \<Rightarrow> probe_call \<Rightarrow> 'm Probe \<Rightarrow> SockMsgEvent list" where
  "sent en bm c p = drop (length (pr_events p)) (pr_events (probe_step en bm c p))"

definition do_call ::
  "endian \<Rightarrow> ('m, 's) BpfHashMap \<Rightarrow> nat \<Rightarrow> probe_call \<Rightarrow> nat \<Rightarrow> ('m, 'ta, 'r) World \<Rightarrow> ('m, 'ta, 'r) World" where
  "do_call en bm cpu c room W =
     W\<lparr>w_probe := probe_step en bm c (w_probe W), w_calls := w_calls W @ [c],
       w_buffers := (w_buffers W)[cpu := w_buffers W ! cpu @ take room (sent en bm c (w_probe W))],
       w_lost := w_lost W @ drop room (sent en bm c (w_probe W))\<rparr>"

text \<open>A round of a task: the oldest events of its buffer, each followed by the padding of its
  record, are handed to the callback.\<close>

definition do_batch ::
  "endian \<Rightarrow> 'r Display \<Rightarrow> nat \<Rightarrow> Instant \<Rightarrow> u8 list list \<Rightarrow> ('m, 'ta, 'r) World \<Rightarrow> ('m, 'ta, 'r) World" where
  "do_batch en D cpu now pads W =
     (let es = take (length pads) (w_buffers W ! cpu) in
      case on_events en (d_oc D) (d_clock D) now
             (EventIter_new (map2 (\<lambda>e pad. encode_event en e @ pad) es pads)) (w_store W) of
        Some (Inr st) \<Rightarrow>
          W\<lparr>w_store := st, w_updates := w_updates W @ [(clock_now (d_clock D) now, es)],
            w_buffers := (w_buffers W)[cpu := drop (length pads) (w_buffers W ! cpu)]\<rparr>
      | _ \<Rightarrow> W\<lparr>w_status := Crashed\<rparr>)"

definition do_draw :: "'r Display \<Rightarrow> Instant \<Rightarrow> ('m, 'ta, 'r) World \<Rightarrow> ('m, 'ta, 'r) World" where
  "do_draw D now W =
     (case ui_render (d_oc D) (d_order D) (d_rows D) (d_recv D) (d_clock D) now (w_store W) (w_ui W) of
        Some (Inr (ui, st)) \<Rightarrow>
          W\<lparr>w_ui := ui, w_store := st, w_updates := w_updates W @ [(clock_now (d_clock D) now, [])]\<rparr>
      | _ \<Rightarrow> W\<lparr>w_status := Crashed\<rparr>)"

definition do_input :: "('ta, 'p, 'path, 'r) Env \<Rightarrow> wake \<Rightarrow> ('m, 'ta, 'r) World \<Rightarrow> ('m, 'ta, 'r) World" where
  "do_input E k W =
     (case app_event E k (w_ui W) of
        (quit, ui) \<Rightarrow> W\<lparr>w_ui := ui, w_status := if quit then Ended else Alive\<rparr>)"

text \<open>\<open>ctrl_c\<close> stands for every other way in which \<^verbatim>\<open>main\<close> ends: an interrupt, or the end of a task.\<close>

inductive wstep ::
  "endian \<Rightarrow> ('m, 's) BpfHashMap \<Rightarrow> ('ta, 'p, 'path, 'r) Env \<Rightarrow> 'r Display
    \<Rightarrow> ('m, 'ta, 'r) World \<Rightarrow> ('m, 'ta, 'r) World \<Rightarrow> bool" for en bm E D where
  call: "w_status W = Alive \<Longrightarrow> cpu < length (w_buffers W)
    \<Longrightarrow> wstep en bm E D W (do_call en bm cpu c room W)"
| batch: "w_status W = Alive \<Longrightarrow> cpu < length (w_buffers W) \<Longrightarrow> length pads \<le> length (w_buffers W ! cpu)
    \<Longrightarrow> u64_range (clock_now (d_clock D) now)
    \<Longrightarrow> wstep en bm E D W (do_batch en D cpu now pads W)"
| draw: "w_status W = Alive \<Longrightarrow> u64_range (clock_now (d_clock D) now)
    \<Longrightarrow> wstep en bm E D W (do_draw D now W)"
| input: "w_status W = Alive \<Longrightarrow> wstep en bm E D W (do_input E k W)"
| ctrl_c: "w_status W = Alive \<Longrightarrow> wstep en bm E D W (W\<lparr>w_status := Ended\<rparr>)"

abbreviation wreach ::
  "endian \<Rightarrow> ('m, 's) BpfHashMap \<Rightarrow> ('ta, 'p, 'path, 'r) Env \<Rightarrow> 'r Display
    \<Rightarrow> ('m, 'ta, 'r) World \<Rightarrow> ('m, 'ta, 'r) World \<Rightarrow> bool" where
  "wreach en bm E D \<equiv> (wstep en bm E D)\<^sup>*\<^sup>*"

section \<open>Running and drawing keep the store\<close>

text \<open>The store holds the end of the time series of all updates, of \<open>n\<close> segments at most, and
  the interface has its invariant.\<close>

definition winv :: "endian \<Rightarrow> ('ta, 'p, 'path, 'r) Env \<Rightarrow> nat \<Rightarrow> nat \<Rightarrow> ('m, 'ta, 'r) World \<Rightarrow> bool" where
  "winv en E w n W \<longleftrightarrow>
     w_status W \<noteq> Crashed \<and> ui_inv E (w_ui W)
   \<and> store_inv (w_store W) \<and> st_window (w_store W) = w \<and> st_capacity (w_store W) = n
   \<and> represents (timeline_run en w (w_updates W) Timeline_empty) (w_store W)"

lemma timeline_update_nil: "timeline_update en b [] tm = timeline_advance b tm"
  by (simp add: timeline_update_def timeline_record_def timeline_advance_def)

lemma trunc_start:
  assumes "store_inv st" "u64_range ts" "trunc ts (st_window st) = Inr b"
  shows "b = start (st_window st) ts"
  using assms store_invD(1,2) [OF assms(1)] by (simp add: trunc_eq start_def)

text \<open>A redraw makes the store reach the present window.\<close>

lemma ui_render_store:
  assumes "store_inv st" "u64_range (clock_now clock now)"
  shows "\<exists>ui'. ui_render False ord vals tr clock now st ui
    = Some (Inr (ui', advance (start (st_window st) (clock_now clock now)) st))"
proof -
  obtain b where b: "trunc (clock_now clock now) (st_window st) = Inr b"
    "write_segment (clock_now clock now) st = Some (Inr (advance b st))"
    using write_segment_advance [OF assms] by blast
  obtain ui' st' where r: "ui_render False ord vals tr clock now st ui = Some (Inr (ui', st'))"
    using ui_render_total [OF assms] by blast
  then have "st' = advance b st"
    by (auto simp: ui_render_def oldest_timestamp_def b(2) write_deref_def rbind_eq_Inr_iff rmap_eq_Inr_iff
        split: option.splits)
  then show ?thesis using r trunc_start [OF assms b(1)] by blast
qed

lemma winv_call: "winv en E w n W \<Longrightarrow> winv en E w n (do_call en' bm cpu c room W)"
  by (simp add: winv_def do_call_def)

lemma winv_batch:
  assumes inv: "winv en E w n W" and oc: "\<not> d_oc D" and now: "u64_range (clock_now (d_clock D) now)"
    and pads: "length pads \<le> length (w_buffers W ! cpu)"
  shows "winv en E w n (do_batch en D cpu now pads W)"
proof -
  let ?ts = "clock_now (d_clock D) now" and ?es = "take (length pads) (w_buffers W ! cpu)"
    and ?tm = "timeline_run en w (w_updates W) Timeline_empty"
  have I: "store_inv (w_store W)" "st_window (w_store W) = w" "represents ?tm (w_store W)"
    using inv by (simp_all add: winv_def)
  obtain b st where b: "trunc ?ts (st_window (w_store W)) = Inr b"
    "store_batch_update en (d_oc D) ?ts ?es (w_store W) = Some (Inr st)" "store_inv st"
    "represents (timeline_update en b ?es ?tm) st" "st_window st = w" "st_capacity st = st_capacity (w_store W)"
    using store_update_refines [OF I(1) now I(3), of ?es "d_oc D" en] I(2) oc
    by (auto simp: msg_no_panic_def)
  have e: "EventIter_new (map2 (\<lambda>e pad. encode_event en e @ pad) ?es pads)
      = EventIter_new (map (\<lambda>(e, pad). encode_event en e @ pad) (zip ?es pads))" by simp
  have "map fst (zip ?es pads) = ?es" using pads by simp
  then show ?thesis
    using inv b(2-6) trunc_start [OF I(1) now b(1)] I(2)
    by (simp add: do_batch_def Let_def e on_events_encoded winv_def timeline_run_append del: EventIter_new_def)
qed

lemma winv_draw:
  assumes inv: "winv en E w n W" and oc: "\<not> d_oc D" and now: "u64_range (clock_now (d_clock D) now)"
  shows "winv en E w n (do_draw D now W)"
proof -
  let ?ts = "clock_now (d_clock D) now" and ?st = "w_store W"
  have I: "store_inv ?st" "st_window ?st = w" "represents (timeline_run en w (w_updates W) Timeline_empty) ?st"
    and U: "ui_inv E (w_ui W)"
    using inv by (simp_all add: winv_def)
  obtain b where b: "trunc ?ts (st_window ?st) = Inr b" "st_window ?st dvd b" "u64_range b"
    using write_segment_advance [OF I(1) now] clk.bucket_dvd [OF store_invD(2) [OF I(1)]] trunc_u64 by blast
  note bs = trunc_start [OF I(1) now b(1)]
  obtain ui where r: "ui_render (d_oc D) (d_order D) (d_rows D) (d_recv D) (d_clock D) now ?st (w_ui W)
      = Some (Inr (ui, advance b ?st))"
    using ui_render_store [OF I(1) now, where ord = "d_order D" and vals = "d_rows D" and tr = "d_recv D" and ui = "w_ui W"]
      oc bs by auto
  show ?thesis
    using inv r ui_inv_render(1) [OF U r] store_inv_advance [OF I(1) b(2,3)] represents_advance [OF I(1) b(2) I(3)]
      I(2) bs
    by (simp add: do_draw_def winv_def timeline_run_append timeline_update_nil)
qed

lemma winv_input:
  "text_area (env_text E) \<Longrightarrow> winv en E w n W \<Longrightarrow> winv en E w n (do_input E k W)"
  using app_event_inv [of E "w_ui W" k] by (auto simp: winv_def do_input_def split: prod.splits)

lemma winv_reach:
  assumes "wreach en bm E D W W'" "text_area (env_text E)" "\<not> d_oc D" "winv en E w n W"
  shows "winv en E w n W'"
  using assms(1)
proof (induction rule: rtranclp_induct)
  case (step W' W'')
  show ?case using step.hyps(2) step.IH assms(2,3)
  proof (cases rule: wstep.cases)
    case (ctrl_c)
    then show ?thesis using step.IH by (simp add: winv_def)
  qed (simp_all add: winv_call winv_batch winv_draw winv_input)
qed (rule assms(4))

lemma winv_init:
  assumes "text_area (env_text E)" "0 < w" "u64_range w"
  shows "winv en E w n (World_init E m cpus (Store_new w n))"
  using ui_inv_default [OF assms(1)] Store_new_inv [OF assms(2,3)] represents_empty
  by (simp add: winv_def World_init_def Store_new_def)

section \<open>No event is made up or counted twice\<close>

text \<open>The probes only ever add to the events sent.\<close>

lemma probe_step_sends: "\<exists>es. pr_events (probe_step en bm c p) = pr_events p @ es"
proof -
  have n: "\<exists>es. pr_events (snd (notify en x sk v ch q)) = pr_events q @ es" for x sk v ch and q :: "'a Probe"
    by (auto simp: notify_event events_output_def split: option.splits)
  have l: "\<exists>es. pr_events (snd (try_msg_ret en bm x ch p)) = pr_events p @ es" for x ch
    using n [of _ _ _ _ "p\<lparr>pr_cache := _\<rparr>"] by (auto simp: snd_try_msg_ret Let_def split: option.splits sum.splits)
  show ?thesis
  proof (cases "(en, bm, c, p)" rule: probe_step.cases)
    case (1 e b x s)
    then show ?thesis by (auto simp: msg_probe_def snd_try_msg split: option.splits sum.splits)
  next
    case (2 e b x s)
    then show ?thesis using l by (simp add: recv_msg_ret_def)
  next
    case (3 e b x s)
    then show ?thesis using l by (simp add: send_msg_ret_def)
  next
    case (4 e b x a s)
    then show ?thesis using n by (simp add: probe_step_set_state del: probe_step.simps)
  qed
qed

lemma pr_events_sent: "pr_events (probe_step en bm c p) = pr_events p @ sent en bm c p"
  using probe_step_sends [of en bm c p] by (auto simp: sent_def)

lemma mset_concat_update:
  "k < length xs \<Longrightarrow> mset (concat (xs[k := y])) + mset (xs ! k) = mset (concat xs) + mset y"
proof (induction xs arbitrary: k)
  case (Cons x xs)
  show ?case
  proof (cases k)
    case (Suc j)
    then show ?thesis using Cons.IH [of j] Cons.prems by (simp add: ac_simps)
  qed (simp add: ac_simps)
qed simp

text \<open>Every event the probes have sent is recorded, in a buffer, or lost.\<close>

definition conserved :: "endian \<Rightarrow> ('m, 's) BpfHashMap \<Rightarrow> 'm \<Rightarrow> ('m, 'ta, 'r) World \<Rightarrow> bool" where
  "conserved en bm m W \<longleftrightarrow>
     w_probe W = probe_run en bm (w_calls W) \<lparr>pr_cache = m, pr_events = []\<rparr>
   \<and> mset (pr_events (w_probe W))
       = mset (concat (map snd (w_updates W))) + mset (concat (w_buffers W)) + mset (w_lost W)"

lemma conservedD:
  assumes "conserved en bm m W"
  shows "w_probe W = probe_run en bm (w_calls W) \<lparr>pr_cache = m, pr_events = []\<rparr>"
    "mset (pr_events (w_probe W))
       = mset (concat (map snd (w_updates W))) + mset (concat (w_buffers W)) + mset (w_lost W)"
  using assms unfolding conserved_def by blast+

lemma conserved_frame:
  assumes "w_probe W' = w_probe W" "w_calls W' = w_calls W" "w_buffers W' = w_buffers W" "w_lost W' = w_lost W"
    "concat (map snd (w_updates W')) = concat (map snd (w_updates W))"
  shows "conserved en bm m W' \<longleftrightarrow> conserved en bm m W"
  by (simp add: conserved_def assms)

lemma conserved_call:
  assumes "conserved en bm m W" "cpu < length (w_buffers W)"
  shows "conserved en bm m (do_call en bm cpu c room W)"
proof -
  let ?s = "sent en bm c (w_probe W)" and ?b = "w_buffers W ! cpu"
  have "mset (concat ((w_buffers W)[cpu := ?b @ take room ?s])) = mset (concat (w_buffers W)) + mset (take room ?s)"
    using mset_concat_update [OF assms(2), of "?b @ take room ?s"] by simp
  moreover have "mset (take room ?s) + mset (drop room ?s) = mset ?s" by (metis append_take_drop_id mset_append)
  ultimately have "mset (pr_events (w_probe (do_call en bm cpu c room W)))
      = mset (concat (map snd (w_updates W))) + mset (concat ((w_buffers W)[cpu := ?b @ take room ?s]))
        + (mset (w_lost W) + mset (drop room ?s))"
    using conservedD(2) [OF assms(1)] by (simp add: do_call_def pr_events_sent ac_simps)
  then show ?thesis
    using conservedD(1) [OF assms(1)] by (simp add: conserved_def do_call_def)
qed

lemma conserved_batch:
  assumes "conserved en bm m W" "cpu < length (w_buffers W)"
  shows "conserved en bm m (do_batch en D cpu now pads W)"
proof -
  let ?b = "w_buffers W ! cpu" and ?k = "length pads"
  have "mset ?b = mset (take ?k ?b) + mset (drop ?k ?b)" by (metis append_take_drop_id mset_append)
  then have "mset (concat (w_buffers W)) = mset (concat ((w_buffers W)[cpu := drop ?k ?b])) + mset (take ?k ?b)"
    using mset_concat_update [OF assms(2), of "drop ?k ?b"] by simp
  then show ?thesis
    using assms(1) by (auto simp: conserved_def do_batch_def Let_def ac_simps split: option.splits sum.splits)
qed

lemma conserved_step: "wstep en bm E D W W' \<Longrightarrow> conserved en bm m W \<Longrightarrow> conserved en bm m W'"
proof (induction rule: wstep.induct)
  case (draw W now)
  have "conserved en bm m (do_draw D now W) \<longleftrightarrow> conserved en bm m W"
    by (rule conserved_frame) (auto simp: do_draw_def split: option.splits sum.splits)
  then show ?case using draw by simp
next
  case (input W k)
  have "conserved en bm m (do_input E k W) \<longleftrightarrow> conserved en bm m W"
    by (rule conserved_frame) (auto simp: do_input_def split: prod.splits)
  then show ?case using input by simp
next
  case (ctrl_c W)
  have "conserved en bm m (W\<lparr>w_status := Ended\<rparr>) \<longleftrightarrow> conserved en bm m W"
    by (rule conserved_frame) simp_all
  then show ?case using ctrl_c by simp
qed (simp_all add: conserved_call conserved_batch)

lemma conserved_reach: "wreach en bm E D (World_init E m cpus st) W \<Longrightarrow> conserved en bm m W"
proof (induction rule: rtranclp_induct)
  case base
  have "concat (replicate cpus []) = ([] :: 'c list)" for cpus by (induction cpus) simp_all
  then show ?case by (simp add: conserved_def World_init_def)
qed (rule conserved_step)

section \<open>Properties\<close>


text \<open>A short run: an internet socket is probed, its event recorded, the store drawn.\<close>

definition sample_world :: "Store \<Rightarrow> (SlotMap, string list, unit) World" where
  "sample_world st =
     do_call Little slot_bm 0 (Leave Tx sample_context) 10
       (do_call Little slot_bm 0 (Enter sample_context) 10 (World_init sample_env (slot_empty cache_entries) 1 st))"

lemma sample_world_calls [simp]:
  "w_calls (sample_world st) = [Enter sample_context, Leave Tx sample_context]"
  "w_status (sample_world st) = Alive" "w_updates (sample_world st) = []" "length (w_buffers (sample_world st)) = 1"
  "w_ui (sample_world st) = Ui_default sample_env"
  by (simp_all add: sample_world_def do_call_def World_init_def)

lemma sample_world_reach:
  "wreach Little slot_bm sample_env sample_display (World_init sample_env (slot_empty cache_entries) 1 st) (sample_world st)"
proof -
  let ?init = "World_init sample_env (slot_empty cache_entries) 1 st"
  let ?entered = "do_call Little slot_bm 0 (Enter sample_context) 10 ?init"
  have "wstep Little slot_bm sample_env sample_display ?init ?entered"
    by (rule wstep.call) (simp_all add: World_init_def)
  moreover have "wstep Little slot_bm sample_env sample_display ?entered (sample_world st)"
    unfolding sample_world_def by (rule wstep.call) (simp_all add: do_call_def World_init_def)
  ultimately show ?thesis by (meson converse_rtranclp_into_rtranclp r_into_rtranclp)
qed

lemma sample_args:
  "unat (interval_ms Args_default) * 1000000 < 2 ^ 64" "\<exists>st. main_store oc Args_default = Inr st"
  "\<not> d_oc sample_display"
  by (simp_all add: main_store_def segment_count_def mul_u64_def Args_default_def sample_display_def)




end
