(* ===== verification/Screen.thy ===== *)
theory Screen
  imports World
begin

text \<open>
  From system calls to the screen: what the table of \<^verbatim>\<open>ptraf/src/ui/socktable.rs\<close> shows after a
  redraw, in terms of the batches recorded and of the calls probed in the kernel.
\<close>

section \<open>What a redraw collects\<close>

lemma root_refresh_table:
  assumes "root_refresh oc ord vals tr paused ts clock store i v = Inr v'"
  shows "table_refresh oc ord vals paused ts clock store (root_table v) = Inr (root_table v')"
  using assms by (auto simp: refresh_defs root_sels exec_elims split: RootView.splits)

abbreviation ui_table :: "('ta, 'r) Ui \<Rightarrow> SocketTable" where
  "ui_table ui \<equiv> v_table (root_table (ui_view ui))"

abbreviation present :: "Store \<Rightarrow> Timestamp" where
  "present st \<equiv> ts_ts (last (st_segments st))"

lemma ui_render_table:
  assumes "ui_render oc ord vals tr clock now st ui = Some (Inr (ui', st'))" "\<not> ui_paused ui"
  shows "st_segments st' \<noteq> []"
    "table_collect oc ord vals (present st') clock st' (fv_interpretor (root_fv (ui_view ui))) (ui_table ui)
      = Inr (ui_table ui')"
proof -
  obtain ts where ts: "oldest_timestamp (clock_now clock now) st = Some (Inr (ts, st'))"
    and r: "root_refresh oc ord vals tr False ts clock st' (map_option cf_interpretor (ui_custom_filter ui)) (ui_view ui)
      = Inr (ui_view ui')"
    using assms by (auto simp: ui_render_def exec_elims)
  have "ts = present st'" and ne: "st_segments st' \<noteq> []"
    using ts by (auto simp: oldest_timestamp_def write_deref_def deque_back_def exec_elims split: option.splits if_splits)
  then show "st_segments st' \<noteq> []"
    "table_collect oc ord vals (present st') clock st' (fv_interpretor (root_fv (ui_view ui))) (ui_table ui)
      = Inr (ui_table ui')"
    using root_refresh_table [OF r] by (auto simp: table_refresh_def exec_elims)
qed

text \<open>The collection window, counted back from the present segment.\<close>

lemma takeWhile_descending:
  "sorted_wrt (\<lambda>x y. P y \<longrightarrow> P x) xs \<Longrightarrow> takeWhile P xs = filter P xs"
  by (induction xs) (auto simp: filter_empty_conv)

lemma set_collected:
  assumes "store_inv st"
  shows "set (collected cw ts st) = {s \<in> set (st_segments st). ts - ts_ts s \<le> cw}"
proof -
  have "sorted_wrt (\<lambda>s s'. ts_ts s < ts_ts s') (st_segments st)"
    using store_inv_strict [OF assms] by (simp add: sorted_wrt_map)
  then have "sorted_wrt (\<lambda>s' s. ts_ts s < ts_ts s') (rev (st_segments st))"
    by (simp add: sorted_wrt_rev)
  then have "sorted_wrt (\<lambda>s' s. ts - ts_ts s \<le> cw \<longrightarrow> ts - ts_ts s' \<le> cw) (rev (st_segments st))"
    by (rule sorted_wrt_mono_rel [rotated]) (auto intro: le_trans [OF diff_le_mono2])
  from takeWhile_descending [OF this] show ?thesis
    by (simp add: collected_def saturating_elapsed_since_def set_eq_iff)
qed

lemma distinct_collected: "store_inv st \<Longrightarrow> distinct (map ts_ts (collected cw ts st))"
  using store_inv_distinct [of st] collected_subset [of cw ts st]
  by (auto simp: collected_def distinct_map inj_on_subset)

lemma trunc_present:
  assumes "store_inv st" "st_segments st \<noteq> []"
  shows "trunc (present st) (st_window st) = Inr (present st)"
proof -
  note D = store_invD [OF assms(1)]
  have "st_window st dvd present st \<and> u64_range (present st)"
    using D(5) [of "present st"] last_time_mem [OF assms(2)] by blast
  then show ?thesis using D(1,2) by (simp add: trunc_eq)
qed

section \<open>Sums over windows\<close>

lemma run_target_total:
  "sum_list (map (\<lambda>(t, es). sum_list (map f es)) (run_target w l us)) = sum_list (map f (concat (map snd us)))"
  for f :: "_ \<Rightarrow> Stat"
  by (induction w l us rule: run_target.induct) (simp_all add: Let_def)

text \<open>The total of the table, without filters: the traffic of the updates whose windows are held
  and at most the collection window old.\<close>

abbreviation shown :: "Duration \<Rightarrow> Store \<Rightarrow> nat \<Rightarrow> bool" where
  "shown cw st t \<equiv> t \<in> ts_ts ` set (st_segments st) \<and> present st - t \<le> cw"

lemma table_total_updates:
  assumes inv: "store_inv st" and rep: "represents (timeline_run en w us Timeline_empty) st" and ne: "st_segments st \<noteq> []"
    and perm: "permutes_list ord" "permutes_list vals"
    and run: "table_collect oc ord vals (present st) clock st None tb = Inr tb'" and f: "t_filter tb = NoFilter"
  shows "sum_list (map e_stat (t_dataset tb')) =
    sum_list (map (\<lambda>(t, es). if shown (cfg_collection_window (t_config tb)) st t
                              then sum_list (map (\<lambda>e. msg_weight en e All) es) else 0) (run_target w None us))"
proof -
  let ?cw = "cfg_collection_window (t_config tb)" and ?us = "run_target w None us"
  let ?qs = "collected ?cw (present st) st" and ?W = "\<lambda>b. sum_list (map (\<lambda>e. msg_weight en e All) (snd b))"
  have "stat_of (ts_segment s) All = sum_list (map (\<lambda>b. if fst b = ts_ts s then ?W b else 0) ?us)"
    if "s \<in> set ?qs" for s
  proof -
    have "stat_of (ts_segment s) All = tl_stat (timeline_run en w us Timeline_empty) (ts_ts s) All"
      using rep that collected_subset by (fastforce simp: represents_def split: option.splits)
    then show ?thesis by (simp add: timeline_run_stat Timeline_empty_def case_prod_unfold cong: if_cong)
  qed
  then have "sum_list (map e_stat (t_dataset tb'))
      = sum_list (map (\<lambda>s. sum_list (map (\<lambda>b. if fst b = ts_ts s then ?W b else 0) ?us)) ?qs)"
    using table_collect_total_stat [OF inv perm run f] trunc_present [OF inv ne]
    by (simp cong: map_cong)
  also have "\<dots> = sum_list (map (\<lambda>b. if fst b \<in> ts_ts ` set ?qs then ?W b else 0) ?us)"
    by (rule sum_list_by_key [OF distinct_collected [OF inv]])
  also have "(\<lambda>b. if fst b \<in> ts_ts ` set ?qs then ?W b else 0)
      = (\<lambda>(t, es). if shown ?cw st t then sum_list (map (\<lambda>e. msg_weight en e All) es) else 0)"
    by (rule ext) (auto simp: set_collected [OF inv])
  finally show ?thesis .
qed

text \<open>Nothing waiting, lost or out of sight: the updates shown are the calls.\<close>

lemma all_shown:
  fixes f :: "SockMsgEvent \<Rightarrow> Stat"
  assumes probe: "bounded_map bm valid cache_entries" "valid m" "bm_lookup bm m = Map.empty"
      "card (call_thread ` set (w_calls W)) \<le> cache_entries"
    and reach: "wreach en bm E D (World_init E m cpus st) W"
    and none: "concat (w_buffers W) = []" "w_lost W = []"
    and us: "concat (map snd us) = concat (map snd (w_updates W))"
    and vis: "\<forall>(t, es) \<in> set (run_target w None us). es = [] \<or> vis t"
  shows "sum_list (map (\<lambda>(t, es). if vis t then sum_list (map f es) else 0) (run_target w None us))
    = sum_list (map f (snd (calls_run en (w_calls W))))"
proof -
  note C = conservedD [OF conserved_reach [OF reach]]
  have "pr_events (w_probe W) = snd (calls_run en (w_calls W))"
    using C(1) bounded_map.run_refines [OF probe, of en] by (simp add: bounded_map.tracks_def [OF probe(1)])
  then have "mset (snd (calls_run en (w_calls W))) = mset (concat (map snd us))"
    using C(2) none us by simp
  then have "sum_list (map f (snd (calls_run en (w_calls W)))) = sum_list (map f (concat (map snd us)))"
    by (rule sum_list_mset_cong)
  also have "\<dots> = sum_list (map (\<lambda>(t, es). sum_list (map f es)) (run_target w None us))"
    by (rule run_target_total [symmetric])
  also have "\<dots> = sum_list (map (\<lambda>(t, es). if vis t then sum_list (map f es) else 0) (run_target w None us))"
    using vis by (intro arg_cong [of _ _ sum_list] map_cong) auto
  finally show ?thesis by (rule sym)
qed

section \<open>Properties\<close>


text \<open>The sample run, its event recorded and the screen drawn.\<close>

lemma sample_world_buffers: "w_buffers (sample_world st) = [[sample_event]]" "w_lost (sample_world st) = []"
proof -
  let ?cs = "[Enter sample_context, Leave Tx sample_context]" and ?p = "\<lparr>pr_cache = slot_empty cache_entries, pr_events = []\<rparr>"
  let ?q = "probe_step Little slot_bm (Enter sample_context) ?p"
  have "card (call_thread ` set ?cs) \<le> cache_entries" by (simp add: cache_entries_def)
  then have "pr_events (probe_run Little slot_bm ?cs ?p) = [sample_event]"
    using slots.run_refines [OF slot_ok_empty slot_empty_lookup, where cs = ?cs and en = Little] sample_calls by (simp add: slots.tracks_def)
  then have r: "pr_events (probe_step Little slot_bm (Leave Tx sample_context) ?q) = [sample_event]" by simp
  have q: "pr_events ?q = []" by (simp add: msg_probe_def snd_try_msg split: option.splits sum.splits)
  have "sent Little slot_bm (Enter sample_context) ?p = []" "sent Little slot_bm (Leave Tx sample_context) ?q = [sample_event]"
    using r q by (simp_all add: sent_def del: probe_step.simps)
  then show "w_buffers (sample_world st) = [[sample_event]]" "w_lost (sample_world st) = []"
    by (simp_all add: sample_world_def do_call_def World_init_def del: probe_step.simps)
qed

lemma sample_shown:
  assumes "winv Little E 250000000 n W" "w_updates W = [(10, es), (1000, [])]"
  shows "shown cw (w_store W) 0"
proof -
  have "represents (timeline_run Little 250000000 [(10, es), (1000, [])] Timeline_empty) (w_store W)"
    "st_window (w_store W) = 250000000" using assms by (simp_all add: winv_def)
  then have "times (w_store W) = [0]"
    by (auto simp: represents_def timeline_update_def timeline_record_def timeline_advance_def Timeline_empty_def
        start_def span_def lastn_def)
  then obtain s where "st_segments (w_store W) = [s]" "ts_ts s = 0" by (auto simp: map_eq_Cons_conv)
  then show ?thesis by simp
qed


end
