(* ===== verification/Ui_Draw.thy ===== *)
theory Ui_Draw
  imports Ui_Views
begin

text \<open>
  What the panels draw: \<^verbatim>\<open>ptraf/src/ui/styles.rs\<close>, the footer and the layouts of
  \<^verbatim>\<open>ptraf/src/ui.rs\<close>, the filter line of \<^verbatim>\<open>filter_editor.rs\<close>, the table of \<^verbatim>\<open>socktable.rs\<close>,
  the panels of \<^verbatim>\<open>process_details.rs\<close> and \<^verbatim>\<open>remote_ip_details.rs\<close>, and the columns of the
  graph of \<^verbatim>\<open>traffic_sparkline.rs\<close>. A panel is the value handed to the drawing library:
  its texts, styles and constraints. The library's own work (layout, borders, writing to the
  terminal) is not modelled; floating point numbers are an abstract type with the operations
  used on it.
\<close>

section \<open>Styles\<close>

datatype Color = Red | DarkGray | Yellow | LightGreen | LightRed

record Style =
  fg :: "Color option"
  bg :: "Color option"
  bold :: bool
  reversed :: bool

definition Style_default :: Style where
  "Style_default = \<lparr>fg = None, bg = None, bold = False, reversed = False\<rparr>"

record Span =
  sp_text :: string
  sp_style :: Style

definition label_style :: Style where
  "label_style = Style_default\<lparr>bold := True\<rparr>"

definition label_span :: "string \<Rightarrow> Span" where
  "label_span t = \<lparr>sp_text = t, sp_style = label_style\<rparr>"

definition plain_span :: "string \<Rightarrow> Span" where
  "plain_span t = \<lparr>sp_text = t, sp_style = Style_default\<rparr>"

definition title_style :: Style where
  "title_style = Style_default\<lparr>bold := True, reversed := True\<rparr>"

datatype Constraint = Percentage nat | Length nat | Min nat | Ratio nat nat

section \<open>Footer and layouts\<close>

definition footer_render :: "bool \<Rightarrow> Span" where
  "footer_render paused =
     (if paused then
        \<lparr>sp_text = '' PAUSED (press SpaceBar to run) -- UP/DOWN: k/j, - FILTERS: p (process), r (remote IP) - QUIT/BACK: q'',
         sp_style = Style_default\<lparr>bg := Some Red\<rparr>\<rparr>
      else
        \<lparr>sp_text = '' RUNNING (press SpaceBar to pause) -- UP/DOWN: k/j, - FILTERS: p (process), r (remote IP) - QUIT/BACK: q'',
         sp_style = Style_default\<lparr>bg := Some DarkGray\<rparr>\<rparr>)"

definition ui_layout :: "Constraint list" where
  "ui_layout = [Ratio 9999 10000, Length 1]"

definition main_layout :: "Constraint list" where
  "main_layout = [Percentage 13, Percentage 87]"

definition remote_ip_layout :: "Constraint list" where
  "remote_ip_layout = [Percentage 15, Percentage 15, Percentage 70]"

definition process_layout :: "Constraint list" where
  "process_layout = [Percentage 15, Percentage 15, Percentage 70]"

section \<open>The filter line\<close>

record FilterLook =
  fl_cursor :: Style
  fl_style :: Style
  fl_title :: string

text \<open>\<open>err\<close> is the text of the parse error.\<close>

definition fv_render :: "string \<Rightarrow> 'ta FilterView \<Rightarrow> FilterLook" where
  "fv_render err self =
     (if is_editing self then
        (case draft_interpretor self of
           Some _ \<Rightarrow>
             \<lparr>fl_cursor = Style_default\<lparr>reversed := True\<rparr>, fl_style = Style_default\<lparr>fg := Some LightGreen\<rparr>,
              fl_title = ''OK - accept: Enter abort: Esc''\<rparr>
         | None \<Rightarrow>
             \<lparr>fl_cursor = Style_default\<lparr>reversed := True\<rparr>, fl_style = Style_default\<lparr>fg := Some LightRed\<rparr>,
              fl_title = ''ERROR: '' @ err\<rparr>)
      else
        \<lparr>fl_cursor = Style_default, fl_style = Style_default,
         fl_title = ''Filter (press '' @ [CHR 0x27] @ ''/'' @ [CHR 0x27] @ ''), ex: '' @ [CHR 0x22]
           @ ''udp and (rport[443] or rport[80]) and ipv6'' @ [CHR 0x22]\<rparr>)"

section \<open>The table\<close>

record TableWidget =
  tw_header :: "Span list"
  tw_rows :: "string list list"
  tw_symbol :: string
  tw_highlight :: Style
  tw_widths :: "Constraint list"
  tw_selected :: "nat option"

definition header_cells :: "Span list" where
  "header_cells =
     map (\<lambda>h. \<lparr>sp_text = h, sp_style = Style_default\<lparr>fg := Some Yellow\<rparr>\<rparr>)
       [''local'', ''remote'', ''type'', ''last activity'', ''pid'', ''process'', ''rx/s'', ''tx/s'']"

definition table_widget ::
  "(SocketAddr \<Rightarrow> string) \<Rightarrow> (Duration \<Rightarrow> string) \<Rightarrow> (u64 \<Rightarrow> Duration \<Rightarrow> u64) \<Rightarrow> (u64 \<Rightarrow> string)
    \<Rightarrow> ('p, 'path) Procfs \<Rightarrow> SystemTime \<Rightarrow> 'ta SocketTableView \<Rightarrow> TableWidget" where
  "table_widget show_addr human rate fmt P now self =
     \<lparr>tw_header = header_cells,
      tw_rows = map (row_cells show_addr human rate fmt P now (rate_duration (v_table self))) (t_dataset (v_table self)),
      tw_symbol = ''> '', tw_highlight = Style_default\<lparr>reversed := True\<rparr>,
      tw_widths = [Percentage 22, Percentage 22, Min 10, Percentage 10, Percentage 5, Percentage 11, Percentage 10,
        Percentage 10],
      tw_selected = v_selected self\<rparr>"

definition table_layout :: "nat \<Rightarrow> Constraint list" where
  "table_layout height = [Length 3, Length (height - 3)]"

section \<open>Details\<close>

record Panel =
  pn_title :: Span
  pn_lines :: "Span list list"

definition process_render :: "('p, 'path) Procfs \<Rightarrow> ProcessDetailsView \<Rightarrow> Panel" where
  "process_render P self =
     \<lparr>pn_title = \<lparr>sp_text = process_title self, sp_style = title_style\<rparr>,
      pn_lines = map (\<lambda>l. [label_span (hd l), plain_span (concat (drop 1 l))]) (process_text P self)\<rparr>"

definition remote_ip_panel :: "(StdIpAddr \<Rightarrow> string) \<Rightarrow> string \<Rightarrow> 'r RemoteIpDetailsView \<Rightarrow> Panel" where
  "remote_ip_panel show_addr hostname self =
     \<lparr>pn_title = \<lparr>sp_text = ''remote IP: '' @ show_addr (rv_ip self), sp_style = title_style\<rparr>,
      pn_lines = [[label_span ''hostname: '', plain_span hostname]]\<rparr>"

section \<open>The graph\<close>

text \<open>The operations on \<open>f64\<close>, and \<open>interp::interp\<close>. \<open>from_secs_f64\<close> panics on a value that is
  no duration.\<close>

record 'x Floats =
  fx_zero :: 'x
  fx_of_nat :: "nat \<Rightarrow> 'x"
  fx_add :: "'x \<Rightarrow> 'x \<Rightarrow> 'x"
  fx_mul :: "'x \<Rightarrow> 'x \<Rightarrow> 'x"
  fx_div :: "'x \<Rightarrow> 'x \<Rightarrow> 'x"
  fx_max :: "'x \<Rightarrow> 'x \<Rightarrow> 'x"
  fx_round :: "'x \<Rightarrow> nat"
  fx_u64 :: "'x \<Rightarrow> u64"
  fx_secs :: "Duration \<Rightarrow> 'x"
  fx_from_secs :: "'x \<Rightarrow> Duration exec"
  fx_interp :: "'x list \<Rightarrow> 'x list \<Rightarrow> 'x \<Rightarrow> 'x"

record Graph =
  gr_data :: "u64 list"
  gr_max :: u64

definition sub_usize :: "bool \<Rightarrow> nat \<Rightarrow> nat \<Rightarrow> nat exec" where
  "sub_usize oc a b = (if b \<le> a then Inr (a - b) else if oc then Inl ArithOverflow else Inr (a + 2 ^ 64 - b))"

definition graph_values :: "'x Floats \<Rightarrow> bool \<Rightarrow> 'x \<Rightarrow> DataPoint list \<Rightarrow> 'x list exec" where
  "graph_values F oc window dps =
     rfold (\<lambda>dp vals. rmap (\<lambda>s. vals @ [fx_div F (fx_of_nat F (unat s)) window]) (add_u64 oc (dp_rx dp) (dp_tx dp))) dps []"

definition graph_render :: "'x Floats \<Rightarrow> bool \<Rightarrow> nat \<Rightarrow> Store \<Rightarrow> TrafficSparkline \<Rightarrow> Graph exec" where
  "graph_render F oc width store self =
     (let window = fx_secs F (store_window store) in
      rbind (sub_usize oc (max_capacity store) 1) (\<lambda>c1.
      rbind (fx_from_secs F (fx_div F (fx_mul F window (fx_of_nat F c1)) (fx_of_nat F width))) (\<lambda>output_interval.
      rbind (graph_values F oc window (sp_dataset self)) (\<lambda>vals.
        let input_ts = map (\<lambda>dp. fx_secs F (dp_ts dp)) (sp_dataset self);
            buffer = replicate (width + 1) (fx_zero F);
            buf_len = min (fx_round F (fx_mul F (fx_div F window (fx_secs F output_interval))
                (fx_of_nat F (length (sp_dataset self))))) (length buffer - 1);
            out = interpolate (\<lambda>step s0 idx. fx_add F (fx_mul F step (fx_of_nat F idx)) s0) (fx_interp F)
                input_ts vals (take buf_len buffer) (fx_secs F output_interval) @ drop buf_len buffer;
            m = fold (\<lambda>v m. fx_max F m v) out (fx_zero F);
            data = map (fx_u64 F) out
        in Inr \<lparr>gr_data = take (length data - 1) data, gr_max = fx_u64 F m\<rparr>))))"

section \<open>Properties\<close>

lemma length_interpolate [simp]: "length (interpolate pos itp ts vs buf step) = length buf"
  by (simp add: interpolate_def)

text \<open>The graph is as wide as its panel.\<close>

lemma graph_width:
  assumes "graph_render F oc width store sp = Inr g"
  shows "length (gr_data g) = width"
  using assms by (auto simp: graph_render_def rbind_eq_Inr_iff Let_def)

text \<open>Every row has a cell under each header, and each column a width.\<close>

lemma table_columns:
  "length (tw_widths (table_widget sa hu ra fm P now v)) = length (tw_header (table_widget sa hu ra fm P now v))"
  "cs \<in> set (tw_rows (table_widget sa hu ra fm P now v)) \<Longrightarrow> length cs = length header_cells"
  by (auto simp: table_widget_def header_cells_def row_cells_def Let_def)



end
