(* ===== verification/Kernel_Skb.thy ===== *)
theory Kernel_Skb
  imports Kernel_Bindings
begin

text \<open>
  \<^verbatim>\<open>ptraf-ebpf/src/bindings.rs\<close>, the flags of a socket buffer: the accessors and constructors of
  the bit fields of \<^verbatim>\<open>sk_buff\<close> and of its group of headers
  (\<^verbatim>\<open>sk_buff__bindgen_ty_5__bindgen_ty_1\<close>), which span units of one, two and three bytes.

  The records keep the fields of the two structures that are integers or bit fields; a union
  of integers of one size is kept as one of them. The lemmas show that the accessors of one
  structure are independent, and that the constructors set every flag.
\<close>

section \<open>Structures\<close>

record skb_headers =
  headers_bitfield_1 :: BitfieldUnit
  headers_bitfield_2 :: BitfieldUnit
  tc_index :: u16
  csum :: u32
  priority :: u32
  skb_iif :: i32
  hash :: u32
  vlan_proto :: u16
  vlan_tci :: u16
  napi_id :: u32
  alloc_cpu :: u16
  secmark :: u32
  mark :: u32
  inner_protocol :: u16
  inner_transport_header :: u16
  inner_network_header :: u16
  inner_mac_header :: u16
  protocol :: u16
  transport_header :: u16
  network_header :: u16
  mac_header :: u16

record sk_buff =
  len :: u32
  data_len :: u32
  mac_len :: u16
  hdr_len :: u16
  queue_mapping :: u16
  skb_bitfield_1 :: BitfieldUnit
  active_extensions :: u8
  headers :: skb_headers

definition on_headers1 :: "(BitfieldUnit \<Rightarrow> BitfieldUnit exec) \<Rightarrow> skb_headers \<Rightarrow> skb_headers exec" where
  "on_headers1 f h = rmap (\<lambda>b. h\<lparr>headers_bitfield_1 := b\<rparr>) (f (headers_bitfield_1 h))"

definition on_headers2 :: "(BitfieldUnit \<Rightarrow> BitfieldUnit exec) \<Rightarrow> skb_headers \<Rightarrow> skb_headers exec" where
  "on_headers2 f h = rmap (\<lambda>b. h\<lparr>headers_bitfield_2 := b\<rparr>) (f (headers_bitfield_2 h))"

definition on_skb1 :: "(BitfieldUnit \<Rightarrow> BitfieldUnit exec) \<Rightarrow> sk_buff \<Rightarrow> sk_buff exec" where
  "on_skb1 f s = rmap (\<lambda>b. s\<lparr>skb_bitfield_1 := b\<rparr>) (f (skb_bitfield_1 s))"

text \<open>The constructors set one field after another, each given by its offset, width and value.\<close>

definition set_all :: "endian \<Rightarrow> bool \<Rightarrow> (nat \<times> u8 \<times> u8) list \<Rightarrow> BitfieldUnit \<Rightarrow> BitfieldUnit exec" where
  "set_all en dbg fs u = rfold (\<lambda>(off, w, v). set_u8 en dbg off w v) fs u"

section \<open>Flags of the headers\<close>

definition skb_pkt_type :: "endian \<Rightarrow> bool \<Rightarrow> skb_headers \<Rightarrow> u8 exec" where
  "skb_pkt_type en dbg self = get_u8 en dbg 0 3 (headers_bitfield_1 self)"

definition set_skb_pkt_type :: "endian \<Rightarrow> bool \<Rightarrow> u8 \<Rightarrow> skb_headers \<Rightarrow> skb_headers exec" where
  "set_skb_pkt_type en dbg val self = on_headers1 (set_u8 en dbg 0 3 val) self"

definition skb_ignore_df :: "endian \<Rightarrow> bool \<Rightarrow> skb_headers \<Rightarrow> u8 exec" where
  "skb_ignore_df en dbg self = get_u8 en dbg 3 1 (headers_bitfield_1 self)"

definition set_skb_ignore_df :: "endian \<Rightarrow> bool \<Rightarrow> u8 \<Rightarrow> skb_headers \<Rightarrow> skb_headers exec" where
  "set_skb_ignore_df en dbg val self = on_headers1 (set_u8 en dbg 3 1 val) self"

definition skb_nf_trace :: "endian \<Rightarrow> bool \<Rightarrow> skb_headers \<Rightarrow> u8 exec" where
  "skb_nf_trace en dbg self = get_u8 en dbg 4 1 (headers_bitfield_1 self)"

definition set_skb_nf_trace :: "endian \<Rightarrow> bool \<Rightarrow> u8 \<Rightarrow> skb_headers \<Rightarrow> skb_headers exec" where
  "set_skb_nf_trace en dbg val self = on_headers1 (set_u8 en dbg 4 1 val) self"

definition skb_ip_summed :: "endian \<Rightarrow> bool \<Rightarrow> skb_headers \<Rightarrow> u8 exec" where
  "skb_ip_summed en dbg self = get_u8 en dbg 5 2 (headers_bitfield_1 self)"

definition set_skb_ip_summed :: "endian \<Rightarrow> bool \<Rightarrow> u8 \<Rightarrow> skb_headers \<Rightarrow> skb_headers exec" where
  "set_skb_ip_summed en dbg val self = on_headers1 (set_u8 en dbg 5 2 val) self"

definition skb_ooo_okay :: "endian \<Rightarrow> bool \<Rightarrow> skb_headers \<Rightarrow> u8 exec" where
  "skb_ooo_okay en dbg self = get_u8 en dbg 7 1 (headers_bitfield_1 self)"

definition set_skb_ooo_okay :: "endian \<Rightarrow> bool \<Rightarrow> u8 \<Rightarrow> skb_headers \<Rightarrow> skb_headers exec" where
  "set_skb_ooo_okay en dbg val self = on_headers1 (set_u8 en dbg 7 1 val) self"

definition skb_l4_hash :: "endian \<Rightarrow> bool \<Rightarrow> skb_headers \<Rightarrow> u8 exec" where
  "skb_l4_hash en dbg self = get_u8 en dbg 8 1 (headers_bitfield_1 self)"

definition set_skb_l4_hash :: "endian \<Rightarrow> bool \<Rightarrow> u8 \<Rightarrow> skb_headers \<Rightarrow> skb_headers exec" where
  "set_skb_l4_hash en dbg val self = on_headers1 (set_u8 en dbg 8 1 val) self"

definition skb_sw_hash :: "endian \<Rightarrow> bool \<Rightarrow> skb_headers \<Rightarrow> u8 exec" where
  "skb_sw_hash en dbg self = get_u8 en dbg 9 1 (headers_bitfield_1 self)"

definition set_skb_sw_hash :: "endian \<Rightarrow> bool \<Rightarrow> u8 \<Rightarrow> skb_headers \<Rightarrow> skb_headers exec" where
  "set_skb_sw_hash en dbg val self = on_headers1 (set_u8 en dbg 9 1 val) self"

definition skb_wifi_acked_valid :: "endian \<Rightarrow> bool \<Rightarrow> skb_headers \<Rightarrow> u8 exec" where
  "skb_wifi_acked_valid en dbg self = get_u8 en dbg 10 1 (headers_bitfield_1 self)"

definition set_skb_wifi_acked_valid :: "endian \<Rightarrow> bool \<Rightarrow> u8 \<Rightarrow> skb_headers \<Rightarrow> skb_headers exec" where
  "set_skb_wifi_acked_valid en dbg val self = on_headers1 (set_u8 en dbg 10 1 val) self"

definition skb_wifi_acked :: "endian \<Rightarrow> bool \<Rightarrow> skb_headers \<Rightarrow> u8 exec" where
  "skb_wifi_acked en dbg self = get_u8 en dbg 11 1 (headers_bitfield_1 self)"

definition set_skb_wifi_acked :: "endian \<Rightarrow> bool \<Rightarrow> u8 \<Rightarrow> skb_headers \<Rightarrow> skb_headers exec" where
  "set_skb_wifi_acked en dbg val self = on_headers1 (set_u8 en dbg 11 1 val) self"

definition skb_no_fcs :: "endian \<Rightarrow> bool \<Rightarrow> skb_headers \<Rightarrow> u8 exec" where
  "skb_no_fcs en dbg self = get_u8 en dbg 12 1 (headers_bitfield_1 self)"

definition set_skb_no_fcs :: "endian \<Rightarrow> bool \<Rightarrow> u8 \<Rightarrow> skb_headers \<Rightarrow> skb_headers exec" where
  "set_skb_no_fcs en dbg val self = on_headers1 (set_u8 en dbg 12 1 val) self"

definition skb_encapsulation :: "endian \<Rightarrow> bool \<Rightarrow> skb_headers \<Rightarrow> u8 exec" where
  "skb_encapsulation en dbg self = get_u8 en dbg 13 1 (headers_bitfield_1 self)"

definition set_skb_encapsulation :: "endian \<Rightarrow> bool \<Rightarrow> u8 \<Rightarrow> skb_headers \<Rightarrow> skb_headers exec" where
  "set_skb_encapsulation en dbg val self = on_headers1 (set_u8 en dbg 13 1 val) self"

definition skb_encap_hdr_csum :: "endian \<Rightarrow> bool \<Rightarrow> skb_headers \<Rightarrow> u8 exec" where
  "skb_encap_hdr_csum en dbg self = get_u8 en dbg 14 1 (headers_bitfield_1 self)"

definition set_skb_encap_hdr_csum :: "endian \<Rightarrow> bool \<Rightarrow> u8 \<Rightarrow> skb_headers \<Rightarrow> skb_headers exec" where
  "set_skb_encap_hdr_csum en dbg val self = on_headers1 (set_u8 en dbg 14 1 val) self"

definition skb_csum_valid :: "endian \<Rightarrow> bool \<Rightarrow> skb_headers \<Rightarrow> u8 exec" where
  "skb_csum_valid en dbg self = get_u8 en dbg 15 1 (headers_bitfield_1 self)"

definition set_skb_csum_valid :: "endian \<Rightarrow> bool \<Rightarrow> u8 \<Rightarrow> skb_headers \<Rightarrow> skb_headers exec" where
  "set_skb_csum_valid en dbg val self = on_headers1 (set_u8 en dbg 15 1 val) self"

definition skb_vlan_present :: "endian \<Rightarrow> bool \<Rightarrow> skb_headers \<Rightarrow> u8 exec" where
  "skb_vlan_present en dbg self = get_u8 en dbg 0 1 (headers_bitfield_2 self)"

definition set_skb_vlan_present :: "endian \<Rightarrow> bool \<Rightarrow> u8 \<Rightarrow> skb_headers \<Rightarrow> skb_headers exec" where
  "set_skb_vlan_present en dbg val self = on_headers2 (set_u8 en dbg 0 1 val) self"

definition skb_csum_complete_sw :: "endian \<Rightarrow> bool \<Rightarrow> skb_headers \<Rightarrow> u8 exec" where
  "skb_csum_complete_sw en dbg self = get_u8 en dbg 1 1 (headers_bitfield_2 self)"

definition set_skb_csum_complete_sw :: "endian \<Rightarrow> bool \<Rightarrow> u8 \<Rightarrow> skb_headers \<Rightarrow> skb_headers exec" where
  "set_skb_csum_complete_sw en dbg val self = on_headers2 (set_u8 en dbg 1 1 val) self"

definition skb_csum_level :: "endian \<Rightarrow> bool \<Rightarrow> skb_headers \<Rightarrow> u8 exec" where
  "skb_csum_level en dbg self = get_u8 en dbg 2 2 (headers_bitfield_2 self)"

definition set_skb_csum_level :: "endian \<Rightarrow> bool \<Rightarrow> u8 \<Rightarrow> skb_headers \<Rightarrow> skb_headers exec" where
  "set_skb_csum_level en dbg val self = on_headers2 (set_u8 en dbg 2 2 val) self"

definition skb_dst_pending_confirm :: "endian \<Rightarrow> bool \<Rightarrow> skb_headers \<Rightarrow> u8 exec" where
  "skb_dst_pending_confirm en dbg self = get_u8 en dbg 4 1 (headers_bitfield_2 self)"

definition set_skb_dst_pending_confirm :: "endian \<Rightarrow> bool \<Rightarrow> u8 \<Rightarrow> skb_headers \<Rightarrow> skb_headers exec" where
  "set_skb_dst_pending_confirm en dbg val self = on_headers2 (set_u8 en dbg 4 1 val) self"

definition skb_mono_delivery_time :: "endian \<Rightarrow> bool \<Rightarrow> skb_headers \<Rightarrow> u8 exec" where
  "skb_mono_delivery_time en dbg self = get_u8 en dbg 5 1 (headers_bitfield_2 self)"

definition set_skb_mono_delivery_time :: "endian \<Rightarrow> bool \<Rightarrow> u8 \<Rightarrow> skb_headers \<Rightarrow> skb_headers exec" where
  "set_skb_mono_delivery_time en dbg val self = on_headers2 (set_u8 en dbg 5 1 val) self"

definition skb_tc_skip_classify :: "endian \<Rightarrow> bool \<Rightarrow> skb_headers \<Rightarrow> u8 exec" where
  "skb_tc_skip_classify en dbg self = get_u8 en dbg 6 1 (headers_bitfield_2 self)"

definition set_skb_tc_skip_classify :: "endian \<Rightarrow> bool \<Rightarrow> u8 \<Rightarrow> skb_headers \<Rightarrow> skb_headers exec" where
  "set_skb_tc_skip_classify en dbg val self = on_headers2 (set_u8 en dbg 6 1 val) self"

definition skb_tc_at_ingress :: "endian \<Rightarrow> bool \<Rightarrow> skb_headers \<Rightarrow> u8 exec" where
  "skb_tc_at_ingress en dbg self = get_u8 en dbg 7 1 (headers_bitfield_2 self)"

definition set_skb_tc_at_ingress :: "endian \<Rightarrow> bool \<Rightarrow> u8 \<Rightarrow> skb_headers \<Rightarrow> skb_headers exec" where
  "set_skb_tc_at_ingress en dbg val self = on_headers2 (set_u8 en dbg 7 1 val) self"

definition skb_ndisc_nodetype :: "endian \<Rightarrow> bool \<Rightarrow> skb_headers \<Rightarrow> u8 exec" where
  "skb_ndisc_nodetype en dbg self = get_u8 en dbg 8 2 (headers_bitfield_2 self)"

definition set_skb_ndisc_nodetype :: "endian \<Rightarrow> bool \<Rightarrow> u8 \<Rightarrow> skb_headers \<Rightarrow> skb_headers exec" where
  "set_skb_ndisc_nodetype en dbg val self = on_headers2 (set_u8 en dbg 8 2 val) self"

definition skb_ipvs_property :: "endian \<Rightarrow> bool \<Rightarrow> skb_headers \<Rightarrow> u8 exec" where
  "skb_ipvs_property en dbg self = get_u8 en dbg 10 1 (headers_bitfield_2 self)"

definition set_skb_ipvs_property :: "endian \<Rightarrow> bool \<Rightarrow> u8 \<Rightarrow> skb_headers \<Rightarrow> skb_headers exec" where
  "set_skb_ipvs_property en dbg val self = on_headers2 (set_u8 en dbg 10 1 val) self"

definition skb_inner_protocol_type :: "endian \<Rightarrow> bool \<Rightarrow> skb_headers \<Rightarrow> u8 exec" where
  "skb_inner_protocol_type en dbg self = get_u8 en dbg 11 1 (headers_bitfield_2 self)"

definition set_skb_inner_protocol_type :: "endian \<Rightarrow> bool \<Rightarrow> u8 \<Rightarrow> skb_headers \<Rightarrow> skb_headers exec" where
  "set_skb_inner_protocol_type en dbg val self = on_headers2 (set_u8 en dbg 11 1 val) self"

definition skb_remcsum_offload :: "endian \<Rightarrow> bool \<Rightarrow> skb_headers \<Rightarrow> u8 exec" where
  "skb_remcsum_offload en dbg self = get_u8 en dbg 12 1 (headers_bitfield_2 self)"

definition set_skb_remcsum_offload :: "endian \<Rightarrow> bool \<Rightarrow> u8 \<Rightarrow> skb_headers \<Rightarrow> skb_headers exec" where
  "set_skb_remcsum_offload en dbg val self = on_headers2 (set_u8 en dbg 12 1 val) self"

definition skb_offload_fwd_mark :: "endian \<Rightarrow> bool \<Rightarrow> skb_headers \<Rightarrow> u8 exec" where
  "skb_offload_fwd_mark en dbg self = get_u8 en dbg 13 1 (headers_bitfield_2 self)"

definition set_skb_offload_fwd_mark :: "endian \<Rightarrow> bool \<Rightarrow> u8 \<Rightarrow> skb_headers \<Rightarrow> skb_headers exec" where
  "set_skb_offload_fwd_mark en dbg val self = on_headers2 (set_u8 en dbg 13 1 val) self"

definition skb_offload_l3_fwd_mark :: "endian \<Rightarrow> bool \<Rightarrow> skb_headers \<Rightarrow> u8 exec" where
  "skb_offload_l3_fwd_mark en dbg self = get_u8 en dbg 14 1 (headers_bitfield_2 self)"

definition set_skb_offload_l3_fwd_mark :: "endian \<Rightarrow> bool \<Rightarrow> u8 \<Rightarrow> skb_headers \<Rightarrow> skb_headers exec" where
  "set_skb_offload_l3_fwd_mark en dbg val self = on_headers2 (set_u8 en dbg 14 1 val) self"

definition skb_redirected :: "endian \<Rightarrow> bool \<Rightarrow> skb_headers \<Rightarrow> u8 exec" where
  "skb_redirected en dbg self = get_u8 en dbg 15 1 (headers_bitfield_2 self)"

definition set_skb_redirected :: "endian \<Rightarrow> bool \<Rightarrow> u8 \<Rightarrow> skb_headers \<Rightarrow> skb_headers exec" where
  "set_skb_redirected en dbg val self = on_headers2 (set_u8 en dbg 15 1 val) self"

definition skb_from_ingress :: "endian \<Rightarrow> bool \<Rightarrow> skb_headers \<Rightarrow> u8 exec" where
  "skb_from_ingress en dbg self = get_u8 en dbg 16 1 (headers_bitfield_2 self)"

definition set_skb_from_ingress :: "endian \<Rightarrow> bool \<Rightarrow> u8 \<Rightarrow> skb_headers \<Rightarrow> skb_headers exec" where
  "set_skb_from_ingress en dbg val self = on_headers2 (set_u8 en dbg 16 1 val) self"

definition skb_nf_skip_egress :: "endian \<Rightarrow> bool \<Rightarrow> skb_headers \<Rightarrow> u8 exec" where
  "skb_nf_skip_egress en dbg self = get_u8 en dbg 17 1 (headers_bitfield_2 self)"

definition set_skb_nf_skip_egress :: "endian \<Rightarrow> bool \<Rightarrow> u8 \<Rightarrow> skb_headers \<Rightarrow> skb_headers exec" where
  "set_skb_nf_skip_egress en dbg val self = on_headers2 (set_u8 en dbg 17 1 val) self"

definition skb_decrypted :: "endian \<Rightarrow> bool \<Rightarrow> skb_headers \<Rightarrow> u8 exec" where
  "skb_decrypted en dbg self = get_u8 en dbg 18 1 (headers_bitfield_2 self)"

definition set_skb_decrypted :: "endian \<Rightarrow> bool \<Rightarrow> u8 \<Rightarrow> skb_headers \<Rightarrow> skb_headers exec" where
  "set_skb_decrypted en dbg val self = on_headers2 (set_u8 en dbg 18 1 val) self"

definition skb_slow_gro :: "endian \<Rightarrow> bool \<Rightarrow> skb_headers \<Rightarrow> u8 exec" where
  "skb_slow_gro en dbg self = get_u8 en dbg 19 1 (headers_bitfield_2 self)"

definition set_skb_slow_gro :: "endian \<Rightarrow> bool \<Rightarrow> u8 \<Rightarrow> skb_headers \<Rightarrow> skb_headers exec" where
  "set_skb_slow_gro en dbg val self = on_headers2 (set_u8 en dbg 19 1 val) self"

definition skb_csum_not_inet :: "endian \<Rightarrow> bool \<Rightarrow> skb_headers \<Rightarrow> u8 exec" where
  "skb_csum_not_inet en dbg self = get_u8 en dbg 20 1 (headers_bitfield_2 self)"

definition set_skb_csum_not_inet :: "endian \<Rightarrow> bool \<Rightarrow> u8 \<Rightarrow> skb_headers \<Rightarrow> skb_headers exec" where
  "set_skb_csum_not_inet en dbg val self = on_headers2 (set_u8 en dbg 20 1 val) self"

definition skb_scm_io_uring :: "endian \<Rightarrow> bool \<Rightarrow> skb_headers \<Rightarrow> u8 exec" where
  "skb_scm_io_uring en dbg self = get_u8 en dbg 21 1 (headers_bitfield_2 self)"

definition set_skb_scm_io_uring :: "endian \<Rightarrow> bool \<Rightarrow> u8 \<Rightarrow> skb_headers \<Rightarrow> skb_headers exec" where
  "set_skb_scm_io_uring en dbg val self = on_headers2 (set_u8 en dbg 21 1 val) self"

definition headers_new_bitfield_1 ::
  "endian \<Rightarrow> bool \<Rightarrow>
    u8 \<Rightarrow> u8 \<Rightarrow> u8 \<Rightarrow> u8 \<Rightarrow> u8 \<Rightarrow>
    u8 \<Rightarrow> u8 \<Rightarrow> u8 \<Rightarrow> u8 \<Rightarrow> u8 \<Rightarrow>
    u8 \<Rightarrow> u8 \<Rightarrow> u8 \<Rightarrow> BitfieldUnit exec" where
  "headers_new_bitfield_1 en dbg
     pkt_type ignore_df nf_trace ip_summed ooo_okay l4_hash sw_hash wifi_acked_valid wifi_acked
     no_fcs encapsulation encap_hdr_csum csum_valid =
     set_all en dbg
      [(0, 3, pkt_type), (3, 1, ignore_df), (4, 1, nf_trace), (5, 2, ip_summed),
       (7, 1, ooo_okay), (8, 1, l4_hash), (9, 1, sw_hash), (10, 1, wifi_acked_valid),
       (11, 1, wifi_acked), (12, 1, no_fcs), (13, 1, encapsulation), (14, 1, encap_hdr_csum),
       (15, 1, csum_valid)] (BitfieldUnit_new [0, 0])"

definition headers_new_bitfield_2 ::
  "endian \<Rightarrow> bool \<Rightarrow>
    u8 \<Rightarrow> u8 \<Rightarrow> u8 \<Rightarrow> u8 \<Rightarrow> u8 \<Rightarrow>
    u8 \<Rightarrow> u8 \<Rightarrow> u8 \<Rightarrow> u8 \<Rightarrow> u8 \<Rightarrow>
    u8 \<Rightarrow> u8 \<Rightarrow> u8 \<Rightarrow> u8 \<Rightarrow> u8 \<Rightarrow>
    u8 \<Rightarrow> u8 \<Rightarrow> u8 \<Rightarrow> u8 \<Rightarrow> u8 \<Rightarrow> BitfieldUnit exec" where
  "headers_new_bitfield_2 en dbg
     vlan_present csum_complete_sw csum_level dst_pending_confirm mono_delivery_time
     tc_skip_classify tc_at_ingress ndisc_nodetype ipvs_property inner_protocol_type
     remcsum_offload offload_fwd_mark offload_l3_fwd_mark redirected from_ingress
     nf_skip_egress decrypted slow_gro csum_not_inet scm_io_uring =
     set_all en dbg
      [(0, 1, vlan_present), (1, 1, csum_complete_sw), (2, 2, csum_level),
       (4, 1, dst_pending_confirm), (5, 1, mono_delivery_time), (6, 1, tc_skip_classify),
       (7, 1, tc_at_ingress), (8, 2, ndisc_nodetype), (10, 1, ipvs_property),
       (11, 1, inner_protocol_type), (12, 1, remcsum_offload), (13, 1, offload_fwd_mark),
       (14, 1, offload_l3_fwd_mark), (15, 1, redirected), (16, 1, from_ingress),
       (17, 1, nf_skip_egress), (18, 1, decrypted), (19, 1, slow_gro), (20, 1, csum_not_inet),
       (21, 1, scm_io_uring)] (BitfieldUnit_new [0, 0, 0])"

section \<open>Flags of the buffer\<close>

definition skb_cloned :: "endian \<Rightarrow> bool \<Rightarrow> sk_buff \<Rightarrow> u8 exec" where
  "skb_cloned en dbg self = get_u8 en dbg 0 1 (skb_bitfield_1 self)"

definition set_skb_cloned :: "endian \<Rightarrow> bool \<Rightarrow> u8 \<Rightarrow> sk_buff \<Rightarrow> sk_buff exec" where
  "set_skb_cloned en dbg val self = on_skb1 (set_u8 en dbg 0 1 val) self"

definition skb_nohdr :: "endian \<Rightarrow> bool \<Rightarrow> sk_buff \<Rightarrow> u8 exec" where
  "skb_nohdr en dbg self = get_u8 en dbg 1 1 (skb_bitfield_1 self)"

definition set_skb_nohdr :: "endian \<Rightarrow> bool \<Rightarrow> u8 \<Rightarrow> sk_buff \<Rightarrow> sk_buff exec" where
  "set_skb_nohdr en dbg val self = on_skb1 (set_u8 en dbg 1 1 val) self"

definition skb_fclone :: "endian \<Rightarrow> bool \<Rightarrow> sk_buff \<Rightarrow> u8 exec" where
  "skb_fclone en dbg self = get_u8 en dbg 2 2 (skb_bitfield_1 self)"

definition set_skb_fclone :: "endian \<Rightarrow> bool \<Rightarrow> u8 \<Rightarrow> sk_buff \<Rightarrow> sk_buff exec" where
  "set_skb_fclone en dbg val self = on_skb1 (set_u8 en dbg 2 2 val) self"

definition skb_peeked :: "endian \<Rightarrow> bool \<Rightarrow> sk_buff \<Rightarrow> u8 exec" where
  "skb_peeked en dbg self = get_u8 en dbg 4 1 (skb_bitfield_1 self)"

definition set_skb_peeked :: "endian \<Rightarrow> bool \<Rightarrow> u8 \<Rightarrow> sk_buff \<Rightarrow> sk_buff exec" where
  "set_skb_peeked en dbg val self = on_skb1 (set_u8 en dbg 4 1 val) self"

definition skb_head_frag :: "endian \<Rightarrow> bool \<Rightarrow> sk_buff \<Rightarrow> u8 exec" where
  "skb_head_frag en dbg self = get_u8 en dbg 5 1 (skb_bitfield_1 self)"

definition set_skb_head_frag :: "endian \<Rightarrow> bool \<Rightarrow> u8 \<Rightarrow> sk_buff \<Rightarrow> sk_buff exec" where
  "set_skb_head_frag en dbg val self = on_skb1 (set_u8 en dbg 5 1 val) self"

definition skb_pfmemalloc :: "endian \<Rightarrow> bool \<Rightarrow> sk_buff \<Rightarrow> u8 exec" where
  "skb_pfmemalloc en dbg self = get_u8 en dbg 6 1 (skb_bitfield_1 self)"

definition set_skb_pfmemalloc :: "endian \<Rightarrow> bool \<Rightarrow> u8 \<Rightarrow> sk_buff \<Rightarrow> sk_buff exec" where
  "set_skb_pfmemalloc en dbg val self = on_skb1 (set_u8 en dbg 6 1 val) self"

definition skb_pp_recycle :: "endian \<Rightarrow> bool \<Rightarrow> sk_buff \<Rightarrow> u8 exec" where
  "skb_pp_recycle en dbg self = get_u8 en dbg 7 1 (skb_bitfield_1 self)"

definition set_skb_pp_recycle :: "endian \<Rightarrow> bool \<Rightarrow> u8 \<Rightarrow> sk_buff \<Rightarrow> sk_buff exec" where
  "set_skb_pp_recycle en dbg val self = on_skb1 (set_u8 en dbg 7 1 val) self"

definition skb_new_bitfield_1 ::
  "endian \<Rightarrow> bool \<Rightarrow>
    u8 \<Rightarrow> u8 \<Rightarrow> u8 \<Rightarrow> u8 \<Rightarrow> u8 \<Rightarrow>
    u8 \<Rightarrow> u8 \<Rightarrow> BitfieldUnit exec" where
  "skb_new_bitfield_1 en dbg
     cloned nohdr fclone peeked head_frag pfmemalloc pp_recycle =
     set_all en dbg
      [(0, 1, cloned), (1, 1, nohdr), (2, 2, fclone), (4, 1, peeked), (5, 1, head_frag),
       (6, 1, pfmemalloc), (7, 1, pp_recycle)] (BitfieldUnit_new [0])"

section \<open>Independence of the accessors\<close>

text \<open>Fields of a unit of \<open>n\<close> bytes, in ascending order and without overlap.\<close>

definition packed :: "nat \<Rightarrow> (nat \<times> u8) list \<Rightarrow> bool" where
  "packed n fs \<longleftrightarrow> sorted_wrt (\<lambda>(o1, w1) (o2, w2). o1 + unat w1 \<le> o2) fs
     \<and> list_all (\<lambda>(off, w). 0 < unat w \<and> unat w \<le> 64 \<and> off + unat w \<le> 8 * n) fs"

abbreviation apart :: "nat \<Rightarrow> u8 \<Rightarrow> nat \<Rightarrow> u8 \<Rightarrow> bool" where
  "apart o1 w1 o2 w2 \<equiv> o1 + unat w1 \<le> o2 \<or> o2 + unat w2 \<le> o1"

lemma packed_fits:
  assumes "packed n fs" "(off, w) \<in> set fs" "length (storage u) = n"
  shows "field_fits u off w"
  using assms by (auto simp: packed_def field_fits_def list_all_iff)

lemma packed_apart:
  assumes "packed n fs" "i < length fs" "j < length fs" "i \<noteq> j"
  shows "apart (fst (fs ! i)) (snd (fs ! i)) (fst (fs ! j)) (snd (fs ! j))"
  using assms by (cases "i < j") (auto simp: packed_def sorted_wrt_iff_nth_less case_prod_unfold)

lemma set_u8_frame:
  assumes "field_fits u off w" "field_fits u off' w'" "apart off w off' w'" "set_u8 en dbg off w v u = Inr u'"
  shows "get_u8 en dbg off' w' u' = get_u8 en dbg off' w' u"
  using get_set_other_field [OF assms(1-3), of en dbg "ucast v"] assms(4)
  by (simp add: set_u8_def get_u8_def)

lemma set_u8_reads:
  assumes "field_fits u off w"
  obtains u' where "set_u8 en dbg off w v u = Inr u'" "length (storage u') = length (storage u)"
    "get_u8 en dbg off w u' = Inr (take_bit (unat w) v)"
  using get_set_u8 [OF assms, of en dbg v] that by auto

text \<open>Setting fields that do not overlap leaves each with the value given for it.\<close>

lemma set_all_reads:
  assumes "packed (length (storage u)) (map (\<lambda>(off, w, v). (off, w)) fs)"
  shows "\<exists>u'. set_all en dbg fs u = Inr u' \<and> length (storage u') = length (storage u)
    \<and> (\<forall>(off, w, v) \<in> set fs. get_u8 en dbg off w u' = Inr (take_bit (unat w) v))
    \<and> (\<forall>off w. field_fits u off w \<and> (\<forall>(o1, w1, v) \<in> set fs. apart o1 w1 off w)
         \<longrightarrow> get_u8 en dbg off w u' = get_u8 en dbg off w u)"
  using assms
proof (induction fs arbitrary: u)
  case Nil
  then show ?case by (simp add: set_all_def)
next
  case (Cons f fs)
  obtain off w v where f: "f = (off, w, v)" by (cases f)
  have fits: "field_fits u off w" using packed_fits [OF Cons.prems] f by simp
  obtain u1 where u1: "set_u8 en dbg off w v u = Inr u1" "length (storage u1) = length (storage u)"
    "get_u8 en dbg off w u1 = Inr (take_bit (unat w) v)"
    using set_u8_reads [OF fits, of en dbg v] by blast
  have ap: "apart o1 w1 off w" if "(o1, w1, v1) \<in> set fs" for o1 w1 v1
    using Cons.prems f that by (force simp: packed_def)
  have "packed (length (storage u1)) (map (\<lambda>(off, w, v). (off, w)) fs)"
    using Cons.prems f u1(2) by (simp add: packed_def)
  from Cons.IH [OF this] obtain u' where u': "set_all en dbg fs u1 = Inr u'"
    "length (storage u') = length (storage u1)"
    "\<forall>(off, w, v) \<in> set fs. get_u8 en dbg off w u' = Inr (take_bit (unat w) v)"
    "\<And>off w. field_fits u1 off w \<Longrightarrow> \<forall>(o1, w1, v) \<in> set fs. apart o1 w1 off w
         \<Longrightarrow> get_u8 en dbg off w u' = get_u8 en dbg off w u1" by blast
  have "get_u8 en dbg off w u' = Inr (take_bit (unat w) v)"
    using u'(4) [of off w] ap fits u1(2,3) by (force simp: field_fits_def)
  moreover have "get_u8 en dbg off2 w2 u' = get_u8 en dbg off2 w2 u"
    if "field_fits u off2 w2" "\<forall>(o1, w1, v) \<in> set (f # fs). apart o1 w1 off2 w2" for off2 w2
    using u'(4) [of off2 w2] set_u8_frame [OF fits that(1) _ u1(1)] that u1(2) f
    by (auto simp: field_fits_def)
  ultimately show ?case using f u1(1,2) u'(1,2,3) by (auto simp: set_all_def)
qed

lemma set_all_new:
  assumes "packed (length s) (map (\<lambda>(off, w, v). (off, w)) fs)"
    and "\<And>u. \<forall>(off, w, v) \<in> set fs. get_u8 en dbg off w u = Inr (take_bit (unat w) v) \<Longrightarrow> P u"
  shows "\<exists>u. set_all en dbg fs (BitfieldUnit_new s) = Inr u \<and> P u"
  using set_all_reads [of "BitfieldUnit_new s" fs en dbg] assms by (auto simp: BitfieldUnit_new_def)

type_synonym 's accessor = "('s \<Rightarrow> u8 exec) \<times> (u8 \<Rightarrow> 's \<Rightarrow> 's exec) \<times> nat \<times> u8"

text \<open>A structure with a bit-field unit: its unit can be read and replaced.\<close>

locale flag_bank =
  fixes unit_of :: "'s \<Rightarrow> BitfieldUnit" and put_unit :: "BitfieldUnit \<Rightarrow> 's \<Rightarrow> 's"
    and on_unit :: "(BitfieldUnit \<Rightarrow> BitfieldUnit exec) \<Rightarrow> 's \<Rightarrow> 's exec"
  assumes unit_put: "unit_of (put_unit u s) = u"
    and on_unit: "on_unit f s = rmap (\<lambda>b. put_unit b s) (f (unit_of s))"
begin

definition accessor_at :: "endian \<Rightarrow> bool \<Rightarrow> 's accessor \<Rightarrow> bool" where
  "accessor_at en dbg = (\<lambda>(getter, setter, off, w).
     getter = (\<lambda>s. get_u8 en dbg off w (unit_of s)) \<and> setter = (\<lambda>v. on_unit (set_u8 en dbg off w v)))"

lemma accessors_independent:
  assumes T: "list_all (accessor_at en dbg) T" "packed n (map (\<lambda>(g, s, off, w). (off, w)) T)"
    and n: "length (storage (unit_of s)) = n" and ij: "i < length T" "j < length T"
    and Ti: "T ! i = (gi, si, oi, wi)" and Tj: "T ! j = (gj, sj, oj, wj)"
  shows "\<exists>s'. si v s = Inr s' \<and> length (storage (unit_of s')) = n
    \<and> gj s' = (if i = j then Inr (take_bit (unat wi) v) else gj s)"
proof -
  have acc: "accessor_at en dbg (T ! i)" "accessor_at en dbg (T ! j)"
    using T(1) ij by (simp_all add: list_all_length)
  have mem: "(oi, wi) \<in> set (map (\<lambda>(g, s, off, w). (off, w)) T)" "(oj, wj) \<in> set (map (\<lambda>(g, s, off, w). (off, w)) T)"
    using nth_mem [OF ij(1)] nth_mem [OF ij(2)] Ti Tj by force+
  note fits = packed_fits [OF T(2) mem(1) n] packed_fits [OF T(2) mem(2) n]
  obtain u' where u': "set_u8 en dbg oi wi v (unit_of s) = Inr u'" "length (storage u') = n"
    "get_u8 en dbg oi wi u' = Inr (take_bit (unat wi) v)"
    using set_u8_reads [OF fits(1), of en dbg v] n by metis
  have "get_u8 en dbg oj wj u' = get_u8 en dbg oj wj (unit_of s)" if "i \<noteq> j"
    using packed_apart [OF T(2), of i j] ij that Ti Tj set_u8_frame [OF fits _ u'(1)] by simp
  then show ?thesis
    using acc Ti Tj u' by (auto simp: accessor_at_def on_unit unit_put)
qed

end

interpretation headers1: flag_bank headers_bitfield_1 "\<lambda>u h. h\<lparr>headers_bitfield_1 := u\<rparr>" on_headers1
  by unfold_locales (simp_all add: on_headers1_def)

interpretation headers2: flag_bank headers_bitfield_2 "\<lambda>u h. h\<lparr>headers_bitfield_2 := u\<rparr>" on_headers2
  by unfold_locales (simp_all add: on_headers2_def)

interpretation skb1: flag_bank skb_bitfield_1 "\<lambda>u s. s\<lparr>skb_bitfield_1 := u\<rparr>" on_skb1
  by unfold_locales (simp_all add: on_skb1_def)

text \<open>The accessors of each unit, with the offset and width of their field.\<close>

definition headers_flags_1 :: "endian \<Rightarrow> bool \<Rightarrow> skb_headers accessor list" where
  "headers_flags_1 en dbg =
   [(skb_pkt_type en dbg, set_skb_pkt_type en dbg, 0, 3),
    (skb_ignore_df en dbg, set_skb_ignore_df en dbg, 3, 1),
    (skb_nf_trace en dbg, set_skb_nf_trace en dbg, 4, 1),
    (skb_ip_summed en dbg, set_skb_ip_summed en dbg, 5, 2),
    (skb_ooo_okay en dbg, set_skb_ooo_okay en dbg, 7, 1),
    (skb_l4_hash en dbg, set_skb_l4_hash en dbg, 8, 1),
    (skb_sw_hash en dbg, set_skb_sw_hash en dbg, 9, 1),
    (skb_wifi_acked_valid en dbg, set_skb_wifi_acked_valid en dbg, 10, 1),
    (skb_wifi_acked en dbg, set_skb_wifi_acked en dbg, 11, 1),
    (skb_no_fcs en dbg, set_skb_no_fcs en dbg, 12, 1),
    (skb_encapsulation en dbg, set_skb_encapsulation en dbg, 13, 1),
    (skb_encap_hdr_csum en dbg, set_skb_encap_hdr_csum en dbg, 14, 1),
    (skb_csum_valid en dbg, set_skb_csum_valid en dbg, 15, 1)]"

definition headers_flags_2 :: "endian \<Rightarrow> bool \<Rightarrow> skb_headers accessor list" where
  "headers_flags_2 en dbg =
   [(skb_vlan_present en dbg, set_skb_vlan_present en dbg, 0, 1),
    (skb_csum_complete_sw en dbg, set_skb_csum_complete_sw en dbg, 1, 1),
    (skb_csum_level en dbg, set_skb_csum_level en dbg, 2, 2),
    (skb_dst_pending_confirm en dbg, set_skb_dst_pending_confirm en dbg, 4, 1),
    (skb_mono_delivery_time en dbg, set_skb_mono_delivery_time en dbg, 5, 1),
    (skb_tc_skip_classify en dbg, set_skb_tc_skip_classify en dbg, 6, 1),
    (skb_tc_at_ingress en dbg, set_skb_tc_at_ingress en dbg, 7, 1),
    (skb_ndisc_nodetype en dbg, set_skb_ndisc_nodetype en dbg, 8, 2),
    (skb_ipvs_property en dbg, set_skb_ipvs_property en dbg, 10, 1),
    (skb_inner_protocol_type en dbg, set_skb_inner_protocol_type en dbg, 11, 1),
    (skb_remcsum_offload en dbg, set_skb_remcsum_offload en dbg, 12, 1),
    (skb_offload_fwd_mark en dbg, set_skb_offload_fwd_mark en dbg, 13, 1),
    (skb_offload_l3_fwd_mark en dbg, set_skb_offload_l3_fwd_mark en dbg, 14, 1),
    (skb_redirected en dbg, set_skb_redirected en dbg, 15, 1),
    (skb_from_ingress en dbg, set_skb_from_ingress en dbg, 16, 1),
    (skb_nf_skip_egress en dbg, set_skb_nf_skip_egress en dbg, 17, 1),
    (skb_decrypted en dbg, set_skb_decrypted en dbg, 18, 1),
    (skb_slow_gro en dbg, set_skb_slow_gro en dbg, 19, 1),
    (skb_csum_not_inet en dbg, set_skb_csum_not_inet en dbg, 20, 1),
    (skb_scm_io_uring en dbg, set_skb_scm_io_uring en dbg, 21, 1)]"

definition skb_flags_1 :: "endian \<Rightarrow> bool \<Rightarrow> sk_buff accessor list" where
  "skb_flags_1 en dbg =
   [(skb_cloned en dbg, set_skb_cloned en dbg, 0, 1),
    (skb_nohdr en dbg, set_skb_nohdr en dbg, 1, 1),
    (skb_fclone en dbg, set_skb_fclone en dbg, 2, 2),
    (skb_peeked en dbg, set_skb_peeked en dbg, 4, 1),
    (skb_head_frag en dbg, set_skb_head_frag en dbg, 5, 1),
    (skb_pfmemalloc en dbg, set_skb_pfmemalloc en dbg, 6, 1),
    (skb_pp_recycle en dbg, set_skb_pp_recycle en dbg, 7, 1)]"

lemmas headers1_defs =
  skb_pkt_type_def [abs_def] set_skb_pkt_type_def [abs_def] skb_ignore_df_def [abs_def]
  set_skb_ignore_df_def [abs_def] skb_nf_trace_def [abs_def] set_skb_nf_trace_def [abs_def]
  skb_ip_summed_def [abs_def] set_skb_ip_summed_def [abs_def] skb_ooo_okay_def [abs_def]
  set_skb_ooo_okay_def [abs_def] skb_l4_hash_def [abs_def] set_skb_l4_hash_def [abs_def]
  skb_sw_hash_def [abs_def] set_skb_sw_hash_def [abs_def] skb_wifi_acked_valid_def [abs_def]
  set_skb_wifi_acked_valid_def [abs_def] skb_wifi_acked_def [abs_def]
  set_skb_wifi_acked_def [abs_def] skb_no_fcs_def [abs_def] set_skb_no_fcs_def [abs_def]
  skb_encapsulation_def [abs_def] set_skb_encapsulation_def [abs_def]
  skb_encap_hdr_csum_def [abs_def] set_skb_encap_hdr_csum_def [abs_def]
  skb_csum_valid_def [abs_def] set_skb_csum_valid_def [abs_def]

lemmas headers2_defs =
  skb_vlan_present_def [abs_def] set_skb_vlan_present_def [abs_def]
  skb_csum_complete_sw_def [abs_def] set_skb_csum_complete_sw_def [abs_def]
  skb_csum_level_def [abs_def] set_skb_csum_level_def [abs_def]
  skb_dst_pending_confirm_def [abs_def] set_skb_dst_pending_confirm_def [abs_def]
  skb_mono_delivery_time_def [abs_def] set_skb_mono_delivery_time_def [abs_def]
  skb_tc_skip_classify_def [abs_def] set_skb_tc_skip_classify_def [abs_def]
  skb_tc_at_ingress_def [abs_def] set_skb_tc_at_ingress_def [abs_def]
  skb_ndisc_nodetype_def [abs_def] set_skb_ndisc_nodetype_def [abs_def]
  skb_ipvs_property_def [abs_def] set_skb_ipvs_property_def [abs_def]
  skb_inner_protocol_type_def [abs_def] set_skb_inner_protocol_type_def [abs_def]
  skb_remcsum_offload_def [abs_def] set_skb_remcsum_offload_def [abs_def]
  skb_offload_fwd_mark_def [abs_def] set_skb_offload_fwd_mark_def [abs_def]
  skb_offload_l3_fwd_mark_def [abs_def] set_skb_offload_l3_fwd_mark_def [abs_def]
  skb_redirected_def [abs_def] set_skb_redirected_def [abs_def] skb_from_ingress_def [abs_def]
  set_skb_from_ingress_def [abs_def] skb_nf_skip_egress_def [abs_def]
  set_skb_nf_skip_egress_def [abs_def] skb_decrypted_def [abs_def]
  set_skb_decrypted_def [abs_def] skb_slow_gro_def [abs_def] set_skb_slow_gro_def [abs_def]
  skb_csum_not_inet_def [abs_def] set_skb_csum_not_inet_def [abs_def]
  skb_scm_io_uring_def [abs_def] set_skb_scm_io_uring_def [abs_def]

lemmas skb1_defs =
  skb_cloned_def [abs_def] set_skb_cloned_def [abs_def] skb_nohdr_def [abs_def]
  set_skb_nohdr_def [abs_def] skb_fclone_def [abs_def] set_skb_fclone_def [abs_def]
  skb_peeked_def [abs_def] set_skb_peeked_def [abs_def] skb_head_frag_def [abs_def]
  set_skb_head_frag_def [abs_def] skb_pfmemalloc_def [abs_def] set_skb_pfmemalloc_def [abs_def]
  skb_pp_recycle_def [abs_def] set_skb_pp_recycle_def [abs_def]

lemma headers_flags_1_packed: "list_all (headers1.accessor_at en dbg) (headers_flags_1 en dbg)"
  "packed 2 (map (\<lambda>(g, s, off, w). (off, w)) (headers_flags_1 en dbg))"
  by (simp_all add: headers_flags_1_def headers1.accessor_at_def headers1_defs packed_def)

lemmas headers_flags_1_independent = headers1.accessors_independent [OF headers_flags_1_packed]

lemma headers_flags_2_packed: "list_all (headers2.accessor_at en dbg) (headers_flags_2 en dbg)"
  "packed 3 (map (\<lambda>(g, s, off, w). (off, w)) (headers_flags_2 en dbg))"
  by (simp_all add: headers_flags_2_def headers2.accessor_at_def headers2_defs packed_def)

lemmas headers_flags_2_independent = headers2.accessors_independent [OF headers_flags_2_packed]

lemma skb_flags_1_packed: "list_all (skb1.accessor_at en dbg) (skb_flags_1 en dbg)"
  "packed 1 (map (\<lambda>(g, s, off, w). (off, w)) (skb_flags_1 en dbg))"
  by (simp_all add: skb_flags_1_def skb1.accessor_at_def skb1_defs packed_def)

lemmas skb_flags_1_independent = skb1.accessors_independent [OF skb_flags_1_packed]

lemma skb_flags_1_read_back:
  "\<exists>u. skb_new_bitfield_1 en dbg
      cloned nohdr fclone peeked head_frag pfmemalloc pp_recycle = Inr u
    \<and> (\<forall>h. skb_bitfield_1 h = u \<longrightarrow>
        map (\<lambda>g. g en dbg h)
          [skb_cloned, skb_nohdr, skb_fclone, skb_peeked, skb_head_frag, skb_pfmemalloc,
           skb_pp_recycle] =
        map Inr
          [take_bit 1 cloned, take_bit 1 nohdr, take_bit 2 fclone, take_bit 1 peeked,
           take_bit 1 head_frag, take_bit 1 pfmemalloc, take_bit 1 pp_recycle])"
  unfolding skb_new_bitfield_1_def by (rule set_all_new) (simp_all add: packed_def skb1_defs)

lemma headers_flags_1_read_back:
  "\<exists>u. headers_new_bitfield_1 en dbg
      pkt_type ignore_df nf_trace ip_summed ooo_okay l4_hash sw_hash wifi_acked_valid wifi_acked
      no_fcs encapsulation encap_hdr_csum csum_valid = Inr u
    \<and> (\<forall>h. headers_bitfield_1 h = u \<longrightarrow>
        map (\<lambda>g. g en dbg h)
          [skb_pkt_type, skb_ignore_df, skb_nf_trace, skb_ip_summed, skb_ooo_okay, skb_l4_hash,
           skb_sw_hash, skb_wifi_acked_valid, skb_wifi_acked, skb_no_fcs, skb_encapsulation,
           skb_encap_hdr_csum, skb_csum_valid] =
        map Inr
          [take_bit 3 pkt_type, take_bit 1 ignore_df, take_bit 1 nf_trace, take_bit 2 ip_summed,
           take_bit 1 ooo_okay, take_bit 1 l4_hash, take_bit 1 sw_hash,
           take_bit 1 wifi_acked_valid, take_bit 1 wifi_acked, take_bit 1 no_fcs,
           take_bit 1 encapsulation, take_bit 1 encap_hdr_csum, take_bit 1 csum_valid])"
  unfolding headers_new_bitfield_1_def by (rule set_all_new) (simp_all add: packed_def headers1_defs)

lemma headers_flags_2_read_back:
  "\<exists>u. headers_new_bitfield_2 en dbg
      vlan_present csum_complete_sw csum_level dst_pending_confirm mono_delivery_time
      tc_skip_classify tc_at_ingress ndisc_nodetype ipvs_property inner_protocol_type
      remcsum_offload offload_fwd_mark offload_l3_fwd_mark redirected from_ingress nf_skip_egress
      decrypted slow_gro csum_not_inet scm_io_uring = Inr u
    \<and> (\<forall>h. headers_bitfield_2 h = u \<longrightarrow>
        map (\<lambda>g. g en dbg h)
          [skb_vlan_present, skb_csum_complete_sw, skb_csum_level, skb_dst_pending_confirm,
           skb_mono_delivery_time, skb_tc_skip_classify, skb_tc_at_ingress, skb_ndisc_nodetype,
           skb_ipvs_property, skb_inner_protocol_type, skb_remcsum_offload, skb_offload_fwd_mark,
           skb_offload_l3_fwd_mark, skb_redirected, skb_from_ingress, skb_nf_skip_egress,
           skb_decrypted, skb_slow_gro, skb_csum_not_inet, skb_scm_io_uring] =
        map Inr
          [take_bit 1 vlan_present, take_bit 1 csum_complete_sw, take_bit 2 csum_level,
           take_bit 1 dst_pending_confirm, take_bit 1 mono_delivery_time,
           take_bit 1 tc_skip_classify, take_bit 1 tc_at_ingress, take_bit 2 ndisc_nodetype,
           take_bit 1 ipvs_property, take_bit 1 inner_protocol_type, take_bit 1 remcsum_offload,
           take_bit 1 offload_fwd_mark, take_bit 1 offload_l3_fwd_mark, take_bit 1 redirected,
           take_bit 1 from_ingress, take_bit 1 nf_skip_egress, take_bit 1 decrypted,
           take_bit 1 slow_gro, take_bit 1 csum_not_inet, take_bit 1 scm_io_uring])"
  unfolding headers_new_bitfield_2_def by (rule set_all_new) (simp_all add: packed_def headers2_defs)

section \<open>The flags of sockets\<close>

text \<open>The units of \<^verbatim>\<open>sock_common\<close> and \<^verbatim>\<open>sock\<close>, in the same way.\<close>

interpretation skc: flag_bank skc_bitfield_1 "\<lambda>u s. s\<lparr>skc_bitfield_1 := u\<rparr>" on_skc1
  by unfold_locales (simp_all add: on_skc1_def)

definition skc_flags_1 :: "endian \<Rightarrow> bool \<Rightarrow> sock_common accessor list" where
  "skc_flags_1 en dbg =
   [(skc_reuse en dbg, set_skc_reuse en dbg, 0, 4),
    (skc_reuseport en dbg, set_skc_reuseport en dbg, 4, 1),
    (skc_ipv6only en dbg, set_skc_ipv6only en dbg, 5, 1),
    (skc_net_refcnt en dbg, set_skc_net_refcnt en dbg, 6, 1)]"

lemmas skc_defs =
  skc_reuse_def [abs_def] set_skc_reuse_def [abs_def] skc_reuseport_def [abs_def]
  set_skc_reuseport_def [abs_def] skc_ipv6only_def [abs_def] set_skc_ipv6only_def [abs_def]
  skc_net_refcnt_def [abs_def] set_skc_net_refcnt_def [abs_def]

lemma skc_flags_1_packed: "list_all (skc.accessor_at en dbg) (skc_flags_1 en dbg)"
  "packed 1 (map (\<lambda>(g, s, off, w). (off, w)) (skc_flags_1 en dbg))"
  by (simp_all add: skc_flags_1_def skc.accessor_at_def skc_defs packed_def)

lemmas skc_flags_1_independent = skc.accessors_independent [OF skc_flags_1_packed]

lemma skc_flags_1_read_back:
  "\<exists>u. skc_new_bitfield_1 en dbg reuse reuseport ipv6only net_refcnt = Inr u
    \<and> (\<forall>s. skc_bitfield_1 s = u \<longrightarrow>
        map (\<lambda>g. g en dbg s) [skc_reuse, skc_reuseport, skc_ipv6only, skc_net_refcnt] =
        map Inr [take_bit 4 reuse, take_bit 1 reuseport, take_bit 1 ipv6only, take_bit 1 net_refcnt])"
proof -
  have "skc_new_bitfield_1 en dbg reuse reuseport ipv6only net_refcnt =
      set_all en dbg [(0, 4, reuse), (4, 1, reuseport), (5, 1, ipv6only), (6, 1, net_refcnt)] (BitfieldUnit_new [0])"
    by (simp add: skc_new_bitfield_1_def set_all_def rbind_def split: sum.split)
  then show ?thesis
    by (simp only:) (rule set_all_new; simp add: packed_def skc_defs)
qed

interpretation sk1: flag_bank sk_bitfield_1 "\<lambda>u s. s\<lparr>sk_bitfield_1 := u\<rparr>" on_sk1
  by unfold_locales (simp_all add: on_sk1_def)

definition sk_flags_1 :: "endian \<Rightarrow> bool \<Rightarrow> sock accessor list" where
  "sk_flags_1 en dbg =
   [(sk_gso_disabled en dbg, set_sk_gso_disabled en dbg, 0, 1),
    (sk_kern_sock en dbg, set_sk_kern_sock en dbg, 1, 1),
    (sk_no_check_tx en dbg, set_sk_no_check_tx en dbg, 2, 1),
    (sk_no_check_rx en dbg, set_sk_no_check_rx en dbg, 3, 1),
    (sk_userlocks en dbg, set_sk_userlocks en dbg, 4, 4)]"

lemmas sk1_defs =
  sk_gso_disabled_def [abs_def] set_sk_gso_disabled_def [abs_def] sk_kern_sock_def [abs_def]
  set_sk_kern_sock_def [abs_def] sk_no_check_tx_def [abs_def] set_sk_no_check_tx_def [abs_def]
  sk_no_check_rx_def [abs_def] set_sk_no_check_rx_def [abs_def] sk_userlocks_def [abs_def]
  set_sk_userlocks_def [abs_def]

lemma sk_flags_1_packed: "list_all (sk1.accessor_at en dbg) (sk_flags_1 en dbg)"
  "packed 1 (map (\<lambda>(g, s, off, w). (off, w)) (sk_flags_1 en dbg))"
  by (simp_all add: sk_flags_1_def sk1.accessor_at_def sk1_defs packed_def)

lemmas sk_flags_1_independent = sk1.accessors_independent [OF sk_flags_1_packed]

lemma sk_flags_1_read_back:
  "\<exists>u. sk_new_bitfield_1 en dbg gso_disabled kern_sock no_check_tx no_check_rx userlocks = Inr u
    \<and> (\<forall>s. sk_bitfield_1 s = u \<longrightarrow>
        map (\<lambda>g. g en dbg s) [sk_gso_disabled, sk_kern_sock, sk_no_check_tx, sk_no_check_rx, sk_userlocks] =
        map Inr [take_bit 1 gso_disabled, take_bit 1 kern_sock, take_bit 1 no_check_tx, take_bit 1 no_check_rx, take_bit 4 userlocks])"
proof -
  have "sk_new_bitfield_1 en dbg gso_disabled kern_sock no_check_tx no_check_rx userlocks =
      set_all en dbg [(0, 1, gso_disabled), (1, 1, kern_sock), (2, 1, no_check_tx), (3, 1, no_check_rx), (4, 4, userlocks)] (BitfieldUnit_new [0])"
    by (simp add: sk_new_bitfield_1_def set_all_def rbind_def split: sum.split)
  then show ?thesis
    by (simp only:) (rule set_all_new; simp add: packed_def sk1_defs)
qed

interpretation sk2: flag_bank sk_bitfield_2 "\<lambda>u s. s\<lparr>sk_bitfield_2 := u\<rparr>" on_sk2
  by unfold_locales (simp_all add: on_sk2_def)

definition sk_flags_2 :: "endian \<Rightarrow> bool \<Rightarrow> sock accessor list" where
  "sk_flags_2 en dbg =
   [(sk_txtime_deadline_mode en dbg, set_sk_txtime_deadline_mode en dbg, 0, 1),
    (sk_txtime_report_errors en dbg, set_sk_txtime_report_errors en dbg, 1, 1),
    (sk_txtime_unused en dbg, set_sk_txtime_unused en dbg, 2, 6)]"

lemmas sk2_defs =
  sk_txtime_deadline_mode_def [abs_def] set_sk_txtime_deadline_mode_def [abs_def]
  sk_txtime_report_errors_def [abs_def] set_sk_txtime_report_errors_def [abs_def]
  sk_txtime_unused_def [abs_def] set_sk_txtime_unused_def [abs_def]

lemma sk_flags_2_packed: "list_all (sk2.accessor_at en dbg) (sk_flags_2 en dbg)"
  "packed 1 (map (\<lambda>(g, s, off, w). (off, w)) (sk_flags_2 en dbg))"
  by (simp_all add: sk_flags_2_def sk2.accessor_at_def sk2_defs packed_def)

lemmas sk_flags_2_independent = sk2.accessors_independent [OF sk_flags_2_packed]

lemma sk_flags_2_read_back:
  "\<exists>u. sk_new_bitfield_2 en dbg txtime_deadline_mode txtime_report_errors txtime_unused = Inr u
    \<and> (\<forall>s. sk_bitfield_2 s = u \<longrightarrow>
        map (\<lambda>g. g en dbg s) [sk_txtime_deadline_mode, sk_txtime_report_errors, sk_txtime_unused] =
        map Inr [take_bit 1 txtime_deadline_mode, take_bit 1 txtime_report_errors, take_bit 6 txtime_unused])"
proof -
  have "sk_new_bitfield_2 en dbg txtime_deadline_mode txtime_report_errors txtime_unused =
      set_all en dbg [(0, 1, txtime_deadline_mode), (1, 1, txtime_report_errors), (2, 6, txtime_unused)] (BitfieldUnit_new [0])"
    by (simp add: sk_new_bitfield_2_def set_all_def rbind_def split: sum.split)
  then show ?thesis
    by (simp only:) (rule set_all_new; simp add: packed_def sk2_defs)
qed

section \<open>Properties\<close>

text \<open>C39. The constructors of the flags of a socket buffer set every flag: headers made of the
  two units they return read back each argument, cut to the width of its flag, on targets of
  either endianness and with or without debug assertions, and no argument makes them panic.\<close>

theorem headers_flags_read_back:
  "\<exists>u1 u2. headers_new_bitfield_1 en dbg
      pkt_type ignore_df nf_trace ip_summed ooo_okay l4_hash sw_hash wifi_acked_valid wifi_acked
      no_fcs encapsulation encap_hdr_csum csum_valid = Inr u1
    \<and> headers_new_bitfield_2 en dbg
      vlan_present csum_complete_sw csum_level dst_pending_confirm mono_delivery_time
      tc_skip_classify tc_at_ingress ndisc_nodetype ipvs_property inner_protocol_type
      remcsum_offload offload_fwd_mark offload_l3_fwd_mark redirected from_ingress nf_skip_egress
      decrypted slow_gro csum_not_inet scm_io_uring = Inr u2
    \<and> (let h' = h\<lparr>headers_bitfield_1 := u1, headers_bitfield_2 := u2\<rparr> in
        map (\<lambda>g. g en dbg h')
          [skb_pkt_type, skb_ignore_df, skb_nf_trace, skb_ip_summed, skb_ooo_okay, skb_l4_hash,
           skb_sw_hash, skb_wifi_acked_valid, skb_wifi_acked, skb_no_fcs, skb_encapsulation,
           skb_encap_hdr_csum, skb_csum_valid] =
        map Inr
          [take_bit 3 pkt_type, take_bit 1 ignore_df, take_bit 1 nf_trace, take_bit 2 ip_summed,
           take_bit 1 ooo_okay, take_bit 1 l4_hash, take_bit 1 sw_hash,
           take_bit 1 wifi_acked_valid, take_bit 1 wifi_acked, take_bit 1 no_fcs,
           take_bit 1 encapsulation, take_bit 1 encap_hdr_csum, take_bit 1 csum_valid]
      \<and> map (\<lambda>g. g en dbg h')
          [skb_vlan_present, skb_csum_complete_sw, skb_csum_level, skb_dst_pending_confirm,
           skb_mono_delivery_time, skb_tc_skip_classify, skb_tc_at_ingress, skb_ndisc_nodetype,
           skb_ipvs_property, skb_inner_protocol_type, skb_remcsum_offload, skb_offload_fwd_mark,
           skb_offload_l3_fwd_mark, skb_redirected, skb_from_ingress, skb_nf_skip_egress,
           skb_decrypted, skb_slow_gro, skb_csum_not_inet, skb_scm_io_uring] =
        map Inr
          [take_bit 1 vlan_present, take_bit 1 csum_complete_sw, take_bit 2 csum_level,
           take_bit 1 dst_pending_confirm, take_bit 1 mono_delivery_time,
           take_bit 1 tc_skip_classify, take_bit 1 tc_at_ingress, take_bit 2 ndisc_nodetype,
           take_bit 1 ipvs_property, take_bit 1 inner_protocol_type, take_bit 1 remcsum_offload,
           take_bit 1 offload_fwd_mark, take_bit 1 offload_l3_fwd_mark, take_bit 1 redirected,
           take_bit 1 from_ingress, take_bit 1 nf_skip_egress, take_bit 1 decrypted,
           take_bit 1 slow_gro, take_bit 1 csum_not_inet, take_bit 1 scm_io_uring])"
proof -
  note * = headers_flags_1_read_back [of en dbg
      pkt_type ignore_df nf_trace ip_summed ooo_okay l4_hash sw_hash wifi_acked_valid wifi_acked
      no_fcs encapsulation encap_hdr_csum csum_valid]
  note ** = headers_flags_2_read_back [of en dbg
      vlan_present csum_complete_sw csum_level dst_pending_confirm mono_delivery_time
      tc_skip_classify tc_at_ingress ndisc_nodetype ipvs_property inner_protocol_type
      remcsum_offload offload_fwd_mark offload_l3_fwd_mark redirected from_ingress nf_skip_egress
      decrypted slow_gro csum_not_inet scm_io_uring]
  from * ** show ?thesis by (fastforce simp: Let_def simp del: list.map)
qed

end
