(* ===== verification/Xtask_Build.thy ===== *)
theory Xtask_Build
  imports Ptraf_Prelude
begin

text \<open>
  \<^verbatim>\<open>xtask/src\<close>: the build tool. Each task is the list of the processes it starts and how it
  ends; how a process ends is the environment's choice. The code generator is the list of what
  it does to files; the library it calls is a parameter. Command-line parsing is not modelled.
\<close>

section \<open>Processes\<close>

record Command =
  cmd_program :: string
  cmd_args :: "string list"
  cmd_dir :: "string option"
  cmd_env_removed :: "string list"

datatype exit_status = SpawnError | Exited bool

datatype task_error = TaskPanic panic | TaskFailed string

text \<open>A task: the processes it started and its result.\<close>

type_synonym task = "Command list \<times> (task_error + unit)"

definition task_then :: "task \<Rightarrow> task \<Rightarrow> task" where
  "task_then a b = (case snd a of Inl e \<Rightarrow> a | Inr u \<Rightarrow> (fst a @ fst b, snd b))"

text \<open>\<open>.status().expect(..)\<close> followed by \<open>assert!(status.success())\<close>.\<close>

definition must_succeed :: "(Command \<Rightarrow> exit_status) \<Rightarrow> Command \<Rightarrow> task" where
  "must_succeed env c =
     ([c], case env c of SpawnError \<Rightarrow> Inl (TaskPanic UnwrapNone)
           | Exited ok \<Rightarrow> if ok then Inr () else Inl (TaskPanic ExplicitPanic))"

section \<open>The eBPF program\<close>

datatype Architecture = BpfEl | BpfEb

definition arch_from_str :: "string \<Rightarrow> string + Architecture" where
  "arch_from_str s =
     (if s = ''bpfel-unknown-none'' then Inr BpfEl
      else if s = ''bpfeb-unknown-none'' then Inr BpfEb
      else Inl ''invalid target'')"

definition arch_fmt :: "Architecture \<Rightarrow> string" where
  "arch_fmt a = (case a of BpfEl \<Rightarrow> ''bpfel-unknown-none'' | BpfEb \<Rightarrow> ''bpfeb-unknown-none'')"

record BuildOptions =
  bo_target :: Architecture
  bo_release :: bool

definition build_ebpf_command :: "BuildOptions \<Rightarrow> Command" where
  "build_ebpf_command opts =
     \<lparr>cmd_program = ''cargo'',
      cmd_args = [''build'', ''--verbose'', ''--target='' @ arch_fmt (bo_target opts), ''-Z'', ''build-std=core'']
        @ (if bo_release opts then [''--release''] else []),
      cmd_dir = Some ''ptraf-ebpf'', cmd_env_removed = [''RUSTUP_TOOLCHAIN'']\<rparr>"

definition build_ebpf :: "(Command \<Rightarrow> exit_status) \<Rightarrow> BuildOptions \<Rightarrow> task" where
  "build_ebpf env opts = must_succeed env (build_ebpf_command opts)"

section \<open>Building and running the application\<close>

record RunOptions =
  ro_bpf_target :: Architecture
  ro_release :: bool
  ro_runner :: string
  ro_example :: "string option"
  ro_run_args :: "string list"

definition plain_command :: "string \<Rightarrow> string list \<Rightarrow> Command" where
  "plain_command p as = \<lparr>cmd_program = p, cmd_args = as, cmd_dir = None, cmd_env_removed = []\<rparr>"

definition build_args :: "RunOptions \<Rightarrow> string list" where
  "build_args opts =
     [''build''] @ (if ro_release opts then [''--release''] else [])
     @ (case ro_example opts of None \<Rightarrow> [] | Some ex \<Rightarrow> [''--example'', ex])"

definition build :: "(Command \<Rightarrow> exit_status) \<Rightarrow> RunOptions \<Rightarrow> task" where
  "build env opts = must_succeed env (plain_command ''cargo'' (build_args opts))"

definition bin_path :: "RunOptions \<Rightarrow> string" where
  "bin_path opts =
     (let profile = (if ro_release opts then ''release'' else ''debug'') in
      case ro_example opts of
        Some ex \<Rightarrow> ''target/'' @ profile @ ''/examples/'' @ ex
      | None \<Rightarrow> ''target/'' @ profile @ ''/ptraf'')"

text \<open>\<^verbatim>\<open>str::trim\<close> and \<^verbatim>\<open>str::split_terminator\<close> of the standard library, on the characters
  below 256.\<close>

definition is_whitespace :: "char \<Rightarrow> bool" where
  "is_whitespace c \<longleftrightarrow> of_char c \<in> {9, 10, 11, 12, 13, 32, 133, 160 :: nat}"

definition trim :: "string \<Rightarrow> string" where
  "trim s = rev (dropWhile is_whitespace (rev (dropWhile is_whitespace s)))"

fun split_on :: "char \<Rightarrow> string \<Rightarrow> string list" where
  "split_on d [] = [[]]"
| "split_on d (c # cs) =
     (if c = d then [] # split_on d cs
      else case split_on d cs of [] \<Rightarrow> [[c]] | p # ps \<Rightarrow> (c # p) # ps)"

definition split_terminator :: "char \<Rightarrow> string \<Rightarrow> string list" where
  "split_terminator d s =
     (let ps = split_on d s in if last ps = [] then butlast ps else ps)"

definition run_command :: "RunOptions \<Rightarrow> string list" where
  "run_command opts = split_terminator (CHR '' '') (trim (ro_runner opts)) @ [bin_path opts] @ ro_run_args opts"

fun join :: "string \<Rightarrow> string list \<Rightarrow> string" where
  "join sep [] = []"
| "join sep [x] = x"
| "join sep (x # y # zs) = x @ sep @ join sep (y # zs)"

definition run_program :: "(Command \<Rightarrow> exit_status) \<Rightarrow> string list \<Rightarrow> task" where
  "run_program env as =
     (case as of
        [] \<Rightarrow> ([], Inl (TaskPanic UnwrapNone))
      | p # rest \<Rightarrow>
         (let c = plain_command p rest in
          ([c], case env c of
                  SpawnError \<Rightarrow> Inl (TaskPanic UnwrapNone)
                | Exited ok \<Rightarrow> if ok then Inr () else Inl (TaskFailed (''Failed to run `'' @ join '' '' as @ ''`'')))))"

definition xtask_run :: "(Command \<Rightarrow> exit_status) \<Rightarrow> RunOptions \<Rightarrow> task" where
  "xtask_run env opts =
     task_then (build_ebpf env \<lparr>bo_target = ro_bpf_target opts, bo_release = ro_release opts\<rparr>)
       (task_then (build env opts) (run_program env (run_command opts)))"

datatype XCommand = BuildEbpf BuildOptions | Run RunOptions | Codegen

text \<open>The code generator: the library turns the named kernel types of a BTF file into the text
  of a Rust file. What was done to files is recorded; an error ends the task.\<close>

datatype file_op = CreateFile string | WriteFile string string

record CodegenEnv =
  cg_generate :: "string \<Rightarrow> string list \<Rightarrow> string + string"
  cg_fails :: "file_op \<Rightarrow> string option"

fun file_ops :: "CodegenEnv \<Rightarrow> file_op list \<Rightarrow> file_op list \<times> (task_error + unit)" where
  "file_ops env [] = ([], Inr ())"
| "file_ops env (f # fs) =
     (case cg_fails env f of Some e \<Rightarrow> ([], Inl (TaskFailed e))
      | None \<Rightarrow> (case file_ops env fs of (done, r) \<Rightarrow> (f # done, r)))"

definition generate :: "CodegenEnv \<Rightarrow> file_op list \<times> (task_error + unit)" where
  "generate env =
     (case cg_generate env ''/sys/kernel/btf/vmlinux'' [''socket'', ''sock_common'', ''sock_type'', ''in6_addr''] of
        Inl e \<Rightarrow> ([], Inl (TaskFailed e))
      | Inr bindings \<Rightarrow>
          file_ops env [CreateFile ''ptraf-ebpf/src/bindings.rs'', WriteFile ''ptraf-ebpf/src/bindings.rs'' bindings])"

text \<open>An error of a task is reported with exit code 1; a panic ends the program.\<close>

definition exit_code :: "task_error + unit \<Rightarrow> int exec" where
  "exit_code r = (case r of Inr u \<Rightarrow> Inr 0 | Inl (TaskPanic p) \<Rightarrow> Inl p | Inl (TaskFailed m) \<Rightarrow> Inr 1)"

definition xtask_main ::
  "(Command \<Rightarrow> exit_status) \<Rightarrow> CodegenEnv \<Rightarrow> XCommand \<Rightarrow> Command list \<times> file_op list \<times> int exec" where
  "xtask_main env genv c =
     (case c of
        BuildEbpf opts \<Rightarrow> (case build_ebpf env opts of (cs, r) \<Rightarrow> (cs, [], exit_code r))
      | Run opts \<Rightarrow> (case xtask_run env opts of (cs, r) \<Rightarrow> (cs, [], exit_code r))
      | Codegen \<Rightarrow> (case generate genv of (fs, r) \<Rightarrow> ([], fs, exit_code r)))"

section \<open>Properties\<close>

text \<open>The bindings are replaced only when they could be generated; the generator succeeds
  exactly when it also wrote all of them.\<close>

lemma generate_cases:
  "snd (generate env) = Inr () \<longleftrightarrow>
     (\<exists>b. cg_generate env ''/sys/kernel/btf/vmlinux'' [''socket'', ''sock_common'', ''sock_type'', ''in6_addr''] = Inr b
        \<and> fst (generate env) = [CreateFile ''ptraf-ebpf/src/bindings.rs'', WriteFile ''ptraf-ebpf/src/bindings.rs'' b])"
  "fst (generate env) \<noteq> [] \<Longrightarrow>
     \<exists>b. cg_generate env ''/sys/kernel/btf/vmlinux'' [''socket'', ''sock_common'', ''sock_type'', ''in6_addr''] = Inr b"
  by (auto simp: generate_def split: sum.splits option.splits)

text \<open>The generator never panics, so its exit code tells whether it succeeded.\<close>

lemma codegen_exit: "xtask_main env genv Codegen = ([], fst (generate genv), Inr (if snd (generate genv) = Inr () then 0 else 1))"
  by (auto simp: xtask_main_def exit_code_def generate_def split: sum.splits option.splits prod.splits)

lemma split_on_ne [simp]: "split_on d s \<noteq> []"
  by (cases s) (auto split: list.splits)

lemma join_Cons_char: "join sep ((c # p) # ps) = c # join sep (p # ps)"
  by (cases ps) auto

lemma join_split_on: "join [d] (split_on d s) = s"
proof (induction s)
  case (Cons c cs)
  obtain p ps where ps: "split_on d cs = p # ps" using split_on_ne by (metis list.exhaust)
  then show ?case using Cons by (auto simp: join_Cons_char)
qed simp

lemma split_on_parts: "p \<in> set (split_on d s) \<Longrightarrow> d \<notin> set p"
proof (induction s arbitrary: p)
  case (Cons c cs)
  then show ?case by (auto split: if_splits list.splits)
qed simp

lemma split_on_snoc:
  "split_on d (s @ [c]) =
     (if c = d then split_on d s @ [[]] else butlast (split_on d s) @ [last (split_on d s) @ [c]])"
proof (induction s)
  case (Cons x xs)
  obtain p ps where ps: "split_on d xs = p # ps" using split_on_ne by (metis list.exhaust)
  show ?case using Cons by (cases "c = d"; cases ps) (simp_all add: ps)
qed simp

lemma split_terminator_join:
  assumes "s \<noteq> []" "last s \<noteq> d"
  shows "split_terminator d s = split_on d s" "join [d] (split_terminator d s) = s"
proof -
  have "last (split_on d s) \<noteq> []"
    using split_on_snoc [of d "butlast s" "last s"] assms by simp
  then show "split_terminator d s = split_on d s" by (simp add: split_terminator_def Let_def)
  then show "join [d] (split_terminator d s) = s" by (simp add: join_split_on)
qed

lemma trim_ends: "trim s \<noteq> [] \<Longrightarrow> \<not> is_whitespace (last (trim s))"
  using hd_dropWhile [of is_whitespace "rev (dropWhile is_whitespace s)"]
  by (simp add: trim_def last_rev)

lemma run_command_ne: "run_command opts \<noteq> []"
  by (simp add: run_command_def)

text \<open>The words of the runner, joined by blanks, are the runner without surrounding blanks.\<close>

lemma runner_words:
  "join '' '' (split_terminator (CHR '' '') (trim r)) = trim r"
proof (cases "trim r = []")
  case True
  then show ?thesis by (simp add: split_terminator_def)
next
  case False
  then have "last (trim r) \<noteq> CHR '' ''" using trim_ends [OF False] by (auto simp: is_whitespace_def)
  then show ?thesis using split_terminator_join(2) [OF False] by simp
qed

lemma arch_roundtrip: "arch_from_str (arch_fmt a) = Inr a"
  by (cases a) (simp_all add: arch_from_str_def arch_fmt_def)

text \<open>The application is started only after both builds succeeded, and a run that returns
  without error started the three processes in order.\<close>

definition run_processes :: "RunOptions \<Rightarrow> Command list" where
  "run_processes opts =
     [build_ebpf_command \<lparr>bo_target = ro_bpf_target opts, bo_release = ro_release opts\<rparr>,
      plain_command ''cargo'' (build_args opts),
      plain_command (hd (run_command opts)) (List.tl (run_command opts))]"

lemma xtask_run_prefix:
  "\<exists>n. fst (xtask_run env opts) = take n (run_processes opts)
     \<and> (\<forall>c \<in> set (take (n - 1) (run_processes opts)). env c = Exited True)"
proof -
  obtain p rest where c: "run_command opts = p # rest" using run_command_ne by (metis list.exhaust)
  let ?P = "run_processes opts"
  consider "env (?P ! 0) \<noteq> Exited True" | "env (?P ! 0) = Exited True" "env (?P ! 1) \<noteq> Exited True"
    | "env (?P ! 0) = Exited True" "env (?P ! 1) = Exited True" by blast
  then show ?thesis
  proof cases
    case 1
    then show ?thesis
      by (intro exI [of _ 1]) (auto simp: xtask_run_def task_then_def build_ebpf_def must_succeed_def run_processes_def
          split: exit_status.splits if_splits)
  next
    case 2
    then show ?thesis
      by (intro exI [of _ 2]) (auto simp: xtask_run_def task_then_def build_ebpf_def build_def must_succeed_def
          run_processes_def split: exit_status.splits if_splits)
  next
    case 3
    then show ?thesis
      by (intro exI [of _ 3]) (auto simp: xtask_run_def task_then_def build_ebpf_def build_def must_succeed_def
          run_processes_def run_program_def c Let_def split: exit_status.splits if_splits)
  qed
qed

lemma xtask_run_ok:
  "snd (xtask_run env opts) = Inr () \<longleftrightarrow> (\<forall>c \<in> set (run_processes opts). env c = Exited True)"
proof -
  obtain p rest where c: "run_command opts = p # rest" using run_command_ne by (metis list.exhaust)
  show ?thesis
    by (auto simp: xtask_run_def task_then_def build_ebpf_def build_def must_succeed_def run_program_def
        run_processes_def c Let_def split: exit_status.splits if_splits sum.splits)
qed

text \<open>C40. \<open>xtask run\<close> builds the eBPF program, then the application, then starts it: the
  processes it starts are a prefix of these three, a process is started only if the ones
  before it succeeded, and the task succeeds exactly when all three do.\<close>

theorem xtask_run_order:
  "\<exists>n. fst (xtask_run env opts) = take n (run_processes opts)
     \<and> (\<forall>k < n - 1. env (run_processes opts ! k) = Exited True)
     \<and> (snd (xtask_run env opts) = Inr () \<longleftrightarrow> (\<forall>c \<in> set (run_processes opts). env c = Exited True))"
proof -
  obtain n where n: "fst (xtask_run env opts) = take n (run_processes opts)"
    "\<forall>c \<in> set (take (n - 1) (run_processes opts)). env c = Exited True"
    using xtask_run_prefix by blast
  have len: "length (run_processes opts) = 3" by (simp add: run_processes_def)
  let ?n = "min n 3"
  have "env (run_processes opts ! k) = Exited True" if "k < ?n - 1" for k
  proof -
    have "take (n - 1) (run_processes opts) ! k = run_processes opts ! k" using that by simp
    moreover have "k < length (take (n - 1) (run_processes opts))" using that by (simp add: len) linarith
    ultimately show ?thesis using n(2) nth_mem by metis
  qed
  moreover have "take ?n (run_processes opts) = take n (run_processes opts)" using len by (simp add: min_def)
  ultimately show ?thesis using n(1) xtask_run_ok [of env opts] by (intro exI [of _ ?n]) auto
qed

theorem xtask_run_order_witness:
  "\<exists>n. fst (xtask_run (\<lambda>_. Exited True) \<lparr>ro_bpf_target = BpfEl, ro_release = True, ro_runner = ''sudo -E'',
       ro_example = None, ro_run_args = []\<rparr>)
     = take n (run_processes \<lparr>ro_bpf_target = BpfEl, ro_release = True, ro_runner = ''sudo -E'',
       ro_example = None, ro_run_args = []\<rparr>)"
  using xtask_run_order by blast

end
