(* ===== verification/Unit_Tests.thy ===== *)
theory Unit_Tests
  imports Filter_Parser Store_Window
begin

text \<open>
  The unit tests of the repository, on the model: the assertions of
  \<^verbatim>\<open>ptraf-filter/src/frontend.rs\<close>, \<^verbatim>\<open>ptraf/src/store.rs\<close> and \<^verbatim>\<open>ptraf/src/clock.rs\<close> hold of the
  definitions. The column of a parse error is not part of the model; a test that expects an
  error expects no result here.
\<close>

section \<open>The parser\<close>

definition single_statements :: "(string \<times> Expr option) list" where
  "single_statements =
     [(''pid[1293]'', Some (E_Pid 1293)),
      (''udp'', Some (E_Protocol Udp)),
      (''tcp'', Some (E_Protocol Tcp)),
      (''stcp'', None),
      (''uvp'', None),
      (''ipv4'', Some (E_IpVersion IpV4)),
      (''ipv6'', Some (E_IpVersion IpV6)),
      (''port[1231]'', Some (E_Port 1231)),
      (''lport[2345]'', Some (E_LocalPort 2345)),
      (''rport[43323]'', Some (E_RemotePort 43323)),
      (''port[1239921232]'', None),
      (''raddr[1050:0:0:0:5:600:300c:326b]'',
        Some (E_RemoteAddr (V6 (Arr8 0x1050 0 0 0 5 0x600 0x300c 0x326b)))),
      (''addr[10.0.254.0]'', Some (E_Addr (V4 (octets_value 10 0 254 0)))),
      (''laddr[10.0.234.4]'', Some (E_LocalAddr (V4 (octets_value 10 0 234 4)))),
      (''raddr[192.168.1.12]'', Some (E_RemoteAddr (V4 (octets_value 192 168 1 12)))),
      (''raddr[1.1.1.1]'', Some (E_RemoteAddr (V4 (octets_value 1 1 1 1))))]"

definition logical_operators :: "(string \<times> Expr option) list" where
  "logical_operators =
     [(''(pid[3221] or tcp) and ipv4'',
        Some (E_And (E_Or (E_Pid 3221) (E_Protocol Tcp)) (E_IpVersion IpV4))),
      (''pid[3221] or tcp and ipv4'',
        Some (E_And (E_Or (E_Pid 3221) (E_Protocol Tcp)) (E_IpVersion IpV4))),
      (''pid[3221] and tcp or ipv4'',
        Some (E_Or (E_And (E_Pid 3221) (E_Protocol Tcp)) (E_IpVersion IpV4))),
      (''pid[3221] && tcp || ipv4'',
        Some (E_Or (E_And (E_Pid 3221) (E_Protocol Tcp)) (E_IpVersion IpV4))),
      (''pid[3221] and not tcp or ipv4'',
        Some (E_Or (E_And (E_Pid 3221) (E_Not (E_Protocol Tcp))) (E_IpVersion IpV4))),
      (''pid[3221] and not (tcp or ipv4)'',
        Some (E_And (E_Pid 3221) (E_Not (E_Or (E_Protocol Tcp) (E_IpVersion IpV4)))))]"

lemma v6_statement:
  "filter_rule ''raddr[1050:0:0:0:5:600:300c:326b]'' =
     Some (E_RemoteAddr (V6 (Arr8 0x1050 0 0 0 5 0x600 0x300c 0x326b)))"
proof -
  have "show_ip (V6 (Arr8 0x1050 0 0 0 5 0x600 0x300c 0x326b)) = ''1050:0:0:0:5:600:300c:326b''"
    by (simp add: show_num.simps digit_char_def char_of_def bit_0)
  then show ?thesis
    using filter_rule_show [of "E_RemoteAddr (V6 (Arr8 0x1050 0 0 0 5 0x600 0x300c 0x326b))"] by simp
qed

lemma single_statements_pass: "list_all (\<lambda>(s, e). filter_rule s = e) single_statements"
  unfolding single_statements_def list.pred_inject prod.case
  by (intro conjI TrueI; (rule v6_statement | simp add: parse_defs parse_uint_def))

lemma logical_operators_pass: "list_all (\<lambda>(s, e). filter_rule s = e) logical_operators"
  unfolding logical_operators_def list.pred_inject prod.case
  by (intro conjI TrueI; simp add: parse_defs parse_uint_def)

section \<open>The clock\<close>

lemma timestamp_trunc: "trunc (from_secs 3010) (from_secs 1000) = Inr (from_secs 3000)"
  by (simp add: trunc_def from_secs_def as_nanos_u64_def)

section \<open>The store\<close>

lemma total_count:
  "segment_total_packet_count oc seg =
     add_u64 oc (rx_packet_count (stat_of seg All)) (tx_packet_count (stat_of seg All))"
  by (simp add: segment_total_packet_count_def stat_of_def add_u64_def split: option.split)

lemma total_channel:
  "segment_total oc (Some ch) seg = Inr (case ch of Tx \<Rightarrow> tx (stat_of seg All) | Rx \<Rightarrow> rx (stat_of seg All))"
  by (simp add: segment_total_def stat_of_def split: option.split Channel.split)

lemma total_interest:
  "(case stat_by_interest seg i of None \<Rightarrow> Inr 0 | Some s \<Rightarrow> Stat_total oc s) =
     Stat_total oc (stat_of seg i)"
  by (simp add: stat_of_def Stat_total_def add_u64_def split: option.split)

text \<open>Four updates at one time leave one segment.\<close>

lemma run_one_window:
  assumes "u64_range ts" "0 < w" "u64_range w" "\<And>m. m \<in> set ms \<Longrightarrow> msg_no_panic oc m"
  obtains st s where "run_updates en oc [(ts, ms), (ts, ms), (ts, ms), (ts, ms)] (Store_new w 16) = Some (Inr st)"
    "segments_view st = [s]" "trunc ts w = Inr (ts_ts s)"
    "\<And>i. stat_of (ts_segment s) i =
       sum_list (map (\<lambda>k. sum_list (map (\<lambda>m. msg_weight en m i) ms)) [0, 1, 2, 3 :: nat])"
proof -
  let ?us = "[(ts, ms), (ts, ms), (ts, ms), (ts, ms)]"
  let ?tm = "timeline_run en w ?us Timeline_empty"
  obtain st where st: "run_updates en oc ?us (Store_new w 16) = Some (Inr st)" "represents ?tm st"
    "st_window st = w" "st_capacity st = 16"
    using run_updates_refines [OF Store_new_inv [OF assms(2,3), of 16] represents_empty, of ?us oc en] assms(1,4)
    by (auto simp: update_ok_def Store_new_def)
  have "tl_span ?tm = Some (start w ts, start w ts)"
    by (simp add: timeline_update_def timeline_record_def timeline_advance_def Timeline_empty_def)
  then obtain s where s: "st_segments st = [s]" "ts_ts s = start w ts"
    "\<And>i. stat_of (ts_segment s) i = tl_stat ?tm (start w ts) i"
    using st assms(2) by (auto simp: represents_def span_def lastn_def)
  have tr: "trunc ts w = Inr (ts_ts s)" using assms s(2) by (simp add: trunc_eq start_def)
  have "tl_stat ?tm (start w ts) i =
      sum_list (map (\<lambda>k. sum_list (map (\<lambda>m. msg_weight en m i) ms)) [0, 1, 2, 3 :: nat])" for i
    by (simp only: timeline_run_stat) (simp add: Timeline_empty_def Let_def)
  then show ?thesis using that [OF st(1) _ tr] s(1,3) by (simp add: segments_view_def)
qed

lemma v4_32_35: "std_from_IpAddr en (IpAddr_v4 32) \<noteq> std_from_IpAddr en (IpAddr_v4 35)"
  by (cases en) (simp_all add: std_from_v4 from_be32_def swap_bytes32_def)

lemma store_batch_update_simple:
  fixes en
  assumes "u64_range ts"
  defines "u \<equiv> (ts, simple_messages en)"
  shows "\<exists>st s. run_updates en True [u, u, u, u] (Store_new (from_millis 100) 16) = Some (Inr st)
    \<and> view_len (segments_view st) = 1 \<and> view_oldest (segments_view st) = Some s
    \<and> trunc ts (from_millis 100) = Inr (ts_ts s)
    \<and> segment_total True (Some Tx) (ts_segment s) = Inr (4 * (10 + 12 + 13))
    \<and> segment_total True (Some Rx) (ts_segment s) = Inr (4 * 11)
    \<and> (case stat_by_interest (ts_segment s) (RemoteIp (std_from_IpAddr en (IpAddr_v4 32))) of
         None \<Rightarrow> Inr 0 | Some x \<Rightarrow> Stat_total True x) = Inr (4 * (10 + 11 + 13))
    \<and> (case stat_by_interest (ts_segment s) (RemoteSocket (SocketAddr (std_from_IpAddr en (IpAddr_v4 32)) 80)) of
         None \<Rightarrow> Inr 0 | Some x \<Rightarrow> Stat_total True x) = Inr (4 * (10 + 11))"
proof -
  obtain st s where st: "run_updates en True [u, u, u, u] (Store_new (from_millis 100) 16) = Some (Inr st)"
    "segments_view st = [s]" "trunc ts (from_millis 100) = Inr (ts_ts s)"
    "\<And>i. stat_of (ts_segment s) i =
       sum_list (map (\<lambda>k. sum_list (map (\<lambda>m. msg_weight en m i) (simple_messages en))) [0, 1, 2, 3 :: nat])"
    unfolding u_def
    by (rule run_one_window [OF assms(1), of "from_millis 100" "simple_messages en" True en])
      (auto simp: from_millis_def simple_messages_no_panic)
  show ?thesis
    using st(1-3) v4_32_35 [of en]
    by (intro exI [of _ st] exI [of _ s])
      (simp add: view_len_def view_oldest_def total_channel total_interest Stat_total_def add_u64_def st(4)
        simple_stats remote_sock_addr_def del: run_updates.simps)
qed

lemma store_create_segments:
  "\<exists>st. run_updates en True create_updates (Store_new (from_millis 100) 16) = Some (Inr st)
    \<and> map (\<lambda>s. (ts_ts s, segment_total_packet_count True (ts_segment s))) (view_iter (segments_view st)) =
       [(0, Inr 2), (from_millis 100, Inr 2), (from_millis 200, Inr 0), (from_millis 300, Inr 0), (from_millis 400, Inr 1)]"
proof -
  let ?w = "from_millis 100" and ?tm = "timeline_run en (from_millis 100) create_updates Timeline_empty"
  have w: "0 < ?w" "u64_range ?w" by (simp_all add: from_millis_def)
  obtain st where st: "run_updates en True create_updates (Store_new ?w 16) = Some (Inr st)" "represents ?tm st"
    "st_window st = ?w" "st_capacity st = 16"
    using run_updates_refines [OF Store_new_inv [OF w, of 16] represents_empty create_updates_ok, where en = en]
    by (auto simp: Store_new_def)
  have sp: "tl_span ?tm = Some (0, from_millis 400)"
    by (simp add: create_updates_def timeline_update_def timeline_record_def timeline_advance_def Timeline_empty_def
        from_millis_def start_def)
  have times: "times st = [0, from_millis 100, from_millis 200, from_millis 300, from_millis 400]"
    and stats: "\<And>s i. s \<in> set (st_segments st) \<Longrightarrow> stat_of (ts_segment s) i = tl_stat ?tm (ts_ts s) i"
    using st(2-4) sp by (auto simp: represents_def span_def lastn_def from_millis_def upt_conv_Cons)
  have count: "add_u64 True (rx_packet_count (tl_stat ?tm t All)) (tx_packet_count (tl_stat ?tm t All)) =
      Inr (if t = 0 \<or> t = from_millis 100 then 2 else if t = from_millis 400 then 1 else 0)" for t
    unfolding timeline_run_stat
    by (simp add: create_updates_def Timeline_empty_def from_millis_def start_def Let_def create_messages_def
        msg_weight_def msg_ok_def msg_stat_def channel_stat_def interests_from_msg_def add_u64_def)
  have "map (\<lambda>s. (ts_ts s, segment_total_packet_count True (ts_segment s))) (st_segments st) =
      map (\<lambda>t. (t, Inr (if t = 0 \<or> t = from_millis 100 then 2 else if t = from_millis 400 then 1 else 0))) (times st)"
    using stats count by (simp add: total_count)
  then show ?thesis using st(1) times by (simp add: view_iter_def segments_view_def from_millis_def)
qed

end
