(* ===== verification/Spec2Isabelle.thy ===== *)
theory Spec2Isabelle
  imports Store_View Store_Progress Screen Ui_Draw Kernel_Skb Xtask_Build Unit_Tests
begin

text \<open>
  \<^bold>\<open>A verification development of ptraf\<close>, a monitor of the network traffic of a Linux host.

  \<^bold>\<open>The program.\<close> An eBPF program (\<^verbatim>\<open>ptraf-ebpf\<close>) probes the entry and the return of
  \<^verbatim>\<open>sock_sendmsg\<close> and \<^verbatim>\<open>sock_recvmsg\<close> and sends an event for each call to user space. There
  (\<^verbatim>\<open>ptraf\<close>) one task per CPU reads the events from a perf buffer and records them in a store,
  a time series of segments shared by all tasks behind a read-write lock. A terminal user
  interface draws, over the store, a graph of the traffic and a table of the sockets, kept to
  those a filter selects; filters are written in a small language (\<^verbatim>\<open>ptraf-filter\<close>). The
  types that cross the kernel boundary are in \<^verbatim>\<open>ptraf-common\<close>; \<^verbatim>\<open>xtask\<close> is the build tool.

  \<^bold>\<open>The theories\<close>, with the sources they model (paths under \<^verbatim>\<open>src/\<close>):

    \<^item> \<open>Ptraf_Prelude\<close>: machine integers, the panic monad, generic lemmas.
    \<^item> \<open>Common_Types\<close> (\<^verbatim>\<open>ptraf-common/src/types.rs\<close>): addresses, socket types, events; byte order.
    \<^item> \<open>Clock\<close> (\<^verbatim>\<open>ptraf/src/clock.rs\<close>): timestamps, truncation to a window, the clock. The
      contract of truncation is the locale \<open>time_bucket\<close>.
    \<^item> \<open>Filter_Lang\<close> (\<^verbatim>\<open>ptraf-filter/src/interpretor.rs\<close>, \<^verbatim>\<open>lib.rs\<close>, the syntax trees of
      \<^verbatim>\<open>frontend.rs\<close>): evaluation of a filter on anything \<open>Filterable\<close>.
    \<^item> \<open>Ip_Text\<close> (the parser of addresses of the standard library, which \<^verbatim>\<open>frontend.rs\<close> calls) and
      \<open>Filter_Parser\<close> (\<^verbatim>\<open>ptraf-filter/src/frontend.rs\<close>): the grammar, rule by rule.
    \<^item> \<open>Store_Segment\<close> (\<^verbatim>\<open>ptraf/src/store.rs\<close>, lines 20 to 269): one segment, its statistics per
      interest and its sockets. \<open>ledger\<close> is the contract of everything that counts messages.
    \<^item> \<open>Store_Window\<close> (\<^verbatim>\<open>ptraf/src/store.rs\<close>, lines 271 to 444): the deque of segments, and the
      abstract time series \<open>Timeline\<close> it refines.
    \<^item> \<open>Store_Locks\<close>: the same operations as steps of concurrent tasks under the read-write lock;
      \<open>Store_Contents\<close>: what the concurrent collections hold; \<open>Store_Linear\<close>: traces of those
      steps and their sequential history; \<open>Store_Progress\<close>: the rank that every step of a busy
      task lowers; \<open>Store_View\<close>: the table and the graph collected between two such steps.
    \<^item> \<open>Kernel_Bindings\<close> (\<^verbatim>\<open>ptraf-ebpf/src/bindings.rs\<close>): the bit-field unit and the kernel
      structures the probes read, with the accessors of their bit fields; \<open>Kernel_Skb\<close>: the
      flags of socket buffers. \<open>bit_accessor\<close> is the contract of the accessors of one field,
      \<open>flag_bank\<close> that of all the fields of one unit.
    \<^item> \<open>Probe_Ebpf\<close> (\<^verbatim>\<open>ptraf-ebpf/src/ptraf-ebpf.rs\<close>): the probes; the BPF hash map is the locale
      \<open>bpf_hash_map\<close>. \<open>Call_Trace\<close>: the abstract calls the probes refine, for a map with room
      (locale \<open>bounded_map\<close>).
    \<^item> \<open>Probe_User\<close> (\<^verbatim>\<open>ptraf/src/probe.rs\<close>): loading the program, the events in a buffer, the
      iterator over them, the tasks; the example \<^verbatim>\<open>ptraf/examples/sock_state.rs\<close>.
    \<^item> \<open>Promise_Cell\<close> (\<^verbatim>\<open>ptraf/src/promise.rs\<close>): a value computed in the background.
    \<^item> \<open>Ui_Common\<close>, \<open>Filter_Editor\<close>, \<open>Socket_Table\<close>, \<open>Sparkline\<close>, \<open>Details_Views\<close>, \<open>Ui_Views\<close>,
      \<open>Ui_Draw\<close> (\<^verbatim>\<open>ptraf/src/ui.rs\<close> and \<^verbatim>\<open>ptraf/src/ui/\<close>): the state of the interface, its events,
      what a redraw collects and what the panels show. \<open>text_area\<close> is the contract of the text
      widget, \<open>table_view\<close> that of the three views.
    \<^item> \<open>App_Main\<close> (\<^verbatim>\<open>ptraf/src/main.rs\<close>, the loop of \<^verbatim>\<open>ptraf/src/ui.rs\<close>): command line, callback,
      event loop, terminal, end of the program.
    \<^item> \<open>World\<close>: the probes, the perf buffers, the tasks and the interface side by side, as a
      step relation. \<open>Screen\<close>: what a redraw of that program shows.
    \<^item> \<open>Xtask_Build\<close> (\<^verbatim>\<open>xtask/src\<close>): the build tasks and the generator of the bindings.
    \<^item> \<open>Unit_Tests\<close>: the unit tests of the parser, the store and the clock, on the model.

  \<^bold>\<open>Modelling.\<close> Structs are records and enums datatypes with the constructors of the source;
  integers are words of their width, durations and timestamps natural numbers of nanoseconds
  with the 64-bit truncations written out. A panic is a value (\<open>exec\<close>); the flag \<open>oc\<close> is the
  overflow checking of the build, so that both debug and release builds are covered. A loop
  with no bound of its own (\<open>create_segments\<close>) is a partial function, proved to return where
  the program uses it; the parser takes fuel, one more than the length of the input, proved
  sufficient for every input. Iteration orders of concurrent sets and hash maps, readings of
  clocks, results of system calls and libraries are arguments.

  \<^bold>\<open>What is proved.\<close>
    \<^item> Events: an event survives the perf buffer, addresses and sizes are decoded as documented;
      every call on an IP socket whose entry was remembered is reported once; the probes refine
      the abstract calls.
    \<^item> Store: a segment's statistics are the sums of its messages, in any order and
      interleaving; the store refines the abstract time series, never holds more than its
      capacity, always returns; under the lock no task panics, operations finish under every
      scheduling, and the interleaved updates are equivalent to a sequential run.
    \<^item> Kernel structures: a bit field reads back what was stored, fields do not disturb each
      other, constructors set every field.
    \<^item> Filters: the parser inverts the printer, groups operators to the left and always answers.
    \<^item> Interface: rows of the table are the sums of the segments, without filter their total is
      the total traffic; a table collected in the middle of batches shows what was recorded so
      far; the graph shows the completed segments, never a batch in part; the filter in force was
      parsed from its text; the program ends only on \<open>q\<close> and can always be ended.
    \<^item> Whole program: in \<open>World\<close>, whatever the interleaving, nothing crashes and every event is
      recorded, waiting or lost; in \<open>Screen\<close>, the rows shown add up to the traffic of the calls
      probed; below, the same down to the bytes in the perf buffers, for debug builds too.

  \<^bold>\<open>Not modelled.\<close> The libraries (aya, tokio, crossterm, tui, procfs, clap, dashmap's internal
  sharding), with the exceptions named above as locales; drawing on the terminal; logging; the
  position in parse errors; steps between the reads of one collection (a redraw of \<open>World\<close> comes
  between batches, a collection of \<open>Store_View\<close> between two atomic operations of any tasks, and is
  itself one step; for the graph this loses nothing, the segments it shows being fixed while a
  view is held); the kernel structures of
  \<^verbatim>\<open>bindings.rs\<close>, a generated file, other than sockets and socket buffers.
\<close>

section \<open>From perf buffers to statistics\<close>

text \<open>Every batch is recorded, under the window of its time.\<close>

lemma serve_counts:
  assumes "unat (interval_ms args) * 1000000 < 2 ^ 64" "main_store oc args = Inr st0"
    and "sorted (map fst bs)"
    and "\<And>b. b \<in> set bs \<Longrightarrow> u64_range (clock_now clock (fst b))"
    and "\<And>b e pad. b \<in> set bs \<Longrightarrow> (e, pad) \<in> set (snd b) \<Longrightarrow> msg_no_panic oc e"
  shows "\<exists>st. serve en oc clock (map (batch_bufs en) bs) st0 = Some (Inr st) \<and> store_inv st
    \<and> (\<forall>s \<in> set (st_segments st). \<forall>i. stat_of (ts_segment s) i =
        sum_list (map (\<lambda>b. if start (segment_interval args) (clock_now clock (fst b)) = ts_ts s
                            then sum_list (map (\<lambda>(e, pad). msg_weight en e i) (snd b)) else 0) bs))"
proof -
  note M = main_store_inv [OF assms(1,2)]
  let ?us = "map (batch_update clock) bs" and ?w = "segment_interval args"
  have ok: "update_ok oc u" if "u \<in> set ?us" for u
    using that assms(4,5) by (fastforce simp: update_ok_def batch_update_def)
  obtain st where st: "run_updates en oc ?us st0 = Some (Inr st)" "store_inv st"
    "represents (timeline_run en ?w ?us Timeline_empty) st"
    using run_updates_refines [OF M(1) M(5) ok, where en = en] M(4) by metis
  have so: "sorted (map fst ?us)"
    using assms(3) by (auto simp: sorted_iff_nth_mono batch_update_def clock_now_def intro!: diff_le_mono)
  have w: "0 < ?w" using store_invD(1) [OF M(1)] M(4) by simp
  have t: "tl_stat (timeline_run en ?w ?us Timeline_empty) t i =
      sum_list (map (\<lambda>b. if start ?w (clock_now clock (fst b)) = t
                          then sum_list (map (\<lambda>(e, pad). msg_weight en e i) (snd b)) else 0) bs)" for t i
  proof -
    have "run_target ?w None ?us = map (\<lambda>(ts, ms). (start ?w ts, ms)) ?us"
      by (rule run_target_sorted [OF so _ w]) simp
    then show ?thesis
      by (simp add: timeline_run_stat Timeline_empty_def comp_def batch_update_def case_prod_unfold cong: if_cong)
  qed
  have "stat_of (ts_segment s) i = tl_stat (timeline_run en ?w ?us Timeline_empty) (ts_ts s) i"
    if "s \<in> set (st_segments st)" for s i
    using st(3) that by (auto simp: represents_def split: option.splits)
  then show ?thesis using st(1,2) t by (simp add: serve_updates)
qed

text \<open>Over the windows that are held, batches are counted once.\<close>

lemma held_windows_sum:
  fixes W :: "'b \<Rightarrow> Stat"
  assumes "distinct (map ts_ts qs)" "\<And>b. b \<in> set bs \<Longrightarrow> t b \<in> ts_ts ` set qs"
  shows "sum_list (map (\<lambda>s. sum_list (map (\<lambda>b. if t b = ts_ts s then W b else 0) bs)) qs)
    = sum_list (map W bs)"
  using assms(2) unfolding sum_list_by_key [OF assms(1)] by (intro arg_cong [of _ _ sum_list] map_cong) auto

lemma sum_batches:
  "sum_list (map (\<lambda>b. sum_list (map (\<lambda>(e, pad). f e) (snd b))) bs)
    = sum_list (map f (concat (map (\<lambda>b. map fst (snd b)) bs)))" for f :: "_ \<Rightarrow> Stat"
  by (induction bs) (simp_all add: case_prod_unfold comp_def)

lemma held_total:
  assumes inv: "store_inv st"
    and stat: "\<And>s i. s \<in> set (st_segments st) \<Longrightarrow>
        stat_of (ts_segment s) i = sum_list (map (\<lambda>b. if t b = ts_ts s then W b i else 0) bs)"
    and held: "\<forall>b \<in> set bs. t b \<in> ts_ts ` set (st_segments st)"
  shows "sum_list (map (\<lambda>s. stat_of (ts_segment s) i) (st_segments st)) = sum_list (map (\<lambda>b. W b i) bs)"
proof -
  have "map (\<lambda>s. stat_of (ts_segment s) i) (st_segments st) =
      map (\<lambda>s. sum_list (map (\<lambda>b. if t b = ts_ts s then W b i else 0) bs)) (st_segments st)"
    by (rule map_cong [OF refl]) (rule stat)
  then show ?thesis
    using held_windows_sum [OF store_inv_distinct [OF inv], of bs t "\<lambda>b. W b i"] held by (simp del: map_eq_conv)
qed

section \<open>From system calls to statistics\<close>



end
